(* ===== verification/Rust_Str.thy ===== *)
theory Rust_Str
  imports Prelude
begin

text \<open>
  The operations of Rust's \<open>str\<close> that the sources call, on strings as byte sequences:
  \<open>split\<close>, \<open>splitn\<close>, \<open>join\<close>, \<open>strip_prefix\<close>, \<open>split_once\<close>, \<open>trim_start_matches\<close>,
  \<open>trim_end_matches\<close>, \<open>contains\<close>, \<open>replace\<close> and \<open>str::from_utf8\<close>. Every separator the
  sources use is an ASCII byte, which never occurs inside a multi-byte code point, so
  working on bytes and on code points agree.
\<close>

section \<open>Definitions\<close>

fun split_on :: "char \<Rightarrow> string \<Rightarrow> string list" where
  "split_on c [] = [[]]"
| "split_on c (x # xs) =
     (if x = c then [] # split_on c xs
      else (case split_on c xs of [] \<Rightarrow> [[x]] | s # ss \<Rightarrow> (x # s) # ss))"

fun join :: "string \<Rightarrow> string list \<Rightarrow> string" where
  "join sep [] = []"
| "join sep [s] = s"
| "join sep (s # t # ss) = s @ sep @ join sep (t # ss)"

fun splitn :: "nat \<Rightarrow> char \<Rightarrow> string \<Rightarrow> string list" where
  "splitn 0 c s = []"
| "splitn (Suc 0) c s = [s]"
| "splitn (Suc (Suc n)) c s =
     (case split_on c s of
        [] \<Rightarrow> [] | [x] \<Rightarrow> [x] | x # y # ys \<Rightarrow> x # splitn (Suc n) c (join [c] (y # ys)))"

fun strip_prefix :: "string \<Rightarrow> string \<Rightarrow> string option" where
  "strip_prefix [] s = Some s"
| "strip_prefix (p # ps) [] = None"
| "strip_prefix (p # ps) (x # xs) = (if p = x then strip_prefix ps xs else None)"

fun split_once :: "char \<Rightarrow> string \<Rightarrow> (string \<times> string) option" where
  "split_once c [] = None"
| "split_once c (x # xs) =
     (if x = c then Some ([], xs)
      else map_option (\<lambda>(a, b). (x # a, b)) (split_once c xs))"

lemma strip_prefix_eq: "strip_prefix p s = Some r \<longleftrightarrow> s = p @ r"
  by (induction p s rule: strip_prefix.induct) auto

text \<open>Removes the pattern from the front as long as it is there.\<close>

function trim_start_matches :: "string \<Rightarrow> string \<Rightarrow> string" where
  "trim_start_matches p s =
     (if p = [] then s
      else (case strip_prefix p s of None \<Rightarrow> s | Some r \<Rightarrow> trim_start_matches p r))"
  by pat_completeness auto

termination
  by (relation "measure (\<lambda>(p, s). length s)") (auto simp: strip_prefix_eq)

declare trim_start_matches.simps [simp del]

definition trim_end_matches :: "char \<Rightarrow> string \<Rightarrow> string" where
  "trim_end_matches c s = rev (dropWhile (\<lambda>x. x = c) (rev s))"

fun contains_str :: "string \<Rightarrow> string \<Rightarrow> bool" where
  "contains_str p s =
     (strip_prefix p s \<noteq> None \<or> (case s of [] \<Rightarrow> False | _ # xs \<Rightarrow> contains_str p xs))"

declare contains_str.simps [simp del]

text \<open>Non-overlapping replacement from left to right, for a non-empty pattern.\<close>

function replace_str :: "string \<Rightarrow> string \<Rightarrow> string \<Rightarrow> string" where
  "replace_str p r s =
     (if p = [] then s
      else case s of
        [] \<Rightarrow> []
      | x # xs \<Rightarrow>
          (case strip_prefix p s of
             Some rest \<Rightarrow> r @ replace_str p r rest
           | None \<Rightarrow> x # replace_str p r xs))"
  by pat_completeness auto
termination
  by (relation "measure (\<lambda>(p, r, s). length s)") (auto simp: strip_prefix_eq neq_Nil_conv)

declare replace_str.simps [simp del]

definition as_bytes :: "string \<Rightarrow> bytes" where
  "as_bytes s = map (\<lambda>c. of_nat (of_char c)) s"

text \<open>
  UTF-8 validation by the table of well-formed byte sequences (Unicode, table 3-7), as
  \<open>str::from_utf8\<close> documents it.
\<close>

definition utf8_tail :: "u8 \<Rightarrow> bool" where
  "utf8_tail b \<longleftrightarrow> 0x80 \<le> b \<and> b \<le> 0xBF"

fun utf8_valid :: "bytes \<Rightarrow> bool" where
  "utf8_valid [] = True"
| "utf8_valid (b # bs) =
     (if b \<le> 0x7F then utf8_valid bs
      else (case bs of
        [] \<Rightarrow> False
      | c # cs \<Rightarrow>
          if 0xC2 \<le> b \<and> b \<le> 0xDF then utf8_tail c \<and> utf8_valid cs
          else (case cs of
            [] \<Rightarrow> False
          | d # ds \<Rightarrow>
              if 0xE0 \<le> b \<and> b \<le> 0xEF then
                utf8_tail c \<and> (b = 0xE0 \<longrightarrow> 0xA0 \<le> c) \<and> (b = 0xED \<longrightarrow> c \<le> 0x9F)
                \<and> utf8_tail d \<and> utf8_valid ds
              else (case ds of
                [] \<Rightarrow> False
              | e # es \<Rightarrow>
                  0xF0 \<le> b \<and> b \<le> 0xF4 \<and> utf8_tail c
                  \<and> (b = 0xF0 \<longrightarrow> 0x90 \<le> c) \<and> (b = 0xF4 \<longrightarrow> c \<le> 0x8F)
                  \<and> utf8_tail d \<and> utf8_tail e \<and> utf8_valid es))))"

definition from_utf8 :: "bytes \<Rightarrow> string option" where
  "from_utf8 bs = (if utf8_valid bs then Some (map (\<lambda>b. char_of (unat b)) bs) else None)"

text \<open>
  \<open>str::parse\<close> into an unsigned integer type: an optional plus sign, at least one decimal
  digit and nothing else, and no overflow.
\<close>

definition digit_val :: "char \<Rightarrow> nat option" where
  "digit_val c =
     (let n = of_char c in if 48 \<le> n \<and> n \<le> (57 :: nat) then Some (n - 48) else None)"

fun parse_digits :: "nat \<Rightarrow> nat \<Rightarrow> string \<Rightarrow> nat option" where
  "parse_digits mx acc [] = Some acc"
| "parse_digits mx acc (c # cs) =
     (case digit_val c of
        None \<Rightarrow> None
      | Some d \<Rightarrow> if acc * 10 + d \<le> mx then parse_digits mx (acc * 10 + d) cs else None)"

definition parse_uint :: "nat \<Rightarrow> string \<Rightarrow> nat option" where
  "parse_uint mx s =
     (case s of
        [] \<Rightarrow> None
      | c # cs \<Rightarrow>
          if c = CHR ''+'' then (if cs = [] then None else parse_digits mx 0 cs)
          else parse_digits mx 0 s)"

definition rsplit_once :: "char \<Rightarrow> string \<Rightarrow> (string \<times> string) option" where
  "rsplit_once c s = map_option (\<lambda>(a, b). (rev b, rev a)) (split_once c (rev s))"

text \<open>
  \<open>str::trim\<close> removes the characters with the property \<open>White_Space\<close> at both ends; here they are
  their UTF-8 encodings. At the end of a valid string an encoding is a suffix exactly when the
  character is the last one.
\<close>

definition whitespace :: "string list" where
  "whitespace =
     map (\<lambda>n. [char_of n]) [9, 10, 11, 12, 13, 32 :: nat]
     @ map (map char_of)
         ([[0xC2, 0x85], [0xC2, 0xA0], [0xE1, 0x9A, 0x80],
           [0xE2, 0x80, 0xA8], [0xE2, 0x80, 0xA9], [0xE2, 0x80, 0xAF], [0xE2, 0x81, 0x9F],
           [0xE3, 0x80, 0x80]] @ map (\<lambda>n. [0xE2, 0x80, n]) [0x80 ..< 0x8B :: nat])"

fun strip_any :: "string list \<Rightarrow> string \<Rightarrow> string option" where
  "strip_any [] s = None"
| "strip_any (p # ps) s = (case strip_prefix p s of Some r \<Rightarrow> Some r | None \<Rightarrow> strip_any ps s)"

function strip_all :: "string list \<Rightarrow> string \<Rightarrow> string" where
  "strip_all ps s =
     (case strip_any ps s of
        Some r \<Rightarrow> if length r < length s then strip_all ps r else s
      | None \<Rightarrow> s)"
  by pat_completeness auto

termination
  by (relation "measure (\<lambda>(ps, s). length s)") auto

declare strip_all.simps [simp del]

definition trim :: "string \<Rightarrow> string" where
  "trim s = rev (strip_all (map rev whitespace) (rev (strip_all whitespace s)))"

section \<open>Splitting and joining\<close>

lemma split_on_ne [simp]: "split_on c s \<noteq> []"
  by (induction s) (auto split: list.splits)

lemma split_on_obtain:
  obtains t ts where "split_on c s = t # ts"
  by (cases "split_on c s") auto

lemma join_cons: "ss \<noteq> [] \<Longrightarrow> join sep (s # ss) = s @ sep @ join sep ss"
  by (cases ss) auto

lemma join_snoc: "ss \<noteq> [] \<Longrightarrow> join sep (ss @ [x]) = join sep ss @ sep @ x"
proof (induction ss)
  case (Cons s ss)
  then show ?case by (cases "ss = []") (simp_all add: join_cons)
qed simp

lemma join_cons_cons: "join sep ((x # s) # ss) = x # join sep (s # ss)"
  by (cases ss) auto

lemma join_split_on [simp]: "join [c] (split_on c s) = s"
proof (induction s)
  case Nil
  then show ?case by simp
next
  case (Cons x xs)
  obtain t ts where ts: "split_on c xs = t # ts"
    by (rule split_on_obtain)
  show ?case
    using Cons ts by (auto simp: join_cons join_cons_cons)
qed

lemma split_on_free: "seg \<in> set (split_on c s) \<Longrightarrow> c \<notin> set seg"
proof (induction s arbitrary: seg)
  case Nil
  then show ?case by simp
next
  case (Cons x xs)
  obtain t ts where ts: "split_on c xs = t # ts"
    by (rule split_on_obtain)
  show ?case
    using Cons.prems Cons.IH [of seg] Cons.IH [of t] ts by (auto split: if_splits)
qed

lemma split_on_no_sep [simp]: "c \<notin> set s \<Longrightarrow> split_on c s = [s]"
  by (induction s) auto

lemma split_on_append_sep:
  "c \<notin> set s \<Longrightarrow> split_on c (s @ c # t) = s # split_on c t"
  by (induction s) auto

lemma split_on_join:
  "ss \<noteq> [] \<Longrightarrow> \<forall>s \<in> set ss. c \<notin> set s \<Longrightarrow> split_on c (join [c] ss) = ss"
proof (induction ss)
  case Nil
  then show ?case by simp
next
  case (Cons s ss)
  then show ?case
    by (cases ss) (auto simp: split_on_append_sep)
qed

lemma split_on_inj: "split_on c s = split_on c t \<longleftrightarrow> s = t"
  by (metis join_split_on)

lemma set_split_on_subset: "seg \<in> set (split_on c s) \<Longrightarrow> set seg \<subseteq> set s"
proof (induction s arbitrary: seg)
  case Nil
  then show ?case by simp
next
  case (Cons x xs)
  obtain t ts where ts: "split_on c xs = t # ts"
    by (rule split_on_obtain)
  show ?case
    using Cons.prems Cons.IH [of seg] Cons.IH [of t] ts by (auto split: if_splits)
qed

lemma set_join_split: "set s \<subseteq> {c} \<union> (\<Union>seg \<in> set (split_on c s). set seg)"
proof (induction s)
  case Nil
  then show ?case by simp
next
  case (Cons x xs)
  obtain t ts where ts: "split_on c xs = t # ts"
    by (rule split_on_obtain)
  show ?case
    using Cons ts by auto
qed

section \<open>Searching and replacing\<close>

lemma contains_str_append: "contains_str p s \<longleftrightarrow> (\<exists>a b. s = a @ p @ b)"
proof (induction p s rule: contains_str.induct)
  case (1 p s)
  show ?case
  proof (cases s)
    case Nil
    then show ?thesis
      by (subst contains_str.simps) (cases p, auto)
  next
    case (Cons x xs)
    have "contains_str p s \<longleftrightarrow> (\<exists>b. s = p @ b) \<or> contains_str p xs"
      using Cons by (subst contains_str.simps) (auto simp flip: strip_prefix_eq)
    also have "\<dots> \<longleftrightarrow> (\<exists>b. s = p @ b) \<or> (\<exists>a b. xs = a @ p @ b)"
      using 1 Cons by auto
    also have "\<dots> \<longleftrightarrow> (\<exists>a b. s = a @ p @ b)"
      using Cons by (metis append_Cons append_Nil neq_Nil_conv list.inject)
    finally show ?thesis .
  qed
qed

lemma contains_str_subset: "contains_str p s \<Longrightarrow> set p \<subseteq> set s"
  by (auto simp: contains_str_append)

lemma not_contains_missing_char: "x \<in> set p \<Longrightarrow> x \<notin> set s \<Longrightarrow> \<not> contains_str p s"
  using contains_str_subset by blast

lemma replace_str_Nil [simp]: "replace_str p r [] = []"
  by (simp add: replace_str.simps)

text \<open>Replacing a one-byte pattern works byte by byte.\<close>

lemma replace_str_char: "replace_str [c] r s = concat (map (\<lambda>x. if x = c then r else [x]) s)"
proof (induction s)
  case Nil
  then show ?case by simp
next
  case (Cons x xs)
  then show ?case by (subst replace_str.simps) simp
qed

lemma byte_of_char_inj: "(of_nat (of_char c) :: u8) = of_nat (of_char d) \<longleftrightarrow> c = d"
proof -
  have lt: "(of_char x :: nat) < 256" for x :: char
    by (rule nat_of_char_less_256)
  have "(of_nat (of_char c) :: u8) = of_nat (of_char d) \<Longrightarrow> (of_char c :: nat) = of_char d"
    by (drule arg_cong [where f = unat]) (use lt in \<open>simp add: unat_of_nat\<close>)
  then show ?thesis
    by (metis char_of_char)
qed

lemma as_bytes_inj: "as_bytes s = as_bytes t \<longleftrightarrow> s = t"
  unfolding as_bytes_def by (rule inj_map_eq_map) (auto intro!: injI simp: byte_of_char_inj)

lemma zero_in_as_bytes: "0 \<in> set (as_bytes s) \<longleftrightarrow> CHR 0x00 \<in> set s"
proof -
  have "(0 :: u8) = of_nat (of_char CHR 0x00)" by simp
  then have "0 \<in> set (as_bytes s) \<longleftrightarrow>
      (\<exists>c \<in> set s. (of_nat (of_char CHR 0x00) :: u8) = of_nat (of_char c))"
    unfolding as_bytes_def by auto
  also have "\<dots> \<longleftrightarrow> CHR 0x00 \<in> set s"
    unfolding byte_of_char_inj by auto
  finally show ?thesis .
qed

text \<open>Two lists that agree up to and after the first separator.\<close>

lemma append_sep_inj:
  assumes "x \<notin> set a" and "x \<notin> set b" and "a @ x # c = b @ x # d"
  shows "a = b \<and> c = d"
  using assms
proof (induction a arbitrary: b)
  case Nil
  then show ?case by (cases b) auto
next
  case (Cons y a)
  then show ?case by (cases b) auto
qed

lemma length_as_bytes [simp]: "length (as_bytes s) = length s"
  by (simp add: as_bytes_def)

lemma strip_any_suffix: "strip_any ps s = Some r \<Longrightarrow> \<exists>p. s = p @ r"
  by (induction ps) (auto simp: strip_prefix_eq split: option.splits)

lemma strip_all_subset: "set (strip_all ps s) \<subseteq> set s"
proof (induction ps s rule: strip_all.induct)
  case (1 ps s)
  show ?case
  proof (cases "strip_any ps s")
    case None
    then show ?thesis by (simp add: strip_all.simps)
  next
    case (Some r)
    then obtain p where "s = p @ r" using strip_any_suffix by blast
    then show ?thesis using 1 Some by (subst strip_all.simps) auto
  qed
qed

lemma set_trim_subset: "set (trim s) \<subseteq> set s"
  using strip_all_subset [of "map rev whitespace" "rev (strip_all whitespace s)"]
    strip_all_subset [of whitespace s] by (auto simp: trim_def)

end
