(* ===== verification/Redb.thy ===== *)
theory Redb
  imports Rust_Str
begin

text \<open>
  The interface of the embedded key-value database \<open>redb\<close>, a third-party crate. Its operations
  are a parameter: a record of functions on an opaque database state, each of which may fail.
  What the broker relies on is the predicate \<open>redb_laws\<close>, which states the documented
  behaviour of a successful call through a view of the tables as maps: reads return what the
  table holds, writes change one key, iteration lists every key once in ascending order, and a
  transaction that is dropped without commit leaves the tables as they were.
\<close>

record ('k, 'd) redb =
  begin_write :: "'d \<Rightarrow> 'd result"
  begin_read :: "'d \<Rightarrow> 'd result"
  open_table :: "string \<Rightarrow> 'd \<Rightarrow> 'd result"
  tbl_get :: "string \<Rightarrow> 'k \<Rightarrow> 'd \<Rightarrow> bytes option result"
  tbl_insert :: "string \<Rightarrow> 'k \<Rightarrow> bytes \<Rightarrow> 'd \<Rightarrow> 'd result"
  tbl_remove :: "string \<Rightarrow> 'k \<Rightarrow> 'd \<Rightarrow> ('d \<times> bytes option) result"
  tbl_iter :: "string \<Rightarrow> 'd \<Rightarrow> ('k \<times> bytes) list result"
  commit :: "'d \<Rightarrow> 'd result"
  rollback :: "'d \<Rightarrow> 'd"

type_synonym ('k, 'd) table_view = "'d \<Rightarrow> string \<Rightarrow> 'k \<Rightarrow> bytes option"

definition redb_laws :: "('k::linorder, 'd) redb \<Rightarrow> ('k, 'd) table_view \<Rightarrow> bool" where
  "redb_laws R view \<longleftrightarrow>
     (\<forall>d w. begin_write R d = Inr w \<longrightarrow> view w = view d)
     \<and> (\<forall>d w. begin_read R d = Inr w \<longrightarrow> view w = view d)
     \<and> (\<forall>n d w. open_table R n d = Inr w \<longrightarrow> view w = view d)
     \<and> (\<forall>n k d v. tbl_get R n k d = Inr v \<longrightarrow> v = view d n k)
     \<and> (\<forall>n k b d w. tbl_insert R n k b d = Inr w
            \<longrightarrow> view w = (view d)(n := (view d n)(k \<mapsto> b)))
     \<and> (\<forall>n k d w v. tbl_remove R n k d = Inr (w, v)
            \<longrightarrow> v = view d n k \<and> view w = (view d)(n := (view d n)(k := None)))
     \<and> (\<forall>n d kvs. tbl_iter R n d = Inr kvs
            \<longrightarrow> sorted (map fst kvs) \<and> distinct (map fst kvs) \<and> map_of kvs = view d n)
     \<and> (\<forall>w d. commit R w = Inr d \<longrightarrow> view d = view w)
     \<and> (\<forall>d. view (rollback R d) = view d)"

lemma redb_lawsD:
  assumes "redb_laws R view"
  shows "begin_write R d = Inr w \<Longrightarrow> view w = view d"
    and "begin_read R d = Inr w \<Longrightarrow> view w = view d"
    and "open_table R n d = Inr w \<Longrightarrow> view w = view d"
    and "tbl_get R n k d = Inr v \<Longrightarrow> v = view d n k"
    and "tbl_insert R n k b d = Inr w \<Longrightarrow> view w = (view d)(n := (view d n)(k \<mapsto> b))"
    and "tbl_remove R n k d = Inr (w, v) \<Longrightarrow>
           v = view d n k \<and> view w = (view d)(n := (view d n)(k := None))"
    and "tbl_iter R n d = Inr kvs \<Longrightarrow>
           sorted (map fst kvs) \<and> distinct (map fst kvs) \<and> map_of kvs = view d n"
    and "commit R w = Inr d \<Longrightarrow> view d = view w"
    and "view (rollback R d) = view d"
  using assms unfolding redb_laws_def by (simp_all, blast?)

text \<open>
  A write transaction: the body works on the transaction's state, an error anywhere leaves the
  rolled-back database, success leaves the committed one.
\<close>

definition write_txn :: "('k, 'd) redb \<Rightarrow> ('d \<Rightarrow> ('d \<times> 'a) result) \<Rightarrow> 'd \<Rightarrow> 'd \<times> 'a result" where
  "write_txn R body d =
     (case rbind (begin_write R d)
             (\<lambda>w. rbind (body w) (\<lambda>(w', x). rbind (commit R w') (\<lambda>d'. Inr (d', x)))) of
        Inl e \<Rightarrow> (rollback R d, Inl e)
      | Inr (d', x) \<Rightarrow> (d', Inr x))"

lemma write_txn_Inl: "write_txn R body d = (d', Inl e) \<Longrightarrow> d' = rollback R d"
  by (auto simp: write_txn_def split: sum.splits)

lemma write_txn_Inr:
  assumes "redb_laws R view" and "write_txn R body d = (d', Inr x)"
  shows "\<exists>w w'. view w = view d \<and> body w = Inr (w', x) \<and> view d' = view w'"
  using assms(2) redb_lawsD(1,8) [OF assms(1)]
  by (fastforce simp: write_txn_def split: sum.splits)

section \<open>A database in memory\<close>

text \<open>
  A concrete database that satisfies the laws: tables as association lists, no failures,
  iteration over the sorted keys. It shows that the laws can hold.
\<close>

type_synonym 'k mem_db = "string \<Rightarrow> ('k \<times> bytes) list"

definition mem_iter :: "('k::linorder \<times> bytes) list \<Rightarrow> ('k \<times> bytes) list" where
  "mem_iter kvs = map (\<lambda>k. (k, the (map_of kvs k))) (sort (remdups (map fst kvs)))"

definition mem_redb :: "('k::linorder, 'k mem_db) redb" where
  "mem_redb =
     \<lparr>begin_write = Inr, begin_read = Inr, open_table = (\<lambda>n d. Inr d),
      tbl_get = (\<lambda>n k d. Inr (map_of (d n) k)),
      tbl_insert = (\<lambda>n k b d. Inr (d(n := (k, b) # d n))),
      tbl_remove = (\<lambda>n k d. Inr (d(n := filter (\<lambda>p. fst p \<noteq> k) (d n)), map_of (d n) k)),
      tbl_iter = (\<lambda>n d. Inr (mem_iter (d n))),
      commit = Inr, rollback = (\<lambda>d. d)\<rparr>"

definition mem_view :: "('k, 'k mem_db) table_view" where
  "mem_view d n = map_of (d n)"

lemma map_of_keys: "set ks = dom m \<Longrightarrow> map_of (map (\<lambda>k. (k, the (m k))) ks) = m"
  by (rule ext) (auto simp: map_of_map_keys domIff map_of_eq_None_iff split: option.splits
    dest: sym intro!: map_of_eq_None_iff [THEN iffD2])

lemma mem_iter_props:
  "sorted (map fst (mem_iter kvs))" "distinct (map fst (mem_iter kvs))"
  "map_of (mem_iter kvs) = map_of kvs"
proof -
  have "map fst (mem_iter kvs) = sort (remdups (map fst kvs))"
    by (simp add: mem_iter_def comp_def)
  then show "sorted (map fst (mem_iter kvs))" "distinct (map fst (mem_iter kvs))"
    by simp_all
  show "map_of (mem_iter kvs) = map_of kvs"
    unfolding mem_iter_def by (rule map_of_keys) (simp add: dom_map_of_conv_image_fst)
qed

lemma mem_redb_laws: "redb_laws mem_redb mem_view"
  unfolding redb_laws_def mem_redb_def
  by (intro conjI allI impI; (rule ext)?)
     (auto simp: mem_view_def mem_iter_props map_of_filter_neq)

end
