(* ===== verification/User_Store.thy ===== *)
theory User_Store
  imports Redb "HOL-Library.Char_ord" "HOL-Library.List_Lexorder"
begin

text \<open>
  The user database, \<open>src/db.rs\<close>: the trait \<open>UserStore\<close> as a record of operations, its
  implementation \<open>RedbStore\<close> over the tables \<open>users\<close> and \<open>verifiers2\<close>, and the password
  functions. The locale \<open>user_store_contract\<close> is what the REST handlers and the MQTT hooks
  rely on; \<open>RedbStore\<close> is shown to satisfy it for every database that obeys \<open>redb_laws\<close> and
  every codec whose decoder inverts its encoder. Argon2, HMAC and the codec (\<open>bincode\<close>) are
  third-party code and parameters of the definitions that call them.
\<close>

section \<open>Model\<close>

subsection \<open>Records and the trait\<close>

record user_record =
  ur_username :: string
  ur_userid :: string
  ur_password_hash :: string
  ur_superuser :: bool
  ur_admin :: bool

record new_user =
  nu_username :: string
  nu_userid :: string
  nu_password_hash :: string
  nu_superuser :: bool
  nu_admin :: bool

record 's user_store =
  us_insert_user :: "new_user \<Rightarrow> 's \<Rightarrow> 's \<times> bool result"
  us_upsert_user :: "new_user \<Rightarrow> 's \<Rightarrow> 's \<times> unit result"
  us_upsert_many :: "new_user list \<Rightarrow> 's \<Rightarrow> 's \<times> unit result"
  us_delete_user :: "string \<Rightarrow> 's \<Rightarrow> 's \<times> bool result"
  us_list_users :: "'s \<Rightarrow> user_record list result"
  us_get_user :: "string \<Rightarrow> 's \<Rightarrow> user_record option result"
  us_get_verifier :: "string \<Rightarrow> 's \<Rightarrow> bytes option result"
  us_set_verifier :: "string \<Rightarrow> bytes \<Rightarrow> 's \<Rightarrow> 's \<times> unit result"

subsection \<open>Passwords\<close>

text \<open>
  The Argon2 crate: parameters, hashing with a salt, parsing of a stored hash string and
  verification against a parsed hash.
\<close>

record ('p, 'h) argon2 =
  argon_params :: "nat \<Rightarrow> nat \<Rightarrow> nat \<Rightarrow> 'p result"
  argon_hash :: "'p \<Rightarrow> bytes \<Rightarrow> bytes \<Rightarrow> string result"
  argon_parse :: "string \<Rightarrow> 'h result"
  argon_verify :: "bytes \<Rightarrow> 'h \<Rightarrow> unit result"

definition env_u32 :: "(string \<rightharpoonup> string) \<Rightarrow> string \<Rightarrow> nat \<Rightarrow> nat" where
  "env_u32 env key dflt =
     (case Option.bind (env key) (parse_uint (2 ^ 32 - 1)) of None \<Rightarrow> dflt | Some n \<Rightarrow> n)"

definition redb_cache_bytes :: "(string \<rightharpoonup> string) \<Rightarrow> nat" where
  "redb_cache_bytes env =
     (case Option.bind (env ''REDB_CACHE_BYTES'') (parse_uint usize_max) of
        None \<Rightarrow> 64 * 1024 * 1024 | Some n \<Rightarrow> n)"

definition hash_password ::
    "('p, 'h) argon2 \<Rightarrow> (string \<rightharpoonup> string) \<Rightarrow> bytes \<Rightarrow> string \<Rightarrow> string result" where
  "hash_password A env salt password =
     rbind (argon_params A (env_u32 env ''ARGON2_M_COST'' 9216)
              (env_u32 env ''ARGON2_T_COST'' 2) (env_u32 env ''ARGON2_P_COST'' 1))
       (\<lambda>params. argon_hash A params salt (as_bytes password))"

definition verify_password :: "('p, 'h) argon2 \<Rightarrow> string \<Rightarrow> string \<Rightarrow> bool" where
  "verify_password A stored_hash password =
     (case argon_parse A stored_hash of
        Inr parsed \<Rightarrow> (case argon_verify A (as_bytes password) parsed of Inr _ \<Rightarrow> True | Inl _ \<Rightarrow> False)
      | Inl _ \<Rightarrow> False)"

text \<open>The bytes that the three \<open>update\<close> calls feed to HMAC and, in \<open>src/api.rs\<close>, to SHA-256.\<close>

definition credential_bytes :: "string \<Rightarrow> string \<Rightarrow> bytes" where
  "credential_bytes uname password = as_bytes uname @ [0] @ as_bytes password"

text \<open>\<open>hmac key message\<close> is HMAC-SHA256; its output is copied into an array of 32 bytes.\<close>

definition compute_verifier :: "(bytes \<Rightarrow> bytes \<Rightarrow> bytes) \<Rightarrow> bytes \<Rightarrow> string \<Rightarrow> string \<Rightarrow> bytes" where
  "compute_verifier hmac pepper uname password =
     (let out = hmac pepper (credential_bytes uname password)
      in take 32 (out @ replicate 32 0))"

fun ct_diff :: "bytes \<Rightarrow> bytes \<Rightarrow> u8 \<Rightarrow> u8" where
  "ct_diff (x # xs) (y # ys) diff = ct_diff xs ys (or diff (xor x y))"
| "ct_diff _ _ diff = diff"

definition ct_eq :: "bytes \<Rightarrow> bytes \<Rightarrow> bool" where
  "ct_eq a b = (if length a \<noteq> length b then False else ct_diff a b 0 = 0)"

definition verify_fast ::
    "(bytes \<Rightarrow> bytes \<Rightarrow> bytes) \<Rightarrow> bytes \<Rightarrow> string \<Rightarrow> string \<Rightarrow> bytes \<Rightarrow> bool" where
  "verify_fast hmac pepper uname password stored =
     ct_eq (compute_verifier hmac pepper uname password) stored"

subsection \<open>RedbStore\<close>

definition users_table :: string where
  "users_table = ''users''"

definition verifiers_table :: string where
  "verifiers_table = ''verifiers2''"

text \<open>\<open>db::open\<close>: the scheme prefix of the URL; the rest is the path.\<close>

definition db_open_path :: "string \<Rightarrow> string result" where
  "db_open_path url =
     (case strip_prefix ''redb://'' url of
        Some path \<Rightarrow> Inr path
      | None \<Rightarrow> Inl (ConfigError url))"

text \<open>\<open>RedbStore::open\<close> after the file is there: both tables are created in one transaction.\<close>

definition redb_store_open :: "(string, 'd) redb \<Rightarrow> 'd \<Rightarrow> 'd \<times> unit result" where
  "redb_store_open R d =
     write_txn R
       (\<lambda>w. rbind (open_table R users_table w)
         (\<lambda>w. rbind (open_table R verifiers_table w) (\<lambda>w. Inr (w, ())))) d"

definition record_of :: "new_user \<Rightarrow> user_record" where
  "record_of u = \<lparr>ur_username = nu_username u, ur_userid = nu_userid u,
     ur_password_hash = nu_password_hash u, ur_superuser = nu_superuser u,
     ur_admin = nu_admin u\<rparr>"

definition redb_insert_user ::
    "(string, 'd) redb \<Rightarrow> (user_record \<Rightarrow> bytes result) \<Rightarrow> new_user \<Rightarrow> 'd \<Rightarrow> 'd \<times> bool result" where
  "redb_insert_user R enc u d =
     (let r = record_of u in
      case enc r of
        Inl e \<Rightarrow> (d, Inl e)
      | Inr b \<Rightarrow>
          write_txn R
            (\<lambda>w. rbind (open_table R users_table w)
              (\<lambda>w. rbind (tbl_get R users_table (ur_username r) w)
                (\<lambda>found. if found \<noteq> None then Inr (w, False)
                   else rbind (tbl_insert R users_table (ur_username r) b w)
                     (\<lambda>w. Inr (w, True))))) d)"

definition redb_upsert_user ::
    "(string, 'd) redb \<Rightarrow> (user_record \<Rightarrow> bytes result) \<Rightarrow> new_user \<Rightarrow> 'd \<Rightarrow> 'd \<times> unit result" where
  "redb_upsert_user R enc u d =
     (let r = record_of u in
      case enc r of
        Inl e \<Rightarrow> (d, Inl e)
      | Inr b \<Rightarrow>
          write_txn R
            (\<lambda>w. rbind (open_table R users_table w)
              (\<lambda>w. rbind (tbl_insert R users_table (ur_username r) b w) (\<lambda>w. Inr (w, ())))) d)"

text \<open>The loop of \<open>upsert_many\<close>: encoding and insertion, user by user, in one transaction.\<close>

fun upsert_loop ::
    "(string, 'd) redb \<Rightarrow> (user_record \<Rightarrow> bytes result) \<Rightarrow> new_user list \<Rightarrow> 'd \<Rightarrow> 'd result" where
  "upsert_loop R enc [] w = Inr w"
| "upsert_loop R enc (u # us) w =
     rbind (enc (record_of u))
       (\<lambda>b. rbind (tbl_insert R users_table (nu_username u) b w)
         (\<lambda>w. upsert_loop R enc us w))"

definition redb_upsert_many ::
    "(string, 'd) redb \<Rightarrow> (user_record \<Rightarrow> bytes result) \<Rightarrow> new_user list \<Rightarrow> 'd \<Rightarrow> 'd \<times> unit result" where
  "redb_upsert_many R enc us d =
     (if us = [] then (d, Inr ())
      else write_txn R
        (\<lambda>w. rbind (open_table R users_table w)
          (\<lambda>w. rbind (upsert_loop R enc us w) (\<lambda>w. Inr (w, ())))) d)"

definition redb_delete_user :: "(string, 'd) redb \<Rightarrow> string \<Rightarrow> 'd \<Rightarrow> 'd \<times> bool result" where
  "redb_delete_user R uname d =
     write_txn R
       (\<lambda>w. rbind (open_table R users_table w)
         (\<lambda>w. rbind (tbl_remove R users_table uname w)
           (\<lambda>(w, old). rbind (open_table R verifiers_table w)
             (\<lambda>w. rbind (tbl_remove R verifiers_table uname w)
               (\<lambda>(w, _). Inr (w, old \<noteq> None)))))) d"

definition redb_list_users ::
    "(string, 'd) redb \<Rightarrow> (bytes \<Rightarrow> user_record result) \<Rightarrow> 'd \<Rightarrow> user_record list result" where
  "redb_list_users R dec d =
     rbind (begin_read R d)
       (\<lambda>rd. rbind (open_table R users_table rd)
         (\<lambda>rd. rbind (tbl_iter R users_table rd)
           (\<lambda>items. rbind (collect_results (\<lambda>(_, v). dec v) items)
             (\<lambda>out. Inr (sort_key ur_username out)))))"

definition redb_get_user ::
    "(string, 'd) redb \<Rightarrow> (bytes \<Rightarrow> user_record result) \<Rightarrow> string \<Rightarrow> 'd \<Rightarrow> user_record option result" where
  "redb_get_user R dec uname d =
     rbind (begin_read R d)
       (\<lambda>rd. rbind (open_table R users_table rd)
         (\<lambda>rd. rbind (tbl_get R users_table uname rd)
           (\<lambda>found. case found of
               Some v \<Rightarrow> rbind (dec v) (\<lambda>r. Inr (Some r))
             | None \<Rightarrow> Inr None)))"

definition redb_get_verifier :: "(string, 'd) redb \<Rightarrow> string \<Rightarrow> 'd \<Rightarrow> bytes option result" where
  "redb_get_verifier R uname d =
     rbind (begin_read R d)
       (\<lambda>rd. rbind (open_table R verifiers_table rd)
         (\<lambda>rd. rbind (tbl_get R verifiers_table uname rd) Inr))"

definition redb_set_verifier :: "(string, 'd) redb \<Rightarrow> string \<Rightarrow> bytes \<Rightarrow> 'd \<Rightarrow> 'd \<times> unit result" where
  "redb_set_verifier R uname v d =
     write_txn R
       (\<lambda>w. rbind (open_table R verifiers_table w)
         (\<lambda>w. rbind (tbl_insert R verifiers_table uname v w) (\<lambda>w. Inr (w, ())))) d"

definition redb_store ::
    "(string, 'd) redb \<Rightarrow> (user_record \<Rightarrow> bytes result) \<Rightarrow> (bytes \<Rightarrow> user_record result)
     \<Rightarrow> 'd user_store" where
  "redb_store R enc dec =
     \<lparr>us_insert_user = redb_insert_user R enc, us_upsert_user = redb_upsert_user R enc,
      us_upsert_many = redb_upsert_many R enc, us_delete_user = redb_delete_user R,
      us_list_users = redb_list_users R dec, us_get_user = redb_get_user R dec,
      us_get_verifier = redb_get_verifier R, us_set_verifier = redb_set_verifier R\<rparr>"

section \<open>Passwords: lemmas\<close>

lemma or_eq_0: "or a b = 0 \<longleftrightarrow> a = 0 \<and> b = 0" for a b :: "'a::len word"
  by (auto simp: bit_eq_iff bit_simps)

lemma xor_eq_0: "xor a b = 0 \<longleftrightarrow> a = b" for a b :: "'a::len word"
  by (auto simp: bit_eq_iff bit_simps)

lemma ct_diff_0:
  "length xs = length ys \<Longrightarrow> ct_diff xs ys d = 0 \<longleftrightarrow> d = 0 \<and> xs = ys"
  by (induction xs ys d rule: ct_diff.induct) (auto simp: or_eq_0 xor_eq_0)

lemma ct_eq_iff: "ct_eq a b \<longleftrightarrow> a = b"
  by (auto simp: ct_eq_def ct_diff_0)

lemma length_compute_verifier [simp]: "length (compute_verifier hmac pepper u p) = 32"
  by (simp add: compute_verifier_def Let_def)

text \<open>A user name without a NUL byte is delimited: the framing of the credentials is injective.\<close>

lemma credential_bytes_inj:
  assumes "CHR 0x00 \<notin> set u" and "CHR 0x00 \<notin> set u'"
    and "credential_bytes u p = credential_bytes u' p'"
  shows "u = u' \<and> p = p'"
proof -
  have "as_bytes u = as_bytes u' \<and> as_bytes p = as_bytes p'"
    by (rule append_sep_inj [of 0])
       (use assms in \<open>simp_all add: credential_bytes_def zero_in_as_bytes\<close>)
  then show ?thesis by (simp add: as_bytes_inj)
qed

section \<open>The contract of a user store\<close>

text \<open>
  A store is seen through two maps, the records by user name and the password verifiers by
  user name, and an invariant. A failed operation changes neither map.
\<close>

definition apply_upserts :: "new_user list \<Rightarrow> (string \<rightharpoonup> user_record) \<Rightarrow> (string \<rightharpoonup> user_record)" where
  "apply_upserts us m = fold (\<lambda>u m. m(nu_username u \<mapsto> record_of u)) us m"

locale user_store_contract =
  fixes U :: "'s user_store"
    and users :: "'s \<Rightarrow> string \<Rightarrow> user_record option"
    and verifs :: "'s \<Rightarrow> string \<Rightarrow> bytes option"
    and inv :: "'s \<Rightarrow> bool"
  assumes insert_ok: "inv s \<Longrightarrow> us_insert_user U u s = (s', Inr b) \<Longrightarrow>
      b = (users s (nu_username u) = None) \<and> verifs s' = verifs s \<and>
      users s' = (if b then (users s)(nu_username u \<mapsto> record_of u) else users s)"
    and insert_err: "inv s \<Longrightarrow> us_insert_user U u s = (s', Inl e) \<Longrightarrow>
      users s' = users s \<and> verifs s' = verifs s"
    and upsert_ok: "inv s \<Longrightarrow> us_upsert_user U u s = (s', Inr ()) \<Longrightarrow>
      users s' = (users s)(nu_username u \<mapsto> record_of u) \<and> verifs s' = verifs s"
    and upsert_err: "inv s \<Longrightarrow> us_upsert_user U u s = (s', Inl e) \<Longrightarrow>
      users s' = users s \<and> verifs s' = verifs s"
    and upsert_many_ok: "inv s \<Longrightarrow> us_upsert_many U us s = (s', Inr ()) \<Longrightarrow>
      users s' = apply_upserts us (users s) \<and> verifs s' = verifs s"
    and upsert_many_err: "inv s \<Longrightarrow> us_upsert_many U us s = (s', Inl e) \<Longrightarrow>
      users s' = users s \<and> verifs s' = verifs s"
    and delete_ok: "inv s \<Longrightarrow> us_delete_user U n s = (s', Inr b) \<Longrightarrow>
      b = (users s n \<noteq> None) \<and> users s' = (users s)(n := None) \<and> verifs s' = (verifs s)(n := None)"
    and delete_err: "inv s \<Longrightarrow> us_delete_user U n s = (s', Inl e) \<Longrightarrow>
      users s' = users s \<and> verifs s' = verifs s"
    and list_ok: "inv s \<Longrightarrow> us_list_users U s = Inr rs \<Longrightarrow>
      sorted (map ur_username rs) \<and> distinct (map ur_username rs) \<and>
      map_of (map (\<lambda>r. (ur_username r, r)) rs) = users s"
    and get_ok: "inv s \<Longrightarrow> us_get_user U n s = Inr found \<Longrightarrow> found = users s n"
    and get_verifier_ok: "inv s \<Longrightarrow> us_get_verifier U n s = Inr v \<Longrightarrow> v = verifs s n"
    and set_verifier_ok: "inv s \<Longrightarrow> us_set_verifier U n vb s = (s', Inr ()) \<Longrightarrow>
      users s' = users s \<and> verifs s' = (verifs s)(n \<mapsto> vb)"
    and set_verifier_err: "inv s \<Longrightarrow> us_set_verifier U n vb s = (s', Inl e) \<Longrightarrow>
      users s' = users s \<and> verifs s' = verifs s"
    and inv_keyed: "inv s \<Longrightarrow> users s n = Some r \<Longrightarrow> ur_username r = n"
    and inv_insert: "inv s \<Longrightarrow> inv (fst (us_insert_user U u s))"
    and inv_upsert: "inv s \<Longrightarrow> inv (fst (us_upsert_user U u s))"
    and inv_upsert_many: "inv s \<Longrightarrow> inv (fst (us_upsert_many U us s))"
    and inv_delete: "inv s \<Longrightarrow> inv (fst (us_delete_user U n s))"
    and inv_set_verifier: "inv s \<Longrightarrow> inv (fst (us_set_verifier U n vb s))"
begin

lemmas inv_preserved = inv_insert inv_upsert inv_upsert_many inv_delete inv_set_verifier

lemma get_after_insert:
  assumes "inv s" and "us_insert_user U u s = (s', Inr True)"
    and "us_get_user U (nu_username u) s' = Inr r"
  shows "r = Some (record_of u)"
proof -
  have "inv s'" using inv_insert [OF assms(1), of u] assms(2) by simp
  then show ?thesis
    using get_ok [OF _ assms(3)] insert_ok [OF assms(1,2)] by simp
qed

lemma insert_twice:
  assumes "inv s" and "us_insert_user U u s = (s', Inr b)"
    and "us_insert_user U v s' = (s'', Inr c)" and "nu_username v = nu_username u"
  shows "\<not> c"
proof -
  have "inv s'" using inv_insert [OF assms(1), of u] assms(2) by simp
  then show ?thesis
    using insert_ok [OF _ assms(3)] insert_ok [OF assms(1,2)] assms(4) by (auto split: if_splits)
qed

lemma get_after_delete:
  assumes "inv s" and "us_delete_user U n s = (s', Inr b)"
  shows "us_get_user U n s' = Inr r \<Longrightarrow> r = None"
    and "us_get_verifier U n s' = Inr v \<Longrightarrow> v = None"
proof -
  have "inv s'" using inv_delete [OF assms(1), of n] assms(2) by simp
  then show "us_get_user U n s' = Inr r \<Longrightarrow> r = None"
    and "us_get_verifier U n s' = Inr v \<Longrightarrow> v = None"
    using get_ok [of s' n r] get_verifier_ok [of s' n v] delete_ok [OF assms] by auto
qed

end

section \<open>RedbStore satisfies the contract\<close>

definition codec_laws :: "('a \<Rightarrow> bytes result) \<Rightarrow> (bytes \<Rightarrow> 'a result) \<Rightarrow> bool" where
  "codec_laws enc dec \<longleftrightarrow> (\<forall>x b. enc x = Inr b \<longrightarrow> dec b = Inr x)"

definition users_of ::
    "(bytes \<Rightarrow> user_record result) \<Rightarrow> (string, 'd) table_view \<Rightarrow> 'd \<Rightarrow> string \<Rightarrow> user_record option" where
  "users_of dec view d n = Option.bind (view d users_table n) (\<lambda>b. ok (dec b))"

definition verifs_of :: "(string, 'd) table_view \<Rightarrow> 'd \<Rightarrow> string \<Rightarrow> bytes option" where
  "verifs_of view d = view d verifiers_table"

text \<open>Every stored value decodes to a record that carries its key.\<close>

definition table_inv :: "(bytes \<Rightarrow> user_record result) \<Rightarrow> (string, 'd) table_view \<Rightarrow> 'd \<Rightarrow> bool" where
  "table_inv dec view d \<longleftrightarrow>
     (\<forall>n b. view d users_table n = Some b \<longrightarrow> (\<exists>r. dec b = Inr r \<and> ur_username r = n))"

definition redb_inv ::
    "(string, 'd) redb \<Rightarrow> (user_record \<Rightarrow> bytes result) \<Rightarrow> (bytes \<Rightarrow> user_record result)
     \<Rightarrow> (string, 'd) table_view \<Rightarrow> 'd \<Rightarrow> bool" where
  "redb_inv R enc dec view d \<longleftrightarrow> redb_laws R view \<and> codec_laws enc dec \<and> table_inv dec view d"

lemma tables_distinct [simp]: "users_table \<noteq> verifiers_table" "verifiers_table \<noteq> users_table"
  by (simp_all add: users_table_def verifiers_table_def)

lemma ur_username_record_of [simp]: "ur_username (record_of u) = nu_username u"
  by (simp add: record_of_def)

lemma table_inv_cong: "view d' users_table = view d users_table \<Longrightarrow> table_inv dec view d \<Longrightarrow> table_inv dec view d'"
  by (simp add: table_inv_def)

lemma users_of_cong: "view d' users_table = view d users_table \<Longrightarrow> users_of dec view d' = users_of dec view d"
  by (simp add: users_of_def fun_eq_iff)

lemma users_of_upd:
  assumes "view d' users_table = (view d users_table)(n \<mapsto> b)" and "dec b = Inr r"
  shows "users_of dec view d' = (users_of dec view d)(n \<mapsto> r)"
  using assms by (simp add: users_of_def fun_eq_iff)

lemma users_of_del:
  assumes "view d' users_table = (view d users_table)(n := None)"
  shows "users_of dec view d' = (users_of dec view d)(n := None)"
  using assms by (simp add: users_of_def fun_eq_iff)

lemma users_of_None:
  "table_inv dec view d \<Longrightarrow> users_of dec view d n = None \<longleftrightarrow> view d users_table n = None"
  unfolding users_of_def table_inv_def by (cases "view d users_table n") force+

lemma table_inv_upd:
  assumes "table_inv dec view d" and "view d' users_table = (view d users_table)(n \<mapsto> b)"
    and "dec b = Inr r" and "ur_username r = n"
  shows "table_inv dec view d'"
  using assms by (auto simp: table_inv_def)

lemma table_inv_del:
  assumes "table_inv dec view d" and "view d' users_table = (view d users_table)(n := None)"
  shows "table_inv dec view d'"
  using assms by (auto simp: table_inv_def split: if_splits)

subsection \<open>Effect of each operation on the tables\<close>

lemma write_txn_err_view:
  "redb_laws R view \<Longrightarrow> write_txn R body d = (d', Inl e) \<Longrightarrow> view d' = view d"
  using write_txn_Inl redb_lawsD(9) by metis

lemma redb_insert_user_err:
  "redb_laws R view \<Longrightarrow> redb_insert_user R enc u d = (d', Inl e) \<Longrightarrow> view d' = view d"
  by (auto simp: redb_insert_user_def Let_def dest: write_txn_err_view split: sum.splits)

lemma redb_insert_user_ok:
  assumes L: "redb_laws R view" and "redb_insert_user R enc u d = (d', Inr b)"
  shows "\<exists>eb. enc (record_of u) = Inr eb \<and> b = (view d users_table (nu_username u) = None)
     \<and> view d' = (if b then (view d)(users_table := (view d users_table)(nu_username u \<mapsto> eb)) else view d)"
proof -
  from assms(2) obtain eb where eb: "enc (record_of u) = Inr eb"
    by (auto simp: redb_insert_user_def Let_def split: sum.splits)
  with write_txn_Inr [OF L] assms(2) obtain w w' where
    w: "view w = view d" "view d' = view w'" and
    body: "rbind (open_table R users_table w)
              (\<lambda>w. rbind (tbl_get R users_table (nu_username u) w)
                (\<lambda>found. if found \<noteq> None then Inr (w, False)
                   else rbind (tbl_insert R users_table (nu_username u) eb w)
                     (\<lambda>w. Inr (w, True)))) = Inr (w', b)"
    by (fastforce simp: redb_insert_user_def Let_def)
  from body obtain w1 found where
    1: "open_table R users_table w = Inr w1" "tbl_get R users_table (nu_username u) w1 = Inr found"
       "(if found \<noteq> None then Inr (w1, False)
         else rbind (tbl_insert R users_table (nu_username u) eb w1) (\<lambda>w. Inr (w, True))) = Inr (w', b)"
    by auto
  have "view w1 = view d" and "found = view w1 users_table (nu_username u)"
    using redb_lawsD(3,4) [OF L] 1 w by metis+
  with 1(3) w eb show ?thesis
    by (auto split: if_splits dest: redb_lawsD(5) [OF L])
qed

lemma redb_upsert_user_err:
  "redb_laws R view \<Longrightarrow> redb_upsert_user R enc u d = (d', Inl e) \<Longrightarrow> view d' = view d"
  by (auto simp: redb_upsert_user_def Let_def dest: write_txn_err_view split: sum.splits)

lemma redb_upsert_user_ok:
  assumes L: "redb_laws R view" and "redb_upsert_user R enc u d = (d', Inr v)"
  shows "\<exists>eb. enc (record_of u) = Inr eb
     \<and> view d' = (view d)(users_table := (view d users_table)(nu_username u \<mapsto> eb))"
  using assms(2)
  by (auto simp: redb_upsert_user_def Let_def split: sum.splits
      dest!: write_txn_Inr [OF L] redb_lawsD(3,5) [OF L])

lemma apply_upserts_Cons:
  "apply_upserts (u # us) m = apply_upserts us (m(nu_username u \<mapsto> record_of u))"
  by (simp add: apply_upserts_def)

lemma redb_upsert_loop_ok:
  assumes L: "redb_laws R view" and C: "codec_laws enc dec"
  shows "upsert_loop R enc us w = Inr w' \<Longrightarrow> table_inv dec view w \<Longrightarrow>
     table_inv dec view w' \<and> users_of dec view w' = apply_upserts us (users_of dec view w)
     \<and> view w' verifiers_table = view w verifiers_table"
proof (induction us arbitrary: w)
  case Nil
  then show ?case by (simp add: apply_upserts_def)
next
  case (Cons u us)
  from Cons.prems(1) obtain b w1 where
    1: "enc (record_of u) = Inr b" "tbl_insert R users_table (nu_username u) b w = Inr w1"
       "upsert_loop R enc us w1 = Inr w'"
    by auto
  have v: "view w1 = (view w)(users_table := (view w users_table)(nu_username u \<mapsto> b))"
    using redb_lawsD(5) [OF L 1(2)] .
  have d: "dec b = Inr (record_of u)"
    using C 1(1) by (auto simp: codec_laws_def)
  have vu: "view w1 users_table = (view w users_table)(nu_username u \<mapsto> b)"
    and vv: "view w1 verifiers_table = view w verifiers_table"
    unfolding v by simp_all
  have "table_inv dec view w1"
    by (rule table_inv_upd [OF Cons.prems(2) vu d]) simp
  from Cons.IH [OF 1(3) this] show ?case
    unfolding users_of_upd [where d = w and d' = w1 and view = view and dec = dec, OF vu d] vv
      apply_upserts_Cons .
qed

lemma redb_upsert_many_err:
  "redb_laws R view \<Longrightarrow> redb_upsert_many R enc us d = (d', Inl e) \<Longrightarrow> view d' = view d"
  by (auto simp: redb_upsert_many_def dest: write_txn_err_view split: if_splits)

lemma redb_upsert_many_ok:
  assumes L: "redb_laws R view" and C: "codec_laws enc dec" and I: "table_inv dec view d"
    and "redb_upsert_many R enc us d = (d', Inr v)"
  shows "table_inv dec view d' \<and> users_of dec view d' = apply_upserts us (users_of dec view d)
     \<and> view d' verifiers_table = view d verifiers_table"
proof (cases "us = []")
  case True
  with assms(4) I show ?thesis by (simp add: redb_upsert_many_def apply_upserts_def)
next
  case False
  with assms(4) write_txn_Inr [OF L] obtain w w1 w2 where
    w: "view w = view d" "open_table R users_table w = Inr w1" "upsert_loop R enc us w1 = Inr w2"
       "view d' = view w2"
    by (fastforce simp: redb_upsert_many_def)
  have v: "view w1 = view d" using redb_lawsD(3) [OF L w(2)] w(1) by simp
  then have "table_inv dec view w1" and u: "users_of dec view w1 = users_of dec view d"
    using I by (auto simp: table_inv_def users_of_def fun_eq_iff)
  from redb_upsert_loop_ok [OF L C w(3) this(1)] show ?thesis
    using w(4) v u by (auto simp: table_inv_def users_of_def fun_eq_iff)
qed

lemma redb_delete_user_err:
  "redb_laws R view \<Longrightarrow> redb_delete_user R n d = (d', Inl e) \<Longrightarrow> view d' = view d"
  by (auto simp: redb_delete_user_def dest: write_txn_err_view)

lemma redb_delete_user_ok:
  assumes L: "redb_laws R view" and "redb_delete_user R n d = (d', Inr b)"
  shows "b = (view d users_table n \<noteq> None)
     \<and> view d' users_table = (view d users_table)(n := None)
     \<and> view d' verifiers_table = (view d verifiers_table)(n := None)"
proof -
  from write_txn_Inr [OF L] assms(2) obtain w w1 w2 w3 w4 old ov where
    w: "view w = view d" "open_table R users_table w = Inr w1"
       "tbl_remove R users_table n w1 = Inr (w2, old)"
       "open_table R verifiers_table w2 = Inr w3"
       "tbl_remove R verifiers_table n w3 = Inr (w4, ov)"
       "b = (old \<noteq> None)" "view d' = view w4"
    unfolding redb_delete_user_def by fastforce
  have "view w1 = view d" using redb_lawsD(3) [OF L w(2)] w(1) by simp
  moreover have "old = view w1 users_table n"
    and "view w2 = (view w1)(users_table := (view w1 users_table)(n := None))"
    using redb_lawsD(6) [OF L w(3)] by simp_all
  moreover have "view w3 = view w2" using redb_lawsD(3) [OF L w(4)] .
  moreover have "view w4 = (view w3)(verifiers_table := (view w3 verifiers_table)(n := None))"
    using redb_lawsD(6) [OF L w(5)] by simp
  ultimately show ?thesis using w(6,7) by simp
qed

lemma redb_set_verifier_err:
  "redb_laws R view \<Longrightarrow> redb_set_verifier R n vb d = (d', Inl e) \<Longrightarrow> view d' = view d"
  by (auto simp: redb_set_verifier_def dest: write_txn_err_view)

lemma redb_set_verifier_ok:
  assumes L: "redb_laws R view" and "redb_set_verifier R n vb d = (d', Inr v)"
  shows "view d' = (view d)(verifiers_table := (view d verifiers_table)(n \<mapsto> vb))"
  using assms(2)
  by (auto simp: redb_set_verifier_def dest!: write_txn_Inr [OF L] redb_lawsD(3,5) [OF L])

text \<open>A read looks a key up in the table as it was when the transaction began.\<close>

lemma read_get:
  assumes L: "redb_laws R view"
    and "rbind (begin_read R d) (\<lambda>rd. rbind (open_table R t rd)
           (\<lambda>rd. rbind (tbl_get R t n rd) f)) = Inr x"
  shows "f (view d t n) = Inr x"
proof -
  from assms(2) obtain r1 r2 v where
    r: "begin_read R d = Inr r1" "open_table R t r1 = Inr r2" "tbl_get R t n r2 = Inr v"
       "f v = Inr x"
    by auto
  have "v = view r2 t n" and "view r2 = view r1" and "view r1 = view d"
    using redb_lawsD(4) [OF L r(3)] redb_lawsD(3) [OF L r(2)] redb_lawsD(2) [OF L r(1)] by simp_all
  with r(4) show ?thesis by simp
qed

lemma redb_get_user_ok:
  assumes L: "redb_laws R view" and "redb_get_user R dec n d = Inr r"
  shows "r = users_of dec view d n"
  using read_get [OF L assms(2) [unfolded redb_get_user_def]]
  by (auto simp: users_of_def split: option.splits)

lemma redb_get_verifier_ok:
  assumes L: "redb_laws R view" and "redb_get_verifier R n d = Inr v"
  shows "v = view d verifiers_table n"
  using read_get [OF L assms(2) [unfolded redb_get_verifier_def]] by simp

lemma collect_keyed:
  assumes "list_all2 (\<lambda>(k, b) r. dec b = Inr r) items rs"
    and "\<forall>(k, b) \<in> set items. \<forall>r. dec b = Inr r \<longrightarrow> ur_username r = k"
  shows "map ur_username rs = map fst items"
    and "map_of (map (\<lambda>r. (ur_username r, r)) rs) n = Option.bind (map_of items n) (\<lambda>b. ok (dec b))"
  using assms by (induction rule: list_all2_induct) auto

lemma redb_list_users_ok:
  assumes L: "redb_laws R view" and I: "table_inv dec view d"
    and "redb_list_users R dec d = Inr rs"
  shows "sorted (map ur_username rs) \<and> distinct (map ur_username rs)
     \<and> map_of (map (\<lambda>r. (ur_username r, r)) rs) = users_of dec view d"
proof -
  from assms(3) obtain r1 r2 items out where
    r: "begin_read R d = Inr r1" "open_table R users_table r1 = Inr r2"
       "tbl_iter R users_table r2 = Inr items"
       "list_all2 (\<lambda>(k, b) r. dec b = Inr r) items out"
       "rs = sort_key ur_username out"
    by (auto simp: redb_list_users_def collect_results_Inr case_prod_unfold)
  have v: "view r2 = view d"
    using redb_lawsD(3) [OF L r(2)] redb_lawsD(2) [OF L r(1)] by simp
  have it: "sorted (map fst items)" "distinct (map fst items)" "map_of items = view d users_table"
    using redb_lawsD(7) [OF L r(3)] v by simp_all
  have "\<forall>(k, b) \<in> set items. \<forall>r. dec b = Inr r \<longrightarrow> ur_username r = k"
    using I it(2,3) unfolding table_inv_def by (auto simp flip: map_of_eq_Some_iff) (metis Inr_inject)
  note ck = collect_keyed [OF r(4) this]
  have "sort_key ur_username out = out"
    by (rule sort_key_id_if_sorted) (use it(1) ck(1) in simp)
  then show ?thesis
    using r(5) ck it by (simp add: fun_eq_iff users_of_def)
qed

text \<open>Every operation keeps the table invariant.\<close>

lemma redb_insert_user_inv:
  assumes "redb_inv R enc dec view d"
  shows "redb_inv R enc dec view (fst (redb_insert_user R enc u d))"
proof -
  obtain d' res where eq: "redb_insert_user R enc u d = (d', res)" by force
  have L: "redb_laws R view" and C: "codec_laws enc dec" and I: "table_inv dec view d"
    using assms by (auto simp: redb_inv_def)
  have "table_inv dec view d'"
  proof (cases res)
    case (Inl e)
    then show ?thesis using redb_insert_user_err [OF L] eq I table_inv_cong by metis
  next
    case (Inr b)
    then obtain eb where eb: "enc (record_of u) = Inr eb"
      "view d' = (if b then (view d)(users_table := (view d users_table)(nu_username u \<mapsto> eb)) else view d)"
      using redb_insert_user_ok [OF L] eq by metis
    have "dec eb = Inr (record_of u)" using C eb(1) by (auto simp: codec_laws_def)
    then show ?thesis
      using I eb(2) by (auto simp: table_inv_def split: if_splits)
  qed
  with L C eq show ?thesis by (simp add: redb_inv_def)
qed

lemma redb_upsert_user_inv:
  assumes "redb_inv R enc dec view d"
  shows "redb_inv R enc dec view (fst (redb_upsert_user R enc u d))"
proof -
  obtain d' res where eq: "redb_upsert_user R enc u d = (d', res)" by force
  have L: "redb_laws R view" and C: "codec_laws enc dec" and I: "table_inv dec view d"
    using assms by (auto simp: redb_inv_def)
  have "table_inv dec view d'"
  proof (cases res)
    case (Inl e)
    then show ?thesis using redb_upsert_user_err [OF L] eq I table_inv_cong by metis
  next
    case (Inr v)
    then obtain eb where eb: "enc (record_of u) = Inr eb"
      "view d' = (view d)(users_table := (view d users_table)(nu_username u \<mapsto> eb))"
      using redb_upsert_user_ok [OF L] eq by metis
    have "dec eb = Inr (record_of u)" using C eb(1) by (auto simp: codec_laws_def)
    then show ?thesis using I eb(2) by (auto simp: table_inv_def)
  qed
  with L C eq show ?thesis by (simp add: redb_inv_def)
qed

lemma redb_upsert_many_inv:
  assumes "redb_inv R enc dec view d"
  shows "redb_inv R enc dec view (fst (redb_upsert_many R enc us d))"
proof -
  obtain d' res where eq: "redb_upsert_many R enc us d = (d', res)" by force
  have L: "redb_laws R view" and C: "codec_laws enc dec" and I: "table_inv dec view d"
    using assms by (auto simp: redb_inv_def)
  have "table_inv dec view d'"
  proof (cases res)
    case (Inl e)
    then show ?thesis using redb_upsert_many_err [OF L] eq I table_inv_cong by metis
  next
    case (Inr v)
    then show ?thesis using redb_upsert_many_ok [OF L C I] eq by metis
  qed
  with L C eq show ?thesis by (simp add: redb_inv_def)
qed

lemma redb_delete_user_inv:
  assumes "redb_inv R enc dec view d"
  shows "redb_inv R enc dec view (fst (redb_delete_user R n d))"
proof -
  obtain d' res where eq: "redb_delete_user R n d = (d', res)" by force
  have L: "redb_laws R view" and C: "codec_laws enc dec" and I: "table_inv dec view d"
    using assms by (auto simp: redb_inv_def)
  have "table_inv dec view d'"
  proof (cases res)
    case (Inl e)
    then show ?thesis using redb_delete_user_err [OF L, of n d d' e] eq I table_inv_cong [of view d' d] by simp
  next
    case (Inr b)
    then show ?thesis using redb_delete_user_ok [OF L, of n d d' b] eq table_inv_del [OF I, of d' n] by simp
  qed
  with L C eq show ?thesis by (simp add: redb_inv_def)
qed

lemma redb_set_verifier_inv:
  assumes "redb_inv R enc dec view d"
  shows "redb_inv R enc dec view (fst (redb_set_verifier R n vb d))"
proof -
  obtain d' res where eq: "redb_set_verifier R n vb d = (d', res)" by force
  have L: "redb_laws R view" and C: "codec_laws enc dec" and I: "table_inv dec view d"
    using assms by (auto simp: redb_inv_def)
  have "view d' users_table = view d users_table"
  proof (cases res)
    case (Inl e)
    then show ?thesis using eq redb_set_verifier_err [OF L] by metis
  next
    case (Inr v)
    then show ?thesis using eq redb_set_verifier_ok [OF L] by (metis fun_upd_other tables_distinct(1))
  qed
  then have "table_inv dec view d'" using I by (rule table_inv_cong)
  with L C eq show ?thesis by (simp add: redb_inv_def)
qed

subsection \<open>The interpretation\<close>

lemma redb_invD:
  assumes "redb_inv R enc dec view d"
  shows "redb_laws R view" and "codec_laws enc dec" and "table_inv dec view d"
  using assms by (simp_all add: redb_inv_def)

lemma redb_view_eq:
  "view d' = view d \<Longrightarrow> users_of dec view d' = users_of dec view d \<and> verifs_of view d' = verifs_of view d"
  by (simp add: users_of_def verifs_of_def fun_eq_iff)

lemma redb_contract_insert:
  assumes I: "redb_inv R enc dec view d" and "redb_insert_user R enc u d = (d', Inr b)"
  shows "b = (users_of dec view d (nu_username u) = None) \<and> verifs_of view d' = verifs_of view d \<and>
    users_of dec view d' = (if b then (users_of dec view d)(nu_username u \<mapsto> record_of u) else users_of dec view d)"
proof -
  obtain eb where e: "enc (record_of u) = Inr eb" "b = (view d users_table (nu_username u) = None)"
    "view d' = (if b then (view d)(users_table := (view d users_table)(nu_username u \<mapsto> eb)) else view d)"
    using redb_insert_user_ok [OF redb_invD(1) [OF I] assms(2)] by blast
  have d: "dec eb = Inr (record_of u)"
    using redb_invD(2) [OF I] e(1) by (auto simp: codec_laws_def)
  show ?thesis
  proof (cases b)
    case True
    then have "view d' users_table = (view d users_table)(nu_username u \<mapsto> eb)" using e(3) by simp
    from users_of_upd [where d = d and d' = d' and view = view and dec = dec, OF this d] True e users_of_None [OF redb_invD(3) [OF I]] show ?thesis
      by (simp add: verifs_of_def)
  next
    case False
    with e redb_view_eq [of view d' d dec] users_of_None [OF redb_invD(3) [OF I]] show ?thesis by simp
  qed
qed

lemma redb_contract_upsert:
  assumes I: "redb_inv R enc dec view d" and "redb_upsert_user R enc u d = (d', Inr ())"
  shows "users_of dec view d' = (users_of dec view d)(nu_username u \<mapsto> record_of u)
    \<and> verifs_of view d' = verifs_of view d"
proof -
  obtain eb where e: "enc (record_of u) = Inr eb"
    "view d' = (view d)(users_table := (view d users_table)(nu_username u \<mapsto> eb))"
    using redb_upsert_user_ok [OF redb_invD(1) [OF I] assms(2)] by blast
  have d: "dec eb = Inr (record_of u)"
    using redb_invD(2) [OF I] e(1) by (auto simp: codec_laws_def)
  have "view d' users_table = (view d users_table)(nu_username u \<mapsto> eb)" using e(2) by simp
  from users_of_upd [where d = d and d' = d' and view = view and dec = dec, OF this d] e(2) show ?thesis by (simp add: verifs_of_def)
qed

lemma redb_contract_delete:
  assumes I: "redb_inv R enc dec view d" and "redb_delete_user R n d = (d', Inr b)"
  shows "b = (users_of dec view d n \<noteq> None) \<and> users_of dec view d' = (users_of dec view d)(n := None)
    \<and> verifs_of view d' = (verifs_of view d)(n := None)"
  using redb_delete_user_ok [OF redb_invD(1) [OF I] assms(2)] users_of_None [OF redb_invD(3) [OF I]]
    users_of_del [of view d' d n dec]
  unfolding verifs_of_def by metis

lemma redb_store_sel [simp]:
  "us_insert_user (redb_store R enc dec) = redb_insert_user R enc"
  "us_upsert_user (redb_store R enc dec) = redb_upsert_user R enc"
  "us_upsert_many (redb_store R enc dec) = redb_upsert_many R enc"
  "us_delete_user (redb_store R enc dec) = redb_delete_user R"
  "us_list_users (redb_store R enc dec) = redb_list_users R dec"
  "us_get_user (redb_store R enc dec) = redb_get_user R dec"
  "us_get_verifier (redb_store R enc dec) = redb_get_verifier R"
  "us_set_verifier (redb_store R enc dec) = redb_set_verifier R"
  by (simp_all add: redb_store_def)

lemma redb_contract_set_verifier:
  assumes I: "redb_inv R enc dec view d" and "redb_set_verifier R n vb d = (d', Inr ())"
  shows "users_of dec view d' = users_of dec view d \<and> verifs_of view d' = (verifs_of view d)(n \<mapsto> vb)"
proof -
  have v: "view d' = (view d)(verifiers_table := (view d verifiers_table)(n \<mapsto> vb))"
    using redb_set_verifier_ok [OF redb_invD(1) [OF I] assms(2)] .
  have "view d' users_table = view d users_table" unfolding v by simp
  from users_of_cong [of view d' d, OF this] show ?thesis unfolding verifs_of_def v by simp
qed

lemma redb_contract_keyed:
  assumes "redb_inv R enc dec view d" and "users_of dec view d n = Some r"
  shows "ur_username r = n"
proof -
  obtain b where "view d users_table n = Some b" and "ok (dec b) = Some r"
    using assms(2) by (auto simp: users_of_def Option.bind_eq_Some_conv)
  with redb_invD(3) [OF assms(1)] show ?thesis
    unfolding table_inv_def by (metis ok_simps(2) option.inject)
qed

interpretation redbs: user_store_contract "redb_store R enc dec" "users_of dec view"
    "verifs_of view" "redb_inv R enc dec view" for R enc dec view
proof (unfold_locales, unfold redb_store_sel)
  fix s s' and u :: new_user and us :: "new_user list" and n vb e b rs found v r
  assume I: "redb_inv R enc dec view s"
  note L = redb_invD(1) [OF I]
  show "redb_insert_user R enc u s = (s', Inr b) \<Longrightarrow>
      b = (users_of dec view s (nu_username u) = None) \<and> verifs_of view s' = verifs_of view s \<and>
      users_of dec view s' = (if b then (users_of dec view s)(nu_username u \<mapsto> record_of u) else users_of dec view s)"
    by (rule redb_contract_insert [OF I])
  show "redb_insert_user R enc u s = (s', Inl e) \<Longrightarrow>
      users_of dec view s' = users_of dec view s \<and> verifs_of view s' = verifs_of view s"
    by (rule redb_view_eq [OF redb_insert_user_err [OF L]])
  show "redb_upsert_user R enc u s = (s', Inr ()) \<Longrightarrow>
      users_of dec view s' = (users_of dec view s)(nu_username u \<mapsto> record_of u)
      \<and> verifs_of view s' = verifs_of view s"
    by (rule redb_contract_upsert [OF I])
  show "redb_upsert_user R enc u s = (s', Inl e) \<Longrightarrow>
      users_of dec view s' = users_of dec view s \<and> verifs_of view s' = verifs_of view s"
    by (rule redb_view_eq [OF redb_upsert_user_err [OF L]])
  show "redb_upsert_many R enc us s = (s', Inr ()) \<Longrightarrow>
      users_of dec view s' = apply_upserts us (users_of dec view s) \<and> verifs_of view s' = verifs_of view s"
    using redb_upsert_many_ok [OF redb_invD [OF I], of us s' "()"] by (simp add: verifs_of_def)
  show "redb_upsert_many R enc us s = (s', Inl e) \<Longrightarrow>
      users_of dec view s' = users_of dec view s \<and> verifs_of view s' = verifs_of view s"
    by (rule redb_view_eq [OF redb_upsert_many_err [OF L]])
  show "redb_delete_user R n s = (s', Inr b) \<Longrightarrow>
      b = (users_of dec view s n \<noteq> None) \<and> users_of dec view s' = (users_of dec view s)(n := None)
      \<and> verifs_of view s' = (verifs_of view s)(n := None)"
    by (rule redb_contract_delete [OF I])
  show "redb_delete_user R n s = (s', Inl e) \<Longrightarrow>
      users_of dec view s' = users_of dec view s \<and> verifs_of view s' = verifs_of view s"
    by (rule redb_view_eq [OF redb_delete_user_err [OF L]])
  show "redb_list_users R dec s = Inr rs \<Longrightarrow>
      sorted (map ur_username rs) \<and> distinct (map ur_username rs) \<and>
      map_of (map (\<lambda>r. (ur_username r, r)) rs) = users_of dec view s"
    by (rule redb_list_users_ok [OF L redb_invD(3) [OF I]])
  show "redb_get_user R dec n s = Inr found \<Longrightarrow> found = users_of dec view s n"
    by (rule redb_get_user_ok [OF L])
  show "redb_get_verifier R n s = Inr v \<Longrightarrow> v = verifs_of view s n"
    unfolding verifs_of_def by (rule redb_get_verifier_ok [OF L])
  show "redb_set_verifier R n vb s = (s', Inr ()) \<Longrightarrow>
      users_of dec view s' = users_of dec view s \<and> verifs_of view s' = (verifs_of view s)(n \<mapsto> vb)"
    by (rule redb_contract_set_verifier [OF I])
  show "redb_set_verifier R n vb s = (s', Inl e) \<Longrightarrow>
      users_of dec view s' = users_of dec view s \<and> verifs_of view s' = verifs_of view s"
    by (rule redb_view_eq [OF redb_set_verifier_err [OF L]])
  show "users_of dec view s n = Some r \<Longrightarrow> ur_username r = n"
    by (rule redb_contract_keyed [OF I])
qed (rule redb_insert_user_inv redb_upsert_user_inv redb_upsert_many_inv redb_delete_user_inv
       redb_set_verifier_inv, assumption)+

end
