(* ===== verification/Api_Cache.thy ===== *)
theory Api_Cache
  imports User_Store
begin

text \<open>
  The two caches in front of the user store, \<open>src/api.rs\<close>: \<open>AuthCache\<close> remembers verified
  credentials by their digest, \<open>UserCache\<close> remembers user records by name. Both keep an expiry
  with every entry. The clock is an argument: \<open>now\<close> is the value of \<open>Instant::now()\<close> in that
  call. The locale \<open>ttl_cache\<close> is the contract of both; its main lemma traces a hit back to the
  insertion that caused it. Lock poisoning needs a panic inside a critical section, which has
  none, so a lock is always obtained.
\<close>

section \<open>Model\<close>

record auth_cache =
  ac_map :: "bytes \<rightharpoonup> bool \<times> instant"
  ac_ttl :: duration

definition auth_cache_new :: "duration \<Rightarrow> auth_cache" where
  "auth_cache_new ttl = \<lparr>ac_map = Map.empty, ac_ttl = ttl\<rparr>"

definition auth_cache_get :: "bytes \<Rightarrow> instant \<Rightarrow> auth_cache \<Rightarrow> bool option" where
  "auth_cache_get key now c =
     (case ac_map c key of
        None \<Rightarrow> None
      | Some (superuser, expiry) \<Rightarrow> if expiry > now then Some superuser else None)"

definition auth_cache_insert :: "bytes \<Rightarrow> bool \<Rightarrow> instant \<Rightarrow> auth_cache \<Rightarrow> auth_cache" where
  "auth_cache_insert key superuser now c =
     (if ac_ttl c = 0 then c
      else c\<lparr>ac_map := (ac_map c)(key \<mapsto> (superuser, now + ac_ttl c))\<rparr>)"

definition auth_cache_purge_user :: "string \<Rightarrow> auth_cache \<Rightarrow> auth_cache" where
  "auth_cache_purge_user uname c = c\<lparr>ac_map := Map.empty\<rparr>"

definition auth_cache_sweep :: "instant \<Rightarrow> auth_cache \<Rightarrow> auth_cache" where
  "auth_cache_sweep now c =
     c\<lparr>ac_map := (\<lambda>k. case ac_map c k of
                       None \<Rightarrow> None
                     | Some (s, expiry) \<Rightarrow> if expiry > now then Some (s, expiry) else None)\<rparr>"

record user_cache =
  uc_map :: "string \<rightharpoonup> user_record \<times> instant"
  uc_ttl :: duration

definition user_cache_new :: "duration \<Rightarrow> user_cache" where
  "user_cache_new ttl = \<lparr>uc_map = Map.empty, uc_ttl = ttl\<rparr>"

definition user_cache_get :: "string \<Rightarrow> instant \<Rightarrow> user_cache \<Rightarrow> user_record option" where
  "user_cache_get uname now c =
     (case uc_map c uname of
        None \<Rightarrow> None
      | Some (r, expiry) \<Rightarrow> if expiry > now then Some r else None)"

definition user_cache_insert :: "string \<Rightarrow> user_record \<Rightarrow> instant \<Rightarrow> user_cache \<Rightarrow> user_cache" where
  "user_cache_insert uname r now c =
     (if uc_ttl c = 0 then c
      else c\<lparr>uc_map := (uc_map c)(uname \<mapsto> (r, now + uc_ttl c))\<rparr>)"

definition user_cache_purge :: "string \<Rightarrow> user_cache \<Rightarrow> user_cache" where
  "user_cache_purge uname c = c\<lparr>uc_map := (uc_map c)(uname := None)\<rparr>"

definition user_cache_sweep :: "instant \<Rightarrow> user_cache \<Rightarrow> user_cache" where
  "user_cache_sweep now c =
     c\<lparr>uc_map := (\<lambda>k. case uc_map c k of
                       None \<Rightarrow> None
                     | Some (r, expiry) \<Rightarrow> if expiry > now then Some (r, expiry) else None)\<rparr>"

section \<open>The contract of a cache\<close>

text \<open>
  A history of calls on a cache, the oldest first, with the clock value each call reads.
\<close>

datatype ('k, 'v, 'p) cache_op = CInsert 'k 'v instant | CPurge 'p | CSweep instant

fun cache_step ::
    "('k \<Rightarrow> 'v \<Rightarrow> instant \<Rightarrow> 'c \<Rightarrow> 'c) \<Rightarrow> ('p \<Rightarrow> 'c \<Rightarrow> 'c) \<Rightarrow> (instant \<Rightarrow> 'c \<Rightarrow> 'c)
     \<Rightarrow> ('k, 'v, 'p) cache_op \<Rightarrow> 'c \<Rightarrow> 'c" where
  "cache_step ins pur swp (CInsert k v t) c = ins k v t c"
| "cache_step ins pur swp (CPurge p) c = pur p c"
| "cache_step ins pur swp (CSweep t) c = swp t c"

locale ttl_cache =
  fixes new :: "duration \<Rightarrow> 'c"
    and get :: "'k \<Rightarrow> instant \<Rightarrow> 'c \<Rightarrow> 'v option"
    and insrt :: "'k \<Rightarrow> 'v \<Rightarrow> instant \<Rightarrow> 'c \<Rightarrow> 'c"
    and purge :: "'p \<Rightarrow> 'c \<Rightarrow> 'c"
    and sweep :: "instant \<Rightarrow> 'c \<Rightarrow> 'c"
    and ttl :: "'c \<Rightarrow> duration"
    and covers :: "'p \<Rightarrow> 'k \<Rightarrow> bool"
  assumes get_new: "get k now (new d) = None"
    and ttl_new: "ttl (new d) = d"
    and get_insert_same: "0 < ttl c \<Longrightarrow>
      get k now (insrt k v t c) = (if now < t + ttl c then Some v else None)"
    and get_insert_other: "k' \<noteq> k \<Longrightarrow> get k' now (insrt k v t c) = get k' now c"
    and insert_disabled: "ttl c = 0 \<Longrightarrow> insrt k v t c = c"
    and get_purge: "get k now (purge p c) = (if covers p k then None else get k now c)"
    and get_sweep: "get k now (sweep t c) = Some v \<Longrightarrow> get k now c = Some v"
    and get_sweep_later: "t \<le> now \<Longrightarrow> get k now (sweep t c) = get k now c"
    and ttl_insert: "ttl (insrt k v t c) = ttl c"
    and ttl_purge: "ttl (purge p c) = ttl c"
    and ttl_sweep: "ttl (sweep t c) = ttl c"
begin

lemma ttl_step: "ttl (cache_step insrt purge sweep oper c) = ttl c"
  by (cases oper) (simp_all add: ttl_insert ttl_purge ttl_sweep)

lemma ttl_run: "ttl (fold (cache_step insrt purge sweep) ops c) = ttl c"
  by (induction ops arbitrary: c) (simp_all add: ttl_step)

lemma get_insert:
  "get k' now (insrt k v t c) =
     (if k' = k \<and> 0 < ttl c then (if now < t + ttl c then Some v else None) else get k' now c)"
  by (cases "ttl c = 0") (auto simp: get_insert_same get_insert_other insert_disabled)

text \<open>
  A hit comes from an insertion of that value under that key, less than the time to live ago,
  with no purge of the key since.
\<close>

lemma hit_provenance:
  assumes "get k now (fold (cache_step insrt purge sweep) ops (new d)) = Some v"
  shows "\<exists>before t after. ops = before @ CInsert k v t # after \<and> now < t + d
     \<and> (\<forall>p. CPurge p \<in> set after \<longrightarrow> \<not> covers p k)"
  using assms
proof (induction ops rule: rev_induct)
  case Nil
  then show ?case by (simp add: get_new)
next
  case (snoc oper ops)
  let ?c = "fold (cache_step insrt purge sweep) ops (new d)"
  have older: "get k now ?c = Some v \<Longrightarrow> (\<And>p. oper = CPurge p \<Longrightarrow> \<not> covers p k) \<Longrightarrow> ?case"
  proof -
    assume "get k now ?c = Some v" and np: "\<And>p. oper = CPurge p \<Longrightarrow> \<not> covers p k"
    from snoc.IH [OF this(1)] obtain before t after where
      "ops = before @ CInsert k v t # after" "now < t + d"
      "\<forall>p. CPurge p \<in> set after \<longrightarrow> \<not> covers p k" by blast
    then show ?case
      using np by (intro exI [of _ before] exI [of _ t] exI [of _ "after @ [oper]"]) auto
  qed
  show ?case
  proof (cases oper)
    case (CInsert k' v' t)
    then have hit: "get k now (insrt k' v' t ?c) = Some v" using snoc.prems by simp
    show ?thesis
    proof (cases "k = k' \<and> 0 < ttl ?c")
      case True
      then have "v' = v \<and> now < t + d"
        using hit by (simp add: get_insert ttl_run ttl_new split: if_splits)
      then show ?thesis using True CInsert by (intro exI [of _ ops] exI [of _ t] exI [of _ "[]"]) simp
    next
      case False
      then have "get k now ?c = Some v" using hit by (auto simp: get_insert split: if_splits)
      then show ?thesis using older CInsert by simp
    qed
  next
    case (CPurge p)
    then have "\<not> covers p k \<and> get k now ?c = Some v"
      using snoc.prems by (simp add: get_purge split: if_splits)
    then show ?thesis using older CPurge by simp
  next
    case (CSweep t)
    then have "get k now ?c = Some v" using snoc.prems get_sweep [of k now t ?c v] by simp
    then show ?thesis using older CSweep by simp
  qed
qed

lemma miss_after_purge:
  assumes "covers p k" and "\<forall>v t. CInsert k v t \<notin> set ops"
  shows "get k now (fold (cache_step insrt purge sweep) ops (purge p c)) = None"
  using assms(2)
proof (induction ops rule: rev_induct)
  case Nil
  then show ?case by (simp add: get_purge assms(1))
next
  case (snoc oper ops)
  let ?c = "fold (cache_step insrt purge sweep) ops (purge p c)"
  have "get k now ?c = None" using snoc by simp
  then show ?case
  proof (cases oper)
    case (CInsert k' v' t)
    with snoc.prems have "k' \<noteq> k" by auto
    with CInsert \<open>get k now ?c = None\<close> show ?thesis by (simp add: get_insert_other)
  next
    case (CSweep t)
    then show ?thesis using get_sweep [of k now t ?c] \<open>get k now ?c = None\<close>
      by (cases "get k now (sweep t ?c)") auto
  qed (simp add: get_purge)
qed

lemma disabled_misses:
  "get k now (fold (cache_step insrt purge sweep) ops (new 0)) = None"
proof (induction ops rule: rev_induct)
  case (snoc oper ops)
  let ?c = "fold (cache_step insrt purge sweep) ops (new 0)"
  show ?case
  proof (cases oper)
    case (CSweep t)
    then show ?thesis using get_sweep [of k now t ?c] snoc by (cases "get k now (sweep t ?c)") auto
  qed (use snoc in \<open>simp_all add: get_insert get_purge ttl_run ttl_new\<close>)
qed (simp add: get_new)

end

section \<open>Both caches satisfy it\<close>

interpretation authc: ttl_cache auth_cache_new auth_cache_get auth_cache_insert
    auth_cache_purge_user auth_cache_sweep ac_ttl "\<lambda>_ _. True"
  by unfold_locales
     (auto simp: auth_cache_new_def auth_cache_get_def auth_cache_insert_def
       auth_cache_purge_user_def auth_cache_sweep_def split: option.splits prod.splits if_splits)

interpretation userc: ttl_cache user_cache_new user_cache_get user_cache_insert
    user_cache_purge user_cache_sweep uc_ttl "(=)"
  by unfold_locales
     (auto simp: user_cache_new_def user_cache_get_def user_cache_insert_def
       user_cache_purge_def user_cache_sweep_def split: option.splits prod.splits if_splits)

end
