(* ===== verification/Ciqada_Config.thy ===== *)
theory Ciqada_Config
  imports Rust_Str
begin

text \<open>
  The configuration of the broker, \<open>src/config.rs\<close>: the records, their defaults and
  \<open>Config::load\<close>, which reads an optional TOML file and lets three environment variables
  override it. The TOML parser and the file system are parameters of \<open>config_load\<close>; the
  environment is a map from variable names to values.
\<close>

section \<open>Model\<close>

record socket_addr =
  sa_ip :: string
  sa_port :: nat

record mqtt_config =
  tcp_addr :: socket_addr
  ws_addr :: socket_addr
  message_expiry_secs :: nat
  mqtt_max_mqueue_len :: nat
  mqtt_max_inflight :: nat
  busy_check :: bool
  persist_messages :: bool

record api_config =
  api_addr :: socket_addr
  api_token :: "string option"

record db_config =
  db_url :: string

record fanout_config =
  auto_subscribe :: bool
  fanout_qos :: nat

record cluster_config =
  cluster_enabled :: bool
  cluster_node_id :: u64
  grpc_laddr :: socket_addr
  raft_laddr :: string
  node_grpc_addrs :: "string list"
  raft_peer_addrs :: "string list"
  leader_id :: u64
  join_max_retries :: nat
  join_retry_secs :: nat

record acl_config =
  acl_enabled :: bool
  publish_topics :: "string list"
  fanout_prefixes :: "string list"
  admin_prefixes :: "string list"

record config =
  cfg_mqtt :: mqtt_config
  cfg_api :: api_config
  cfg_db :: db_config
  cfg_fanout :: fanout_config
  cfg_acl :: acl_config
  cfg_cluster :: cluster_config

definition cluster_config_default :: cluster_config where
  "cluster_config_default =
     \<lparr>cluster_enabled = False, cluster_node_id = 1,
      grpc_laddr = \<lparr>sa_ip = ''0.0.0.0'', sa_port = 5363\<rparr>,
      raft_laddr = ''0.0.0.0:6003'', node_grpc_addrs = [], raft_peer_addrs = [],
      leader_id = 1, join_max_retries = 10, join_retry_secs = 5\<rparr>"

definition mqtt_config_default :: mqtt_config where
  "mqtt_config_default =
     \<lparr>tcp_addr = \<lparr>sa_ip = ''0.0.0.0'', sa_port = 1883\<rparr>,
      ws_addr = \<lparr>sa_ip = ''0.0.0.0'', sa_port = 8083\<rparr>,
      message_expiry_secs = 20 * 60, mqtt_max_mqueue_len = 1000, mqtt_max_inflight = 65535,
      busy_check = False, persist_messages = False\<rparr>"

definition api_config_default :: api_config where
  "api_config_default = \<lparr>api_addr = \<lparr>sa_ip = ''0.0.0.0'', sa_port = 8090\<rparr>, api_token = None\<rparr>"

definition db_config_default :: db_config where
  "db_config_default = \<lparr>db_url = ''redb://data/users.redb''\<rparr>"

definition fanout_config_default :: fanout_config where
  "fanout_config_default = \<lparr>auto_subscribe = False, fanout_qos = 1\<rparr>"

definition acl_config_default :: acl_config where
  "acl_config_default =
     \<lparr>acl_enabled = True, publish_topics = [''chatsync'', ''updates''],
      fanout_prefixes = [''fanout''], admin_prefixes = [''adminfanout'']\<rparr>"

definition config_default :: config where
  "config_default =
     \<lparr>cfg_mqtt = mqtt_config_default, cfg_api = api_config_default, cfg_db = db_config_default,
      cfg_fanout = fanout_config_default, cfg_acl = acl_config_default,
      cfg_cluster = cluster_config_default\<rparr>"

type_synonym env = "string \<rightharpoonup> string"

definition u64_parse :: "string \<Rightarrow> u64 option" where
  "u64_parse s = map_option of_nat (parse_uint (2 ^ 64 - 1) s)"

text \<open>
  \<open>Config::load\<close>. \<open>fs\<close> gives the content of a file (\<open>None\<close> when the path does not exist, an
  error when it cannot be read) and \<open>toml\<close> is the TOML deserialiser.
\<close>

definition config_load ::
    "(string \<Rightarrow> string result option) \<Rightarrow> (string \<Rightarrow> config result) \<Rightarrow> env \<Rightarrow> string
     \<Rightarrow> config result" where
  "config_load fs toml env path =
     rbind (case fs path of
              Some raw \<Rightarrow> rbind raw toml
            | None \<Rightarrow> Inr config_default)
       (\<lambda>cfg0.
          let cfg1 = (case env ''API_TOKEN'' of
                        Some t \<Rightarrow> cfg0\<lparr>cfg_api := (cfg_api cfg0)\<lparr>api_token := Some t\<rparr>\<rparr>
                      | None \<Rightarrow> cfg0);
              cfg2 = (case env ''DB_URL'' of
                        Some u \<Rightarrow> cfg1\<lparr>cfg_db := (cfg_db cfg1)\<lparr>db_url := u\<rparr>\<rparr>
                      | None \<Rightarrow> cfg1)
          in (case env ''NODE_ID'' of
                Some s \<Rightarrow>
                  (case u64_parse s of
                     Some n \<Rightarrow> Inr (cfg2\<lparr>cfg_cluster := (cfg_cluster cfg2)\<lparr>cluster_node_id := n\<rparr>\<rparr>)
                   | None \<Rightarrow> Inl (ConfigError ''NODE_ID must be a positive integer''))
              | None \<Rightarrow> Inr cfg2))"

section \<open>What the environment overrides\<close>

lemma config_load_frame:
  assumes "config_load fs toml env path = Inr cfg"
  shows "\<exists>cfg0. (case fs path of Some raw \<Rightarrow> rbind raw toml | None \<Rightarrow> Inr config_default) = Inr cfg0
     \<and> cfg_mqtt cfg = cfg_mqtt cfg0 \<and> cfg_acl cfg = cfg_acl cfg0 \<and> cfg_fanout cfg = cfg_fanout cfg0
     \<and> api_addr (cfg_api cfg) = api_addr (cfg_api cfg0)
     \<and> api_token (cfg_api cfg) = (case env ''API_TOKEN'' of Some t \<Rightarrow> Some t | None \<Rightarrow> api_token (cfg_api cfg0))
     \<and> db_url (cfg_db cfg) = (case env ''DB_URL'' of Some u \<Rightarrow> u | None \<Rightarrow> db_url (cfg_db cfg0))
     \<and> leader_id (cfg_cluster cfg) = leader_id (cfg_cluster cfg0)"
  using assms unfolding config_load_def Let_def rbind_eq_Inr
  by (elim exE conjE, rule_tac x = x in exI)
     (auto split: option.splits)

end
