(* ===== verification/Vault.thy ===== *)
theory Vault
  imports Ciqada_Config
begin

text \<open>
  The secret store client, \<open>src/vault.rs\<close>. The HTTP client is a parameter that maps a URL to
  a response or a transport error, and the JSON decoder of the response body is a parameter
  too. The lemmas show that the encoding of a secret's name is injective and free of slashes,
  so that two names never address the same path and a name never leaves its path segment.
\<close>

section \<open>Model\<close>

record http_response =
  hr_status :: nat
  hr_body :: string

definition is_success :: "http_response \<Rightarrow> bool" where
  "is_success r \<longleftrightarrow> 200 \<le> hr_status r \<and> hr_status r < 300"

text \<open>\<open>reqwest::Response::error_for_status\<close>: client and server errors become an \<open>Err\<close>.\<close>

definition error_for_status :: "http_response \<Rightarrow> http_response result" where
  "error_for_status r =
     (if 400 \<le> hr_status r \<and> hr_status r < 600 then Inl (HttpError ''status'') else Inr r)"

record vault_client =
  vc_addr :: string

definition vault_from_env :: "env \<Rightarrow> vault_client option" where
  "vault_from_env env =
     (case env ''VAULT_ADDR'' of
        None \<Rightarrow> None
      | Some addr \<Rightarrow>
          if addr = [] then None
          else Some \<lparr>vc_addr = trim_end_matches (CHR ''/'') addr\<rparr>)"

definition encode_name :: "string \<Rightarrow> string" where
  "encode_name name = replace_str ''/'' ''%2F'' (replace_str ''%'' ''%25'' name)"

definition vault_url :: "vault_client \<Rightarrow> string \<Rightarrow> string" where
  "vault_url v name = vc_addr v @ ''/v1/secrets/'' @ encode_name name"

definition vault_get_value ::
    "(string \<Rightarrow> http_response result) \<Rightarrow> (string \<Rightarrow> string option result)
     \<Rightarrow> vault_client \<Rightarrow> string \<Rightarrow> string option result" where
  "vault_get_value http secret_json v name =
     rbind (http (vault_url v name))
       (\<lambda>resp. if hr_status resp = 404 then Inr None
               else rbind (error_for_status resp) (\<lambda>r. secret_json (hr_body r)))"

section \<open>Names of secrets\<close>

definition enc_char :: "char \<Rightarrow> string" where
  "enc_char x = (if x = CHR ''%'' then ''%25'' else if x = CHR ''/'' then ''%2F'' else [x])"

lemma encode_name_chars: "encode_name name = concat (map enc_char name)"
  unfolding encode_name_def replace_str_char
  by (induction name) (auto simp: enc_char_def)

lemma enc_char_append_inj:
  "enc_char x @ s = enc_char y @ t \<longleftrightarrow> x = y \<and> s = t"
  by (auto simp: enc_char_def split: if_splits)

lemma enc_char_ne: "enc_char x \<noteq> []"
  by (simp add: enc_char_def)

lemma encode_name_inj: "encode_name a = encode_name b \<Longrightarrow> a = b"
  unfolding encode_name_chars
proof (induction a arbitrary: b)
  case Nil
  then show ?case by (cases b) (auto simp: enc_char_ne)
next
  case (Cons x xs)
  then show ?case by (cases b) (auto simp: enc_char_ne enc_char_append_inj)
qed

lemma encode_name_no_slash: "CHR ''/'' \<notin> set (encode_name name)"
  by (auto simp: encode_name_chars enc_char_def split: if_splits)

lemma vault_url_inj: "vault_url v a = vault_url v b \<Longrightarrow> a = b"
  by (simp add: vault_url_def encode_name_inj)

text \<open>A secret is only ever taken from a response that is neither \<open>404\<close> nor an error.\<close>

lemma vault_get_value_Some:
  assumes "vault_get_value http js v name = Inr (Some s)"
  shows "\<exists>resp. http (vault_url v name) = Inr resp \<and> \<not> (400 \<le> hr_status resp \<and> hr_status resp < 600)
     \<and> js (hr_body resp) = Inr (Some s)"
  using assms by (auto simp: vault_get_value_def error_for_status_def split: if_splits)

end
