(* ===== verification/Api_State.thy ===== *)
theory Api_State
  imports Api_Cache Vault
begin

text \<open>
  The shared state of the management API, \<open>AppState\<close> of \<open>src/api.rs\<close>: the user store, the bearer
  token with its rotation, the caches and the settings. The middleware \<open>require_token\<close> guards
  every route but the health check. The semaphore that limits concurrent hashing only delays a
  call and the handle of the broker serves the status page, so neither is a field here; the HTTP
  client is a parameter of the operations that use it. A response is its status and JSON body.
\<close>

section \<open>Model\<close>

datatype json =
    JBool bool
  | JNum int
  | JStr string
  | JArr "json list"
  | JObj "(string \<times> json) list"

record response =
  rsp_status :: nat
  rsp_body :: "json option"

definition bad_request :: "string \<Rightarrow> response" where
  "bad_request msg = \<lparr>rsp_status = 400, rsp_body = Some (JObj [(''error'', JStr msg)])\<rparr>"

definition internal_error :: "error \<Rightarrow> response" where
  "internal_error e = \<lparr>rsp_status = 500, rsp_body = Some (JObj [(''error'', JStr ''internal error'')])\<rparr>"

definition unauthorized :: response where
  "unauthorized =
     \<lparr>rsp_status = 401, rsp_body = Some (JObj [(''error'', JStr ''invalid or missing bearer token'')])\<rparr>"

definition no_content :: response where
  "no_content = \<lparr>rsp_status = 204, rsp_body = None\<rparr>"

record token_pair =
  tp_current :: string
  tp_previous :: "string option"
  tp_refreshed_at :: "instant option"

record 's app_state =
  st_db :: 's
  st_token :: token_pair
  st_acl :: acl_config
  st_auth_cache :: auth_cache
  st_users :: user_cache
  st_peers :: "string list"
  st_auth_disabled :: bool
  st_pepper :: "bytes option"
  st_vault :: "vault_client option"
  st_cluster :: cluster_config

definition token_matches :: "string \<Rightarrow> 's app_state \<Rightarrow> bool" where
  "token_matches presented st \<longleftrightarrow>
     presented = tp_current (st_token st) \<or> tp_previous (st_token st) = Some presented"

definition current_token :: "'s app_state \<Rightarrow> string" where
  "current_token st = tp_current (st_token st)"

text \<open>
  \<open>refresh_token\<close>: at most one request to the vault in five seconds. \<open>vget\<close> is
  \<open>VaultClient::get_value\<close>.
\<close>

definition refresh_token ::
    "(vault_client \<Rightarrow> string \<Rightarrow> string option result) \<Rightarrow> instant \<Rightarrow> 's app_state \<Rightarrow> 's app_state" where
  "refresh_token vget now st =
     (case st_vault st of
        None \<Rightarrow> st
      | Some v \<Rightarrow>
          if (case tp_refreshed_at (st_token st) of Some at \<Rightarrow> now - at < secs 5 | None \<Rightarrow> False) then st
          else
            let st1 = st\<lparr>st_token := (st_token st)\<lparr>tp_refreshed_at := Some now\<rparr>\<rparr>
            in (case vget v ''ciqada/api-token'' of
                  Inr (Some new) \<Rightarrow>
                    if tp_current (st_token st1) \<noteq> new
                    then st1\<lparr>st_token := (st_token st1)
                           \<lparr>tp_previous := Some (tp_current (st_token st1)), tp_current := new\<rparr>\<rparr>
                    else st1
                | _ \<Rightarrow> st1))"

text \<open>
  \<open>require_token\<close>. \<open>header\<close> is the value of the \<open>Authorization\<close> header when there is one and
  it is readable as text; \<open>next\<close> is the rest of the request's processing.
\<close>

definition bearer_of :: "string option \<Rightarrow> string option" where
  "bearer_of header = Option.bind header (strip_prefix ''Bearer '')"

definition authorize ::
    "(vault_client \<Rightarrow> string \<Rightarrow> string option result) \<Rightarrow> instant \<Rightarrow> string option
     \<Rightarrow> 's app_state \<Rightarrow> 's app_state \<times> bool" where
  "authorize vget now header st =
     (case bearer_of header of
        Some t \<Rightarrow>
          if token_matches t st then (st, True)
          else let st' = refresh_token vget now st in (st', token_matches t st')
      | None \<Rightarrow> (st, False))"

definition require_token ::
    "(vault_client \<Rightarrow> string \<Rightarrow> string option result) \<Rightarrow> instant \<Rightarrow> string option
     \<Rightarrow> ('s app_state \<Rightarrow> 's app_state \<times> response \<times> 'x list) \<Rightarrow> 's app_state
     \<Rightarrow> 's app_state \<times> response \<times> 'x list" where
  "require_token vget now header next st =
     (let (st', authorized) = authorize vget now header st
      in if authorized then next st' else (st', unauthorized, []))"

section \<open>Tokens\<close>

lemma refresh_token_frame [simp]:
  "st_db (refresh_token vget now st) = st_db st"
  "st_auth_cache (refresh_token vget now st) = st_auth_cache st"
  "st_users (refresh_token vget now st) = st_users st"
  "st_acl (refresh_token vget now st) = st_acl st"
  "st_peers (refresh_token vget now st) = st_peers st"
  "st_pepper (refresh_token vget now st) = st_pepper st"
  "st_vault (refresh_token vget now st) = st_vault st"
  "st_auth_disabled (refresh_token vget now st) = st_auth_disabled st"
  by (auto simp: refresh_token_def Let_def split: option.splits sum.splits)

lemma authorize_frame [simp]:
  "st_db (fst (authorize vget now h st)) = st_db st"
  "st_auth_cache (fst (authorize vget now h st)) = st_auth_cache st"
  "st_users (fst (authorize vget now h st)) = st_users st"
  by (auto simp: authorize_def Let_def split: option.splits)

text \<open>
  The token before a rotation stays valid until the next rotation, so that requests of peers
  that have not refreshed yet are still served.
\<close>

lemma token_survives_refresh:
  "token_matches (current_token st) (refresh_token vget now st)"
  by (auto simp: refresh_token_def token_matches_def current_token_def Let_def
      split: option.splits sum.splits)

text \<open>A token is accepted only if it was current or previous, or the vault has just named it.\<close>

lemma authorize_sound:
  assumes "authorize vget now h st = (st', True)"
  shows "\<exists>t. h = Some (''Bearer '' @ t) \<and>
     (token_matches t st \<or> (\<exists>v. st_vault st = Some v \<and> vget v ''ciqada/api-token'' = Inr (Some t)))"
proof -
  obtain t where b: "bearer_of h = Some t"
    using assms by (auto simp: authorize_def split: option.splits)
  then have "h = Some (''Bearer '' @ t)"
    by (auto simp: bearer_of_def Option.bind_eq_Some_conv strip_prefix_eq)
  moreover have "token_matches t st \<or> (\<exists>v. st_vault st = Some v \<and> vget v ''ciqada/api-token'' = Inr (Some t))"
    using assms b
    by (auto simp: authorize_def Let_def refresh_token_def token_matches_def
        split: option.splits sum.splits if_splits)
  ultimately show ?thesis by blast
qed

text \<open>Within five seconds of a refresh the vault is not asked again and nothing changes.\<close>

lemma refresh_token_throttled:
  "tp_refreshed_at (st_token st) = Some at \<Longrightarrow> now < at + secs 5 \<Longrightarrow> refresh_token vget now st = st"
  by (auto simp: refresh_token_def secs_def split: option.splits)

lemma require_token_rejects:
  assumes "require_token vget now h next st = (st', rsp, out)"
    and "\<not> snd (authorize vget now h st)"
  shows "rsp = unauthorized \<and> out = [] \<and> st_db st' = st_db st
     \<and> st_auth_cache st' = st_auth_cache st \<and> st_users st' = st_users st"
proof -
  obtain s1 where a: "authorize vget now h st = (s1, False)"
    using assms(2) by (cases "authorize vget now h st") simp
  then have "st_db s1 = st_db st" "st_auth_cache s1 = st_auth_cache st" "st_users s1 = st_users st"
    using authorize_frame [of vget now h st] by simp_all
  with assms(1) a show ?thesis by (simp add: require_token_def Let_def)
qed

end
