(* ===== verification/Api_Users.thy ===== *)
theory Api_Users
  imports Api_State
begin

text \<open>
  The user management endpoints of \<open>src/api.rs\<close>: creation, deletion and listing of users, the
  replication of changes to the other nodes of a cluster and the snapshot catch-up at start. A
  handler takes the state to the new state, the response and the replication requests it sends.
  The store is a parameter of type \<open>user_store\<close>; the lemmas of the section on handlers are
  proved in the locale \<open>user_store_contract\<close> and hold for \<open>RedbStore\<close> by its interpretation.
\<close>

section \<open>Model\<close>

record create_user_req =
  cu_username :: string
  cu_userid :: string
  cu_password :: string
  cu_superuser :: bool
  cu_admin :: bool

datatype repl_op = Upsert user_record | Delete string

record 'j http_post =
  post_url :: string
  post_token :: string
  post_body :: 'j

text \<open>
  Third-party code that the handlers call: Argon2, HMAC-SHA256, SHA-256 and the JSON encoder of
  a replication operation; and the process environment.
\<close>

record ('p, 'h, 'j) externals =
  ext_argon2 :: "('p, 'h) argon2"
  ext_hmac :: "bytes \<Rightarrow> bytes \<Rightarrow> bytes"
  ext_sha256 :: "bytes \<Rightarrow> bytes"
  ext_env :: env
  ext_to_value :: "repl_op \<Rightarrow> 'j result"

definition is_ascii_alphanumeric :: "char \<Rightarrow> bool" where
  "is_ascii_alphanumeric c \<longleftrightarrow>
     (let n = of_char c :: nat in
      (48 \<le> n \<and> n \<le> 57) \<or> (65 \<le> n \<and> n \<le> 90) \<or> (97 \<le> n \<and> n \<le> 122))"

definition is_ascii_graphic :: "char \<Rightarrow> bool" where
  "is_ascii_graphic c \<longleftrightarrow> (let n = of_char c :: nat in 33 \<le> n \<and> n \<le> 126)"

definition valid_segment :: "string \<Rightarrow> bool" where
  "valid_segment s \<longleftrightarrow>
     s \<noteq> [] \<and> length s \<le> 64
     \<and> list_all (\<lambda>c. is_ascii_alphanumeric c \<or> c = CHR ''_'' \<or> c = CHR ''-'') s"

definition valid_username :: "string \<Rightarrow> bool" where
  "valid_username s \<longleftrightarrow> s \<noteq> [] \<and> length s \<le> 128 \<and> list_all is_ascii_graphic s"

text \<open>
  \<open>fanout\<close>: one request to every peer, with the current token. The outcome of a request is only
  logged, so the requests are the effect.
\<close>

definition fanout :: "('p, 'h, 'j) externals \<Rightarrow> 's app_state \<Rightarrow> repl_op \<Rightarrow> 'j http_post list" where
  "fanout E st op =
     (if st_peers st = [] then []
      else (case ext_to_value E op of
              Inl e \<Rightarrow> []
            | Inr body \<Rightarrow>
                map (\<lambda>base. \<lparr>post_url = base @ ''/internal/replicate'',
                             post_token = current_token st, post_body = body\<rparr>) (st_peers st)))"

text \<open>
  \<open>create_user\<close>. \<open>salt\<close> is the random salt, \<open>joined\<close> says whether the blocking task that
  hashes was joined (it is not when it panics or the runtime shuts down).
\<close>

definition create_user ::
    "'s user_store \<Rightarrow> ('p, 'h, 'j) externals \<Rightarrow> bytes \<Rightarrow> bool \<Rightarrow> create_user_req
     \<Rightarrow> 's app_state \<Rightarrow> 's app_state \<times> response \<times> 'j http_post list" where
  "create_user U E salt joined req st =
     (if \<not> valid_username (cu_username req) then
        (st, bad_request ''username must be 1-128 printable ascii chars without spaces'', [])
      else if \<not> valid_segment (cu_userid req) then
        (st, bad_request ''userid must be 1-64 chars of [A-Za-z0-9_-]'', [])
      else if cu_password req = [] \<or> length (cu_password req) > 512 then
        (st, bad_request ''password must be 1-512 bytes'', [])
      else
        let password = cu_password req;
            verifier = map_option (\<lambda>p. compute_verifier (ext_hmac E) p (cu_username req) password)
                         (st_pepper st)
        in if \<not> joined then (st, internal_error JoinError, [])
           else case hash_password (ext_argon2 E) (ext_env E) salt password of
             Inl e \<Rightarrow> (st, internal_error e, [])
           | Inr hash \<Rightarrow>
               let user = \<lparr>nu_username = cu_username req, nu_userid = cu_userid req,
                           nu_password_hash = hash, nu_superuser = cu_superuser req,
                           nu_admin = cu_admin req\<rparr>
               in case us_insert_user U user (st_db st) of
                    (db1, Inr True) \<Rightarrow>
                      let db2 = (case verifier of
                                   Some v \<Rightarrow> fst (us_set_verifier U (cu_username req) v db1)
                                 | None \<Rightarrow> db1);
                          st2 = st\<lparr>st_db := db2\<rparr>;
                          rec = \<lparr>ur_username = cu_username req, ur_userid = cu_userid req,
                                 ur_password_hash = hash, ur_superuser = cu_superuser req,
                                 ur_admin = cu_admin req\<rparr>
                      in (st2,
                          \<lparr>rsp_status = 201,
                           rsp_body = Some (JObj [(''username'', JStr (cu_username req)),
                                                  (''userid'', JStr (cu_userid req))])\<rparr>,
                          fanout E st2 (Upsert rec))
                  | (db1, Inr False) \<Rightarrow>
                      (st\<lparr>st_db := db1\<rparr>,
                       \<lparr>rsp_status = 409,
                        rsp_body = Some (JObj [(''error'', JStr ''user already exists'')])\<rparr>, [])
                  | (db1, Inl e) \<Rightarrow> (st\<lparr>st_db := db1\<rparr>, internal_error e, []))"

definition delete_user ::
    "'s user_store \<Rightarrow> ('p, 'h, 'j) externals \<Rightarrow> string
     \<Rightarrow> 's app_state \<Rightarrow> 's app_state \<times> response \<times> 'j http_post list" where
  "delete_user U E uname st =
     (case us_delete_user U uname (st_db st) of
        (db1, Inr True) \<Rightarrow>
          let st2 = st\<lparr>st_db := db1,
                       st_auth_cache := auth_cache_purge_user uname (st_auth_cache st),
                       st_users := user_cache_purge uname (st_users st)\<rparr>
          in (st2, no_content, fanout E st2 (Delete uname))
      | (db1, Inr False) \<Rightarrow>
          (st\<lparr>st_db := db1\<rparr>,
           \<lparr>rsp_status = 404, rsp_body = Some (JObj [(''error'', JStr ''user not found'')])\<rparr>, [])
      | (db1, Inl e) \<Rightarrow> (st\<lparr>st_db := db1\<rparr>, internal_error e, []))"

definition public_user :: "user_record \<Rightarrow> json" where
  "public_user u =
     JObj [(''username'', JStr (ur_username u)), (''userid'', JStr (ur_userid u)),
           (''superuser'', JBool (ur_superuser u)), (''admin'', JBool (ur_admin u))]"

definition list_users :: "'s user_store \<Rightarrow> 's app_state \<Rightarrow> response" where
  "list_users U st =
     (case us_list_users U (st_db st) of
        Inr users \<Rightarrow>
          \<lparr>rsp_status = 200, rsp_body = Some (JObj [(''users'', JArr (map public_user users))])\<rparr>
      | Inl e \<Rightarrow> internal_error e)"

definition new_user_of :: "user_record \<Rightarrow> new_user" where
  "new_user_of u = \<lparr>nu_username = ur_username u, nu_userid = ur_userid u,
     nu_password_hash = ur_password_hash u, nu_superuser = ur_superuser u, nu_admin = ur_admin u\<rparr>"

definition replicate_op ::
    "'s user_store \<Rightarrow> repl_op \<Rightarrow> 's app_state \<Rightarrow> 's app_state \<times> response" where
  "replicate_op U op st =
     (let (db1, res, uname) =
        (case op of
           Upsert u \<Rightarrow>
             (case us_upsert_user U (new_user_of u) (st_db st) of
                (db1, Inl e) \<Rightarrow> (db1, Inl e, ur_username u)
              | (db1, Inr _) \<Rightarrow> (db1, Inr (), ur_username u))
         | Delete n \<Rightarrow>
             (case us_delete_user U n (st_db st) of
                (db1, Inl e) \<Rightarrow> (db1, Inl e, n)
              | (db1, Inr _) \<Rightarrow> (db1, Inr (), n)))
      in case res of
           Inl e \<Rightarrow> (st\<lparr>st_db := db1\<rparr>, internal_error e)
         | Inr _ \<Rightarrow>
             (st\<lparr>st_db := db1,
                 st_auth_cache := auth_cache_purge_user uname (st_auth_cache st),
                 st_users := user_cache_purge uname (st_users st)\<rparr>, no_content))"

text \<open>\<open>user_json\<close> is the JSON of a whole record, derived by \<open>serde\<close>.\<close>

definition users_full :: "'s user_store \<Rightarrow> (user_record \<Rightarrow> json) \<Rightarrow> 's app_state \<Rightarrow> response" where
  "users_full U user_json st =
     (case us_list_users U (st_db st) of
        Inr users \<Rightarrow> \<lparr>rsp_status = 200, rsp_body = Some (JArr (map user_json users))\<rparr>
      | Inl e \<Rightarrow> internal_error e)"

text \<open>
  \<open>catch_up\<close>. \<open>http round url token\<close> is the outcome of the request in that round, \<open>users_json\<close>
  decodes the snapshot. The result says whether a snapshot was obtained.
\<close>

fun catch_up_peers ::
    "'s user_store \<Rightarrow> (string \<Rightarrow> string \<Rightarrow> http_response result)
     \<Rightarrow> (string \<Rightarrow> user_record list result) \<Rightarrow> string list \<Rightarrow> 's app_state \<Rightarrow> 's app_state \<times> bool" where
  "catch_up_peers U http users_json [] st = (st, False)"
| "catch_up_peers U http users_json (base # bases) st =
     (case http (base @ ''/internal/users-full'') (current_token st) of
        Inr resp \<Rightarrow>
          if is_success resp then
            (case users_json (hr_body resp) of
               Inr users \<Rightarrow>
                 (st\<lparr>st_db := fst (us_upsert_many U (map new_user_of users) (st_db st))\<rparr>, True)
             | Inl e \<Rightarrow> catch_up_peers U http users_json bases st)
          else catch_up_peers U http users_json bases st
      | Inl e \<Rightarrow> catch_up_peers U http users_json bases st)"

fun catch_up_rounds ::
    "'s user_store \<Rightarrow> (nat \<Rightarrow> string \<Rightarrow> string \<Rightarrow> http_response result)
     \<Rightarrow> (string \<Rightarrow> user_record list result) \<Rightarrow> nat \<Rightarrow> nat \<Rightarrow> 's app_state \<Rightarrow> 's app_state \<times> bool" where
  "catch_up_rounds U http users_json i 0 st = (st, False)"
| "catch_up_rounds U http users_json i (Suc n) st =
     (case catch_up_peers U (http i) users_json (st_peers st) st of
        (st', True) \<Rightarrow> (st', True)
      | (st', False) \<Rightarrow> catch_up_rounds U http users_json (Suc i) n st')"

definition catch_up ::
    "'s user_store \<Rightarrow> (nat \<Rightarrow> string \<Rightarrow> string \<Rightarrow> http_response result)
     \<Rightarrow> (string \<Rightarrow> user_record list result) \<Rightarrow> 's app_state \<Rightarrow> 's app_state \<times> bool" where
  "catch_up U http users_json st =
     (if st_peers st = [] then (st, False) else catch_up_rounds U http users_json 0 30 st)"

text \<open>\<open>cluster_status\<close>: \<open>health\<close> is the outcome of the health check once the broker is up.\<close>

definition cluster_status :: "(json + string) option \<Rightarrow> 's app_state \<Rightarrow> response" where
  "cluster_status health st =
     (let cfg = st_cluster st in
      \<lparr>rsp_status = 200,
       rsp_body = Some (JObj
         ([(''node_id'', JNum (uint (cluster_node_id cfg))),
           (''enabled'', JBool (cluster_enabled cfg)),
           (''leader_id'', JNum (uint (leader_id cfg))),
           (''node_grpc_addrs'', JArr (map JStr (node_grpc_addrs cfg))),
           (''raft_peer_addrs'', JArr (map JStr (raft_peer_addrs cfg)))]
          @ (case health of
               Some (Inl h) \<Rightarrow> [(''health'', h)]
             | Some (Inr e) \<Rightarrow> [(''health_error'', JStr e)]
             | None \<Rightarrow> [(''health'', JStr ''broker initializing'')])))\<rparr>)"

text \<open>
  \<open>management_router\<close>: every route but the health check goes through \<open>require_token\<close>. A request
  arrives here with its path, method and JSON body already decoded by \<open>axum\<close>. \<open>api_call\<close> holds
  what one call reads from outside.
\<close>

datatype api_request =
    RqListUsers
  | RqCreateUser create_user_req
  | RqDeleteUser string
  | RqReplicate repl_op
  | RqUsersFull
  | RqCluster
  | RqHealth

record api_call =
  call_now :: instant
  call_salt :: bytes
  call_joined :: bool
  call_vault :: "vault_client \<Rightarrow> string \<Rightarrow> string option result"
  call_user_json :: "user_record \<Rightarrow> json"
  call_health :: "(json + string) option"

definition route ::
    "'s user_store \<Rightarrow> ('p, 'h, 'j) externals \<Rightarrow> api_call \<Rightarrow> api_request
     \<Rightarrow> 's app_state \<Rightarrow> 's app_state \<times> response \<times> 'j http_post list" where
  "route U E c rq st =
     (case rq of
        RqListUsers \<Rightarrow> (st, list_users U st, [])
      | RqCreateUser req \<Rightarrow> create_user U E (call_salt c) (call_joined c) req st
      | RqDeleteUser n \<Rightarrow> delete_user U E n st
      | RqReplicate op \<Rightarrow> (let (st', rsp) = replicate_op U op st in (st', rsp, []))
      | RqUsersFull \<Rightarrow> (st, users_full U (call_user_json c) st, [])
      | RqCluster \<Rightarrow> (st, cluster_status (call_health c) st, [])
      | RqHealth \<Rightarrow> (st, \<lparr>rsp_status = 200, rsp_body = Some (JStr ''ok'')\<rparr>, []))"

definition management_router ::
    "'s user_store \<Rightarrow> ('p, 'h, 'j) externals \<Rightarrow> api_call \<Rightarrow> string option \<Rightarrow> api_request
     \<Rightarrow> 's app_state \<Rightarrow> 's app_state \<times> response \<times> 'j http_post list" where
  "management_router U E c header rq st =
     (if rq = RqHealth then route U E c rq st
      else require_token (call_vault c) (call_now c) header (route U E c rq) st)"

section \<open>Validation\<close>

lemma valid_segment_chars:
  assumes "valid_segment s" and "c \<in> set s"
  shows "c \<noteq> CHR ''/'' \<and> c \<noteq> CHR ''+'' \<and> c \<noteq> CHR ''#'' \<and> c \<noteq> CHR ''$''"
  using assms by (auto simp: valid_segment_def is_ascii_alphanumeric_def list_all_iff)

lemma valid_username_chars:
  assumes "valid_username s" and "c \<in> set s"
  shows "c \<noteq> CHR 0x00 \<and> c \<noteq> CHR '' ''"
  using assms by (auto simp: valid_username_def is_ascii_graphic_def list_all_iff)

section \<open>The handlers\<close>

lemma record_of_new_user_of [simp]: "record_of (new_user_of u) = u"
  by (simp add: record_of_def new_user_of_def)

lemma nu_username_new_user_of [simp]: "nu_username (new_user_of u) = ur_username u"
  by (simp add: new_user_of_def)

lemma error_status [simp]:
  "rsp_status (bad_request m) = 400" "rsp_status (internal_error e) = 500"
  "rsp_status unauthorized = 401" "rsp_status no_content = 204"
  by (simp_all add: bad_request_def internal_error_def unauthorized_def no_content_def)

definition created_record :: "create_user_req \<Rightarrow> string \<Rightarrow> user_record" where
  "created_record req hash =
     \<lparr>ur_username = cu_username req, ur_userid = cu_userid req, ur_password_hash = hash,
      ur_superuser = cu_superuser req, ur_admin = cu_admin req\<rparr>"

lemma fanout_body: "post \<in> set (fanout E st op) \<Longrightarrow> ext_to_value E op = Inr (post_body post)"
  by (auto simp: fanout_def split: if_splits sum.splits)

lemma fanout_reaches_peers:
  assumes "ext_to_value E op = Inr body"
  shows "map post_url (fanout E st op) = map (\<lambda>base. base @ ''/internal/replicate'') (st_peers st)"
  using assms by (simp add: fanout_def)

lemma create_user_cases:
  assumes "create_user U E salt joined req st = (st', rsp, out)"
  obtains (invalid) "st' = st" "out = []" "rsp_status rsp = 400"
  | (hash_failed) "st' = st" "out = []" "rsp_status rsp = 500"
  | (db_failed) hash db1 e where
      "us_insert_user U \<lparr>nu_username = cu_username req, nu_userid = cu_userid req,
         nu_password_hash = hash, nu_superuser = cu_superuser req, nu_admin = cu_admin req\<rparr> (st_db st)
       = (db1, Inl e)" "st' = st\<lparr>st_db := db1\<rparr>" "out = []" "rsp_status rsp = 500"
  | (conflict) hash db1 where
      "us_insert_user U \<lparr>nu_username = cu_username req, nu_userid = cu_userid req,
         nu_password_hash = hash, nu_superuser = cu_superuser req, nu_admin = cu_admin req\<rparr> (st_db st)
       = (db1, Inr False)" "st' = st\<lparr>st_db := db1\<rparr>" "out = []" "rsp_status rsp = 409"
  | (created) hash db1 where
      "valid_username (cu_username req)" "valid_segment (cu_userid req)"
      "hash_password (ext_argon2 E) (ext_env E) salt (cu_password req) = Inr hash"
      "us_insert_user U \<lparr>nu_username = cu_username req, nu_userid = cu_userid req,
         nu_password_hash = hash, nu_superuser = cu_superuser req, nu_admin = cu_admin req\<rparr> (st_db st)
       = (db1, Inr True)"
      "st' = st\<lparr>st_db := (case st_pepper st of
           Some p \<Rightarrow> fst (us_set_verifier U (cu_username req)
                (compute_verifier (ext_hmac E) p (cu_username req) (cu_password req)) db1)
         | None \<Rightarrow> db1)\<rparr>"
      "out = fanout E st' (Upsert (created_record req hash))" "rsp_status rsp = 201"
proof (cases "valid_username (cu_username req) \<and> valid_segment (cu_userid req)
    \<and> cu_password req \<noteq> [] \<and> length (cu_password req) \<le> 512")
  case False
  then have "st' = st \<and> out = [] \<and> rsp_status rsp = 400"
    using assms unfolding create_user_def
    by (cases "valid_username (cu_username req)"; cases "valid_segment (cu_userid req)";
        cases "cu_password req = [] \<or> length (cu_password req) > 512") auto
  then show ?thesis using invalid by simp
next
  case valid: True
  show ?thesis
  proof (cases "joined \<and> (\<exists>h. hash_password (ext_argon2 E) (ext_env E) salt (cu_password req) = Inr h)")
    case False
    then have "st' = st \<and> out = [] \<and> rsp_status rsp = 500"
      using assms valid
      by (cases "hash_password (ext_argon2 E) (ext_env E) salt (cu_password req)"; cases joined)
         (auto simp: create_user_def Let_def)
    then show ?thesis using hash_failed by simp
  next
    case True
    then obtain hash where j: "joined"
      and h: "hash_password (ext_argon2 E) (ext_env E) salt (cu_password req) = Inr hash" by blast
    obtain db1 res where ins: "us_insert_user U \<lparr>nu_username = cu_username req,
         nu_userid = cu_userid req, nu_password_hash = hash, nu_superuser = cu_superuser req,
         nu_admin = cu_admin req\<rparr> (st_db st) = (db1, res)" by fastforce
    consider e where "res = Inl e" | "res = Inr False" | "res = Inr True" by (cases res) auto
    then show ?thesis
    proof cases
      case 1
      then show ?thesis using assms valid j h ins db_failed by (auto simp: create_user_def)
    next
      case 2
      then show ?thesis using assms valid j h ins conflict by (auto simp: create_user_def)
    next
      case 3
      then show ?thesis
        using assms valid j h ins created
        by (cases "st_pepper st") (auto simp: create_user_def Let_def created_record_def)
    qed
  qed
qed

lemma delete_user_cases:
  assumes "delete_user U E n st = (st', rsp, out)"
  obtains (deleted) db1 where "us_delete_user U n (st_db st) = (db1, Inr True)"
      "st' = st\<lparr>st_db := db1, st_auth_cache := auth_cache_purge_user n (st_auth_cache st),
               st_users := user_cache_purge n (st_users st)\<rparr>"
      "rsp = no_content" "out = fanout E st' (Delete n)"
  | (missing) db1 where "us_delete_user U n (st_db st) = (db1, Inr False)"
      "st' = st\<lparr>st_db := db1\<rparr>" "rsp_status rsp = 404" "out = []"
  | (failed) db1 e where "us_delete_user U n (st_db st) = (db1, Inl e)"
      "st' = st\<lparr>st_db := db1\<rparr>" "rsp_status rsp = 500" "out = []"
proof -
  obtain db1 res where del: "us_delete_user U n (st_db st) = (db1, res)" by fastforce
  consider e where "res = Inl e" | "res = Inr False" | "res = Inr True" by (cases res) auto
  then show ?thesis
  proof cases
    case 1
    then show ?thesis using assms del failed by (auto simp: delete_user_def)
  next
    case 2
    then show ?thesis using assms del missing by (auto simp: delete_user_def)
  next
    case 3
    then show ?thesis using assms del deleted by (auto simp: delete_user_def Let_def)
  qed
qed

lemma replicate_op_cases:
  assumes "replicate_op U op st = (st', rsp)"
  obtains (upserted) u db1 where "op = Upsert u"
      "us_upsert_user U (new_user_of u) (st_db st) = (db1, Inr ())"
      "st' = st\<lparr>st_db := db1, st_auth_cache := auth_cache_purge_user (ur_username u) (st_auth_cache st),
               st_users := user_cache_purge (ur_username u) (st_users st)\<rparr>" "rsp = no_content"
  | (upsert_failed) u db1 e where "op = Upsert u"
      "us_upsert_user U (new_user_of u) (st_db st) = (db1, Inl e)"
      "st' = st\<lparr>st_db := db1\<rparr>" "rsp_status rsp = 500"
  | (deleted) n b db1 where "op = Delete n" "us_delete_user U n (st_db st) = (db1, Inr b)"
      "st' = st\<lparr>st_db := db1, st_auth_cache := auth_cache_purge_user n (st_auth_cache st),
               st_users := user_cache_purge n (st_users st)\<rparr>" "rsp = no_content"
  | (delete_failed) n db1 e where "op = Delete n" "us_delete_user U n (st_db st) = (db1, Inl e)"
      "st' = st\<lparr>st_db := db1\<rparr>" "rsp_status rsp = 500"
proof (cases op)
  case (Upsert u)
  obtain db1 res where r: "us_upsert_user U (new_user_of u) (st_db st) = (db1, res)" by fastforce
  show ?thesis
  proof (cases res)
    case (Inl e)
    then show ?thesis using assms Upsert r upsert_failed by (auto simp: replicate_op_def)
  next
    case (Inr v)
    then show ?thesis using assms Upsert r upserted by (auto simp: replicate_op_def)
  qed
next
  case (Delete n)
  obtain db1 res where r: "us_delete_user U n (st_db st) = (db1, res)" by fastforce
  show ?thesis
  proof (cases res)
    case (Inl e)
    then show ?thesis using assms Delete r delete_failed by (auto simp: replicate_op_def)
  next
    case (Inr b)
    then show ?thesis using assms Delete r deleted by (auto simp: replicate_op_def)
  qed
qed

context user_store_contract
begin

text \<open>What a successful creation does, and that a rejected one does nothing.\<close>

lemma create_user_created:
  assumes I: "inv (st_db st)" and C: "create_user U E salt joined req st = (st', rsp, out)"
    and S: "rsp_status rsp = 201"
  shows "\<exists>hash. hash_password (ext_argon2 E) (ext_env E) salt (cu_password req) = Inr hash
     \<and> users (st_db st) (cu_username req) = None
     \<and> users (st_db st') = (users (st_db st))(cu_username req \<mapsto> created_record req hash)
     \<and> out = fanout E st' (Upsert (created_record req hash))
     \<and> valid_username (cu_username req) \<and> valid_segment (cu_userid req)"
  using C
proof (cases rule: create_user_cases)
  case (created hash db1)
  let ?u = "\<lparr>nu_username = cu_username req, nu_userid = cu_userid req,
         nu_password_hash = hash, nu_superuser = cu_superuser req, nu_admin = cu_admin req\<rparr>"
  have r: "record_of ?u = created_record req hash"
    by (simp add: record_of_def created_record_def)
  have u1: "users db1 = (users (st_db st))(cu_username req \<mapsto> created_record req hash)"
    "users (st_db st) (cu_username req) = None"
    using insert_ok [OF I created(4)] r by simp_all
  have I1: "inv db1" using inv_insert [OF I, of ?u] created(4) by simp
  have "users (st_db st') = users db1"
  proof (cases "st_pepper st")
    case (Some p)
    let ?v = "compute_verifier (ext_hmac E) p (cu_username req) (cu_password req)"
    obtain db2 res where sv: "us_set_verifier U (cu_username req) ?v db1 = (db2, res)" by fastforce
    then have "users db2 = users db1"
      using set_verifier_ok [OF I1] set_verifier_err [OF I1] by (cases res) auto
    then show ?thesis using created(5) Some sv by simp
  qed (simp add: created(5))
  with u1 created show ?thesis by auto
qed (use S in simp_all)

lemma create_user_rejected:
  assumes I: "inv (st_db st)" and C: "create_user U E salt joined req st = (st', rsp, out)"
    and S: "rsp_status rsp \<noteq> 201"
  shows "users (st_db st') = users (st_db st) \<and> verifs (st_db st') = verifs (st_db st) \<and> out = []"
  using C
proof (cases rule: create_user_cases)
  case (db_failed hash db1 e)
  then show ?thesis using insert_err [OF I] by auto
next
  case (conflict hash db1)
  then show ?thesis using insert_ok [OF I conflict(1)] by simp
qed (use S in simp_all)

lemma create_user_inv:
  assumes I: "inv (st_db st)" and C: "create_user U E salt joined req st = (st', rsp, out)"
  shows "inv (st_db st')"
  using C
proof (cases rule: create_user_cases)
  case (db_failed hash db1 e)
  then show ?thesis using inv_insert [OF I] by (metis app_state.select_convs(1) app_state.surjective app_state.update_convs(1) fst_conv)
next
  case (conflict hash db1)
  then show ?thesis using inv_insert [OF I] by (metis app_state.select_convs(1) app_state.surjective app_state.update_convs(1) fst_conv)
next
  case (created hash db1)
  have "inv db1" using inv_insert [OF I] created(4) by (metis fst_conv)
  then show ?thesis using created(5) inv_set_verifier by (auto split: option.splits)
qed (use I in simp_all)

lemma delete_user_deleted:
  assumes I: "inv (st_db st)" and D: "delete_user U E n st = (st', rsp, out)"
    and S: "rsp_status rsp = 204"
  shows "users (st_db st) n \<noteq> None \<and> users (st_db st') = (users (st_db st))(n := None)
     \<and> verifs (st_db st') = (verifs (st_db st))(n := None)
     \<and> (\<forall>now k. auth_cache_get k now (st_auth_cache st') = None)
     \<and> (\<forall>now. user_cache_get n now (st_users st') = None)
     \<and> out = fanout E st' (Delete n)"
  using D
proof (cases rule: delete_user_cases)
  case (deleted db1)
  then show ?thesis
    using delete_ok [OF I deleted(1)] by (simp add: authc.get_purge userc.get_purge)
qed (use S in simp_all)

lemma delete_user_rejected:
  assumes I: "inv (st_db st)" and D: "delete_user U E n st = (st', rsp, out)"
    and S: "rsp_status rsp \<noteq> 204"
  shows "users (st_db st') = users (st_db st) \<and> out = []
     \<and> (rsp_status rsp = 404 \<longrightarrow> users (st_db st) n = None)"
  using D
proof (cases rule: delete_user_cases)
  case (missing db1)
  then show ?thesis using delete_ok [OF I missing(1)] by auto
next
  case (failed db1 e)
  then show ?thesis using delete_err [OF I failed(1)] by simp
qed (use S in simp_all)

lemma delete_user_inv:
  assumes I: "inv (st_db st)" and D: "delete_user U E n st = (st', rsp, out)"
  shows "inv (st_db st')"
  using D inv_delete [OF I, of n] by (cases rule: delete_user_cases) simp_all

lemma replicate_op_effect:
  assumes I: "inv (st_db st)" and R: "replicate_op U op st = (st', rsp)"
    and S: "rsp_status rsp = 204"
  shows "users (st_db st') = (case op of
       Upsert u \<Rightarrow> (users (st_db st))(ur_username u \<mapsto> u)
     | Delete n \<Rightarrow> (users (st_db st))(n := None))"
  using R
proof (cases rule: replicate_op_cases)
  case (upserted u db1)
  then show ?thesis using upsert_ok [OF I upserted(2)] by simp
next
  case (deleted n b db1)
  then show ?thesis using delete_ok [OF I deleted(2)] by simp
qed (use S in simp_all)

lemma replicate_op_inv:
  assumes I: "inv (st_db st)" and R: "replicate_op U op st = (st', rsp)"
  shows "inv (st_db st')"
  using R
proof (cases rule: replicate_op_cases)
  case (upserted u db1)
  then show ?thesis using inv_upsert [OF I, of "new_user_of u"] by simp
next
  case (upsert_failed u db1 e)
  then show ?thesis using inv_upsert [OF I, of "new_user_of u"] by simp
next
  case (deleted n b db1)
  then show ?thesis using inv_delete [OF I, of n] by simp
next
  case (delete_failed n db1 e)
  then show ?thesis using inv_delete [OF I, of n] by simp
qed

text \<open>
  Replication makes the peer agree with the node that took the request, on the user concerned.
\<close>

lemma create_replicates:
  assumes I: "inv (st_db a)" "inv (st_db b)"
    and C: "create_user U E salt joined req a = (a', rsp, out)" "rsp_status rsp = 201"
    and V: "\<And>op. ext_to_value E op = Inr (enc op)" "\<And>op. decode (enc op) = op"
    and P: "post \<in> set out"
    and R: "replicate_op U (decode (post_body post)) b = (b', rsp')" "rsp_status rsp' = 204"
  shows "users (st_db b') (cu_username req) = users (st_db a') (cu_username req)"
proof -
  obtain hash where "users (st_db a') = (users (st_db a))(cu_username req \<mapsto> created_record req hash)"
    and "out = fanout E a' (Upsert (created_record req hash))"
    using create_user_created [OF I(1) C] by blast
  moreover from this have "decode (post_body post) = Upsert (created_record req hash)"
    using P V fanout_body by (metis Inr_inject)
  ultimately show ?thesis
    using replicate_op_effect [OF I(2) R] by (simp add: created_record_def)
qed

lemma delete_replicates:
  assumes I: "inv (st_db a)" "inv (st_db b)"
    and C: "delete_user U E n a = (a', rsp, out)" "rsp_status rsp = 204"
    and V: "\<And>op. ext_to_value E op = Inr (enc op)" "\<And>op. decode (enc op) = op"
    and P: "post \<in> set out"
    and R: "replicate_op U (decode (post_body post)) b = (b', rsp')" "rsp_status rsp' = 204"
  shows "users (st_db b') n = None \<and> users (st_db a') n = None"
proof -
  have "users (st_db a') n = None" and "out = fanout E a' (Delete n)"
    using delete_user_deleted [OF I(1) C] by simp_all
  moreover from this have "decode (post_body post) = Delete n"
    using P V fanout_body by (metis Inr_inject)
  ultimately show ?thesis using replicate_op_effect [OF I(2) R] by simp
qed

end

end
