(* ===== verification/Topic_Match.thy ===== *)
theory Topic_Match
  imports Rust_Str
begin

text \<open>
  The broker's own topic matcher, \<open>src/topic.rs\<close>: \<open>topic_matches\<close> walks the segments of the
  filter and of the topic in step, and \<open>has_wildcard\<close> is the test the message store uses to
  choose between a scan of the topic index and a direct lookup. The lemmas give the matcher
  a declarative reading and show that the direct lookup is the scan's special case.
\<close>

section \<open>Model\<close>

text \<open>
  The loop of \<open>topic_matches\<close>: both iterators advance together; a filter segment that is
  \<^verbatim>\<open>#\<close> accepts whatever is left of the topic, also nothing.
\<close>

fun match_segments :: "string list \<Rightarrow> string list \<Rightarrow> bool" where
  "match_segments [] [] = True"
| "match_segments [] (t # ts) = False"
| "match_segments (f # fs) [] = (f = ''#'')"
| "match_segments (f # fs) (t # ts) =
     (if f = ''#'' then True
      else if f = ''+'' then match_segments fs ts
      else if f = t then match_segments fs ts
      else False)"

definition topic_matches :: "string \<Rightarrow> string \<Rightarrow> bool" where
  "topic_matches topic filt =
     match_segments (split_on (CHR ''/'') filt) (split_on (CHR ''/'') topic)"

definition has_wildcard :: "string \<Rightarrow> bool" where
  "has_wildcard filt = list_ex (\<lambda>b. b = CHR ''+'' \<or> b = CHR ''#'') filt"

section \<open>Specification\<close>

text \<open>One filter segment accepts one topic segment.\<close>

definition seg_ok :: "string \<Rightarrow> string \<Rightarrow> bool" where
  "seg_ok f t \<longleftrightarrow> f = ''+'' \<or> f = t"

text \<open>
  The declarative reading: the segments before the first multi-level wildcard match one to
  one, and without such a wildcard the lengths agree.
\<close>

definition match_spec :: "string list \<Rightarrow> string list \<Rightarrow> bool" where
  "match_spec fs ts \<longleftrightarrow>
     (let pre = takeWhile (\<lambda>f. f \<noteq> ''#'') fs in
      if pre = fs then list_all2 seg_ok fs ts
      else length pre \<le> length ts \<and> list_all2 seg_ok pre (take (length pre) ts))"

lemma match_segments_spec: "match_segments fs ts \<longleftrightarrow> match_spec fs ts"
  by (induction fs ts rule: match_segments.induct)
     (auto simp: match_spec_def seg_ok_def Let_def)

lemma match_segments_no_wildcard:
  "\<forall>f \<in> set fs. f \<noteq> ''#'' \<and> f \<noteq> ''+'' \<Longrightarrow> match_segments fs ts \<longleftrightarrow> fs = ts"
  by (induction fs ts rule: match_segments.induct) auto

lemma match_segments_refl: "match_segments fs fs"
  by (induction fs) auto

lemma match_segments_hash: "match_segments [''#''] ts"
  by (cases ts) auto

lemma match_segments_Nil: "match_segments [] us \<longleftrightarrow> us = []"
  by (cases us) auto

lemma match_segments_Cons:
  "f \<noteq> ''#'' \<Longrightarrow>
   match_segments (f # fs) us \<longleftrightarrow> (\<exists>u us'. us = u # us' \<and> seg_ok f u \<and> match_segments fs us')"
  by (cases us) (auto simp: seg_ok_def)

lemma match_segments_append_hash:
  "''#'' \<notin> set fs \<Longrightarrow>
   match_segments (fs @ [''#'']) ts \<longleftrightarrow> (\<exists>us vs. ts = us @ vs \<and> match_segments fs us)"
proof (induction fs arbitrary: ts)
  case Nil
  then show ?case by (simp add: match_segments_hash match_segments_Nil)
next
  case (Cons f fs)
  have "match_segments ((f # fs) @ [''#'']) ts \<longleftrightarrow>
      (\<exists>u us'. ts = u # us' \<and> seg_ok f u \<and> match_segments (fs @ [''#'']) us')"
    using Cons.prems match_segments_Cons [of f "fs @ [''#'']" ts] by simp metis
  also have "\<dots> \<longleftrightarrow> (\<exists>u us vs. ts = u # us @ vs \<and> seg_ok f u \<and> match_segments fs us)"
    using Cons by force
  also have "\<dots> \<longleftrightarrow> (\<exists>us vs. ts = us @ vs \<and> match_segments (f # fs) us)"
    using Cons.prems match_segments_Cons [of f fs] by simp (metis append_Cons)
  finally show ?case .
qed

lemma not_has_wildcard_segments:
  assumes "\<not> has_wildcard filt" and "f \<in> set (split_on (CHR ''/'') filt)"
  shows "f \<noteq> ''#'' \<and> f \<noteq> ''+''"
proof -
  have "set f \<subseteq> set filt"
    using assms(2) by (rule set_split_on_subset)
  moreover have "CHR ''+'' \<notin> set filt" and "CHR ''#'' \<notin> set filt"
    using assms(1) by (auto simp: has_wildcard_def list_ex_iff)
  ultimately have "CHR ''+'' \<notin> set f" and "CHR ''#'' \<notin> set f"
    by blast+
  then show ?thesis by (metis list.set_intros(1))
qed

lemma topic_matches_refl: "topic_matches t t"
  by (simp add: topic_matches_def match_segments_refl)

lemma topic_matches_exact:
  assumes "\<not> has_wildcard filt"
  shows "topic_matches topic filt \<longleftrightarrow> topic = filt"
proof -
  have "topic_matches topic filt \<longleftrightarrow> split_on (CHR ''/'') filt = split_on (CHR ''/'') topic"
    unfolding topic_matches_def
    by (rule match_segments_no_wildcard) (use not_has_wildcard_segments [OF assms] in blast)
  then show ?thesis
    by (auto simp: split_on_inj)
qed

end
