(* ===== verification/Rmqtt_Topic.thy ===== *)
theory Rmqtt_Topic
  imports Topic_Match
begin

text \<open>
  The topic type of the embedded broker, \<open>vendor/rmqtt/src/topic.rs\<close>: levels, parsing,
  validity, printing and the wildcard match that the ACL rules use. The macro \<open>matches!\<close> is
  one function over the level test \<open>MatchLevel\<close>, which has an instance for levels and one
  for string segments. The lemmas relate the match to the MQTT reading of a filter and to
  \<open>src/topic.rs\<close>, and show where the two differ.
\<close>

section \<open>Model\<close>

datatype level =
    Normal string
  | Metadata string
  | Blank
  | SingleWildcard
  | MultiWildcard

type_synonym topic = "level list"

definition is_metadata :: "string \<Rightarrow> bool" where
  "is_metadata s = (case s of [] \<Rightarrow> False | c # _ \<Rightarrow> c = CHR ''$'')"

definition has_wild_char :: "string \<Rightarrow> bool" where
  "has_wild_char s \<longleftrightarrow> CHR ''+'' \<in> set s \<or> CHR ''#'' \<in> set s"

fun level_is_metadata :: "level \<Rightarrow> bool" where
  "level_is_metadata (Metadata _) = True"
| "level_is_metadata _ = False"

fun level_is_normal :: "level \<Rightarrow> bool" where
  "level_is_normal (Normal _) = True"
| "level_is_normal _ = False"

fun level_value :: "level \<Rightarrow> string option" where
  "level_value (Normal s) = Some s"
| "level_value (Metadata s) = Some s"
| "level_value _ = None"

definition level_normal :: "string \<Rightarrow> level result" where
  "level_normal s =
     (if has_wild_char s then Inl (InvalidLevel s)
      else if is_metadata s then Inl (InvalidLevel s)
      else Inr (Normal s))"

definition level_metadata :: "string \<Rightarrow> level result" where
  "level_metadata s =
     (if has_wild_char s then Inl (InvalidLevel s)
      else if \<not> is_metadata s then Inl (InvalidLevel s)
      else Inr (Metadata s))"

fun level_is_valid :: "level \<Rightarrow> bool" where
  "level_is_valid (Normal s) = (\<not> is_metadata s \<and> \<not> has_wild_char s)"
| "level_is_valid (Metadata s) = (is_metadata s \<and> \<not> has_wild_char s)"
| "level_is_valid _ = True"

definition level_from_str :: "string \<Rightarrow> level result" where
  "level_from_str s =
     (if s = ''+'' then Inr SingleWildcard
      else if s = ''#'' then Inr MultiWildcard
      else if s = [] then Inr Blank
      else if has_wild_char s then Inl (InvalidLevel s)
      else if is_metadata s then Inr (Metadata s)
      else Inr (Normal s))"

fun level_to_string :: "level \<Rightarrow> string" where
  "level_to_string (Normal s) = s"
| "level_to_string (Metadata s) = s"
| "level_to_string Blank = []"
| "level_to_string SingleWildcard = ''+''"
| "level_to_string MultiWildcard = ''#''"

text \<open>The second search of \<open>Topic::is_valid\<close>, over positions.\<close>

definition misplaced :: "nat \<Rightarrow> nat \<Rightarrow> level \<Rightarrow> bool" where
  "misplaced n pos l =
     (case l of MultiWildcard \<Rightarrow> pos \<noteq> n - 1 | Metadata _ \<Rightarrow> pos \<noteq> 0 | _ \<Rightarrow> False)"

definition topic_is_valid :: "topic \<Rightarrow> bool" where
  "topic_is_valid t \<longleftrightarrow>
     list_all level_is_valid t
     \<and> list_all (\<lambda>(pos, l). \<not> misplaced (length t) pos l) (enumerate 0 t)"

definition topic_from_str :: "string \<Rightarrow> topic result" where
  "topic_from_str s =
     rbind (collect_results level_from_str (split_on (CHR ''/'') s))
       (\<lambda>t. if topic_is_valid t then Inr t else Inl (InvalidTopic s))"

definition topic_to_string :: "topic \<Rightarrow> string" where
  "topic_to_string t = join ''/'' (map level_to_string t)"

definition topic_to_string_skip :: "topic \<Rightarrow> nat \<Rightarrow> string" where
  "topic_to_string_skip t skip = join ''/'' (map level_to_string (drop skip t))"

fun match_level :: "level \<Rightarrow> level \<Rightarrow> bool" where
  "match_level self (Normal lhs) = (case self of Normal rhs \<Rightarrow> lhs = rhs | _ \<Rightarrow> False)"
| "match_level self (Metadata lhs) = (case self of Metadata rhs \<Rightarrow> lhs = rhs | _ \<Rightarrow> False)"
| "match_level self Blank = True"
| "match_level self SingleWildcard = (\<not> level_is_metadata self)"
| "match_level self MultiWildcard = (\<not> level_is_metadata self)"

fun match_level_str :: "string \<Rightarrow> level \<Rightarrow> bool" where
  "match_level_str self (Normal lhs) = (\<not> is_metadata self \<and> lhs = self)"
| "match_level_str self (Metadata lhs) = (is_metadata self \<and> lhs = self)"
| "match_level_str self Blank = (self = [])"
| "match_level_str self SingleWildcard = (\<not> is_metadata self)"
| "match_level_str self MultiWildcard = (\<not> is_metadata self)"

text \<open>
  The macro \<open>matches!\<close>. The loop over the right side may be left by \<open>break\<close> (a single-level
  wildcard over a metadata segment), after which the code that follows the loop decides.
\<close>

fun matches_end :: "topic \<Rightarrow> bool" where
  "matches_end [] = True"
| "matches_end (l # ls) = (l = MultiWildcard)"

fun matches_macro :: "('r \<Rightarrow> level \<Rightarrow> bool) \<Rightarrow> topic \<Rightarrow> 'r list \<Rightarrow> bool" where
  "matches_macro ml lhs [] = matches_end lhs"
| "matches_macro ml [] (r # rs) = False"
| "matches_macro ml (SingleWildcard # ls) (r # rs) =
     (if \<not> ml r SingleWildcard then matches_end ls else matches_macro ml ls rs)"
| "matches_macro ml (MultiWildcard # ls) (r # rs) = ml r MultiWildcard"
| "matches_macro ml (l # ls) (r # rs) = (if ml r l then matches_macro ml ls rs else False)"

definition topic_matches_topic :: "topic \<Rightarrow> topic \<Rightarrow> bool" where
  "topic_matches_topic t u = matches_macro match_level t u"

definition matches_str :: "topic \<Rightarrow> string \<Rightarrow> bool" where
  "matches_str t s = matches_macro match_level_str t (split_on (CHR ''/'') s)"

section \<open>Parsing and printing\<close>

lemma is_metadata_Nil [simp]: "\<not> is_metadata []"
  by (simp add: is_metadata_def)

lemma level_from_str_string: "level_from_str s = Inr l \<Longrightarrow> level_to_string l = s"
  by (auto simp: level_from_str_def split: if_splits)

lemma level_from_str_valid: "level_from_str s = Inr l \<Longrightarrow> level_is_valid l"
  by (auto simp: level_from_str_def split: if_splits)

lemma level_from_str_to_string:
  "level_from_str s = Inr l \<Longrightarrow> level_from_str (level_to_string l) = Inr l"
  using level_from_str_string by auto

lemma list_all2_levels_map:
  "list_all2 (\<lambda>s l. level_from_str s = Inr l) ss ls \<Longrightarrow> map level_to_string ls = ss"
  by (induction rule: list_all2_induct) (auto dest: level_from_str_string)

lemma topic_from_str_Inr:
  "topic_from_str s = Inr t \<longleftrightarrow>
     list_all2 (\<lambda>s l. level_from_str s = Inr l) (split_on (CHR ''/'') s) t \<and> topic_is_valid t"
  by (auto simp: topic_from_str_def collect_results_Inr split: if_splits)

lemma topic_from_str_segments:
  "topic_from_str s = Inr t \<Longrightarrow> map level_to_string t = split_on (CHR ''/'') s"
  by (auto simp: topic_from_str_Inr list_all2_levels_map)

lemma topic_from_str_ne: "topic_from_str s = Inr t \<Longrightarrow> t \<noteq> []"
  using topic_from_str_segments [of s t] split_on_ne [of "CHR ''/''" s] by force

lemma topic_to_string_from_str: "topic_from_str s = Inr t \<Longrightarrow> topic_to_string t = s"
  by (simp add: topic_to_string_def topic_from_str_segments)

lemma topic_from_str_inj: "topic_from_str s = Inr t \<Longrightarrow> topic_from_str u = Inr t \<Longrightarrow> s = u"
  using topic_to_string_from_str by metis

lemma topic_to_string_skip_0: "topic_to_string_skip t 0 = topic_to_string t"
  by (simp add: topic_to_string_skip_def topic_to_string_def)

section \<open>Validity\<close>

lemma list_all_enumerate:
  "list_all P (enumerate 0 xs) \<longleftrightarrow> (\<forall>i < length xs. P (i, xs ! i))"
  by (auto simp: list_all_length nth_enumerate_eq)

lemma topic_is_valid_iff:
  "topic_is_valid t \<longleftrightarrow>
     (\<forall>l \<in> set t. level_is_valid l)
     \<and> (\<forall>i < length t. t ! i = MultiWildcard \<longrightarrow> i = length t - 1)
     \<and> (\<forall>i < length t. level_is_metadata (t ! i) \<longrightarrow> i = 0)"
proof -
  have "\<not> misplaced n i l \<longleftrightarrow>
      (l = MultiWildcard \<longrightarrow> i = n - 1) \<and> (level_is_metadata l \<longrightarrow> i = 0)" for n i l
    by (cases l) (auto simp: misplaced_def)
  then show ?thesis
    by (auto simp: topic_is_valid_def list_all_iff list_all_enumerate [unfolded list_all_iff])
qed

lemma multi_only_last: "topic_is_valid (l # ls) \<Longrightarrow> ls \<noteq> [] \<Longrightarrow> l \<noteq> MultiWildcard"
  by (force simp: topic_is_valid_iff)

lemma metadata_only_first: "topic_is_valid (l # ls) \<Longrightarrow> m \<in> set ls \<Longrightarrow> \<not> level_is_metadata m"
  by (fastforce simp: topic_is_valid_iff in_set_conv_nth)

lemma topic_is_valid_tl: "topic_is_valid (l # ls) \<Longrightarrow> topic_is_valid ls"
  unfolding topic_is_valid_iff
  by (intro conjI ballI allI impI) (force, force, force)

section \<open>The MQTT reading of a filter\<close>

text \<open>
  Matching of a filter against the levels of a topic name as the protocol defines it: \<open>+\<close>
  stands for one level, a final \<open>#\<close> for the rest including the parent level, and a filter
  that starts with a wildcard does not match a topic that starts with \<open>$\<close>.
\<close>

fun level_match :: "topic \<Rightarrow> topic \<Rightarrow> bool" where
  "level_match [] ts = (ts = [])"
| "level_match (f # fs) ts =
     (if f = MultiWildcard then True
      else case ts of
        [] \<Rightarrow> False
      | t # ts' \<Rightarrow> (f = SingleWildcard \<or> f = t) \<and> level_match fs ts')"

definition starts_wild :: "topic \<Rightarrow> bool" where
  "starts_wild f = (case f of [] \<Rightarrow> False | l # _ \<Rightarrow> l = SingleWildcard \<or> l = MultiWildcard)"

definition starts_metadata :: "topic \<Rightarrow> bool" where
  "starts_metadata t = (case t of [] \<Rightarrow> False | l # _ \<Rightarrow> level_is_metadata l)"

definition mqtt_match :: "topic \<Rightarrow> topic \<Rightarrow> bool" where
  "mqtt_match f t \<longleftrightarrow> level_match f t \<and> \<not> (starts_wild f \<and> starts_metadata t)"

lemma level_match_refl: "level_match f f"
  by (induction f) auto

section \<open>The ACL match on string segments\<close>

text \<open>A level that parsing can produce.\<close>

definition parsed_level :: "level \<Rightarrow> bool" where
  "parsed_level l \<longleftrightarrow> level_from_str (level_to_string l) = Inr l"

lemma topic_from_str_parsed:
  "topic_from_str s = Inr t \<Longrightarrow> \<forall>l \<in> set t. parsed_level l"
  by (auto simp: topic_from_str_Inr parsed_level_def list_all2_conv_all_nth in_set_conv_nth)
     (metis level_from_str_to_string)

lemma parsed_level_wild [simp]:
  assumes "parsed_level l"
  shows "level_to_string l = ''#'' \<longleftrightarrow> l = MultiWildcard"
    and "level_to_string l = ''+'' \<longleftrightarrow> l = SingleWildcard"
  using assms by (auto simp: parsed_level_def level_from_str_def)

lemma parsed_match_level_str:
  assumes "parsed_level l" and "l \<noteq> SingleWildcard" and "l \<noteq> MultiWildcard"
  shows "match_level_str r l \<longleftrightarrow> level_to_string l = r"
  using assms by (cases l) (auto simp: parsed_level_def level_from_str_def split: if_splits)

lemma matches_end_segments:
  "\<forall>l \<in> set t. parsed_level l \<Longrightarrow> matches_end t \<longleftrightarrow> match_segments (map level_to_string t) []"
  by (cases t) auto

lemma matches_macro_segments:
  assumes "\<forall>l \<in> set t. parsed_level l" and "\<forall>r \<in> set rs. \<not> is_metadata r"
  shows "matches_macro match_level_str t rs \<longleftrightarrow> match_segments (map level_to_string t) rs"
  using assms
proof (induction t arbitrary: rs)
  case Nil
  then show ?case by (cases rs) auto
next
  case (Cons l ls)
  show ?case
  proof (cases rs)
    case Nil
    then show ?thesis using Cons.prems by simp
  next
    case (Cons r rs')
    have IH: "matches_macro match_level_str ls rs' \<longleftrightarrow> match_segments (map level_to_string ls) rs'"
      using Cons Cons.prems Cons.IH by simp
    have pl: "parsed_level l" and nm: "\<not> is_metadata r"
      using Cons Cons.prems by auto
    show ?thesis
      using IH nm parsed_level_wild [OF pl] parsed_match_level_str [OF pl, of r] Cons
      by (cases l) auto
  qed
qed

text \<open>
  Away from \<open>$\<close> segments the broker's own matcher and the ACL matcher agree.
\<close>

lemma matches_str_topic_matches:
  assumes "topic_from_str f = Inr t"
    and "\<forall>r \<in> set (split_on (CHR ''/'') s). \<not> is_metadata r"
  shows "matches_str t s \<longleftrightarrow> topic_matches s f"
  using matches_macro_segments [OF topic_from_str_parsed [OF assms(1)] assms(2)]
  by (simp add: matches_str_def topic_matches_def topic_from_str_segments [OF assms(1)])

text \<open>
  What the match requires of the segments one by one, up to the first wildcard that meets a
  \<open>$\<close> segment.
\<close>

lemma matches_macro_Cons:
  assumes "matches_macro match_level_str (l # ls) (r # rs)" and "l \<noteq> MultiWildcard"
    and "ls \<noteq> []" and "hd ls \<noteq> MultiWildcard"
  shows "match_level_str r l \<and> matches_macro match_level_str ls rs"
  using assms by (cases l; cases ls) (auto split: if_splits)

text \<open>
  A single-level wildcard at the end of a filter is accepted by a \<open>$\<close> segment, because
  leaving the loop there skips the rest of the topic.
\<close>

lemma matches_macro_single_metadata:
  "is_metadata r \<Longrightarrow> matches_macro match_level_str (SingleWildcard # ls) (r # rs) \<longleftrightarrow> matches_end ls"
  by simp

end
