(* ===== verification/Rmqtt_Types.thy ===== *)
theory Rmqtt_Types
  imports Rmqtt_Topic
begin

text \<open>
  The protocol data of \<open>vendor/rmqtt/src/types.rs\<close> that the modelled handlers use: client
  identities, connection data, subscription options, the parsing of \<open>$share\<close>, \<open>$limit\<close> and
  \<open>$exclusive\<close> filters, and the results of the subscribe, publish and authentication checks.
  The build enables the features \<open>shared-subscription\<close>, \<open>auto-subscription\<close>, \<open>msgstore\<close>,
  \<open>stats\<close>, \<open>plugin\<close>, \<open>grpc\<close> and \<open>ws\<close>; \<open>limit-subscription\<close>, \<open>retain\<close> and \<open>delayed\<close> are
  off, so fields and branches under them are absent here as they are in the binary.
\<close>

section \<open>Model\<close>

datatype qos = AtMostOnce | AtLeastOnce | ExactlyOnce

fun qos_value :: "qos \<Rightarrow> nat" where
  "qos_value AtMostOnce = 0"
| "qos_value AtLeastOnce = 1"
| "qos_value ExactlyOnce = 2"

record ident =
  id_node_id :: u64
  id_lid :: u16
  id_local_addr :: "string option"
  id_remote_addr :: "string option"
  id_client_id :: string
  id_username :: "string option"
  id_create_time :: int

text \<open>The part of a CONNECT packet that the modelled code reads.\<close>

record connect =
  conn_username :: "string option"
  conn_password :: "bytes option"

datatype connect_info = ConnV3 ident connect | ConnV5 ident connect

fun ci_id :: "connect_info \<Rightarrow> ident" where
  "ci_id (ConnV3 i _) = i"
| "ci_id (ConnV5 i _) = i"

fun ci_client_id :: "connect_info \<Rightarrow> string" where
  "ci_client_id (ConnV3 i _) = id_client_id i"
| "ci_client_id (ConnV5 i _) = id_client_id i"

fun ci_username :: "connect_info \<Rightarrow> string option" where
  "ci_username (ConnV3 _ c) = conn_username c"
| "ci_username (ConnV5 _ c) = conn_username c"

fun ci_password :: "connect_info \<Rightarrow> bytes option" where
  "ci_password (ConnV3 _ c) = conn_password c"
| "ci_password (ConnV5 _ c) = conn_password c"

text \<open>The part of a PUBLISH packet that the modelled code reads or writes.\<close>

record publish =
  pub_dup :: bool
  pub_retain :: bool
  pub_qos :: qos
  pub_topic :: string
  pub_packet_id :: "u16 option"
  pub_payload :: bytes

datatype from_type = Custom | Admin | System | LastWill | Bridge

record from_info =
  from_typ :: from_type
  from_id :: ident

datatype retain_handling = AtSubscribe | AtSubscribeNew | NoAtSubscribe

record sub_options_v3 =
  v3_qos :: qos
  v3_shared_group :: "string option"

record sub_options_v5 =
  v5_qos :: qos
  v5_shared_group :: "string option"
  v5_no_local :: bool
  v5_retain_as_published :: bool
  v5_retain_handling :: retain_handling
  v5_id :: "nat option"

datatype subscription_options = OptsV3 sub_options_v3 | OptsV5 sub_options_v5

fun opts_no_local :: "subscription_options \<Rightarrow> bool option" where
  "opts_no_local (OptsV3 _) = None"
| "opts_no_local (OptsV5 o5) = Some (v5_no_local o5)"

fun opts_subscription_identifier :: "subscription_options \<Rightarrow> nat option" where
  "opts_subscription_identifier (OptsV3 _) = None"
| "opts_subscription_identifier (OptsV5 o5) = v5_id o5"

fun opts_qos :: "subscription_options \<Rightarrow> qos" where
  "opts_qos (OptsV3 o3) = v3_qos o3"
| "opts_qos (OptsV5 o5) = v5_qos o5"

fun opts_set_qos :: "qos \<Rightarrow> subscription_options \<Rightarrow> subscription_options" where
  "opts_set_qos q (OptsV3 o3) = OptsV3 (o3\<lparr>v3_qos := q\<rparr>)"
| "opts_set_qos q (OptsV5 o5) = OptsV5 (o5\<lparr>v5_qos := q\<rparr>)"

fun opts_shared_group :: "subscription_options \<Rightarrow> string option" where
  "opts_shared_group (OptsV3 o3) = v3_shared_group o3"
| "opts_shared_group (OptsV5 o5) = v5_shared_group o5"

fun opts_has_shared_group :: "subscription_options \<Rightarrow> bool" where
  "opts_has_shared_group (OptsV3 o3) = (v3_shared_group o3 \<noteq> None)"
| "opts_has_shared_group (OptsV5 o5) = (v5_shared_group o5 \<noteq> None)"

fun opts_is_v3 :: "subscription_options \<Rightarrow> bool" where
  "opts_is_v3 (OptsV3 _) = True"
| "opts_is_v3 (OptsV5 _) = False"

record subscribe =
  sub_topic_filter :: string
  sub_opts :: subscription_options

text \<open>
  \<open>parse_topic_filter\<close>: at most three pieces are cut off at slashes, and the first one
  selects the kind of subscription.
\<close>

definition parse_topic_filter ::
    "string \<Rightarrow> bool \<Rightarrow> bool \<Rightarrow> (string \<times> string option \<times> nat option) result" where
  "parse_topic_filter tf shared limited =
     rbind
       (if shared \<or> limited then
          (case splitn 3 (CHR ''/'') tf of
             [] \<Rightarrow> Inr (tf, None, None)
           | l # ls \<Rightarrow>
               if l = ''$share'' then
                 (if \<not> shared then Inl (NotEnabled tf)
                  else (case ls of
                          [g, rest] \<Rightarrow> Inr (rest, Some g, None)
                        | _ \<Rightarrow> Inl (IllegalFilter tf)))
               else if l = ''$limit'' then
                 (if \<not> limited then Inl (NotEnabled tf)
                  else (case ls of
                          [n, rest] \<Rightarrow>
                            (case parse_uint usize_max n of
                               None \<Rightarrow> Inl (IllegalFilter tf)
                             | Some k \<Rightarrow> Inr (rest, None, Some k))
                        | _ \<Rightarrow> Inl (IllegalFilter tf)))
               else if l = ''$exclusive'' then
                 (if limited then Inr (trim_start_matches ''$exclusive/'' tf, None, Some 1)
                  else Inl (NotEnabled tf))
               else Inr (tf, None, None))
        else Inr (tf, None, None))
       (\<lambda>(topic, group, limit).
          if topic = [] then Inl (IllegalFilter tf) else Inr (topic, group, limit))"

text \<open>The v5 options of the codec, without the fields that the filter contributes.\<close>

record codec_sub_opts =
  cso_qos :: qos
  cso_no_local :: bool
  cso_retain_as_published :: bool
  cso_retain_handling :: retain_handling

definition subscribe_from_v3 :: "string \<Rightarrow> qos \<Rightarrow> bool \<Rightarrow> bool \<Rightarrow> subscribe result" where
  "subscribe_from_v3 tf q shared limited =
     rbind (parse_topic_filter tf shared limited)
       (\<lambda>(topic, group, _).
          Inr \<lparr>sub_topic_filter = topic,
               sub_opts = OptsV3 \<lparr>v3_qos = q, v3_shared_group = group\<rparr>\<rparr>)"

definition subscribe_from_v5 ::
    "string \<Rightarrow> codec_sub_opts \<Rightarrow> bool \<Rightarrow> bool \<Rightarrow> nat option \<Rightarrow> subscribe result" where
  "subscribe_from_v5 tf opts shared limited sub_id =
     rbind (parse_topic_filter tf shared limited)
       (\<lambda>(topic, group, _).
          Inr \<lparr>sub_topic_filter = topic,
               sub_opts = OptsV5 \<lparr>v5_qos = cso_qos opts, v5_shared_group = group,
                 v5_no_local = cso_no_local opts,
                 v5_retain_as_published = cso_retain_as_published opts,
                 v5_retain_handling = cso_retain_handling opts, v5_id = sub_id\<rparr>\<rparr>)"

datatype subscribe_ack_reason =
    GrantedQos0 | GrantedQos1 | GrantedQos2 | SubNotAuthorized | SubOtherReason nat

record subscribe_return =
  sr_ack_reason :: subscribe_ack_reason
  sr_prev_opts :: "subscription_options option"

definition sub_new_success :: "qos \<Rightarrow> subscription_options option \<Rightarrow> subscribe_return" where
  "sub_new_success q prev =
     \<lparr>sr_ack_reason = (case q of AtMostOnce \<Rightarrow> GrantedQos0 | AtLeastOnce \<Rightarrow> GrantedQos1
                    | ExactlyOnce \<Rightarrow> GrantedQos2),
      sr_prev_opts = prev\<rparr>"

definition sub_new_failure :: "subscribe_ack_reason \<Rightarrow> subscribe_return" where
  "sub_new_failure r = \<lparr>sr_ack_reason = r, sr_prev_opts = None\<rparr>"

definition sub_success :: "subscribe_return \<Rightarrow> qos option" where
  "sub_success r =
     (case sr_ack_reason r of
        GrantedQos0 \<Rightarrow> Some AtMostOnce
      | GrantedQos1 \<Rightarrow> Some AtLeastOnce
      | GrantedQos2 \<Rightarrow> Some ExactlyOnce
      | _ \<Rightarrow> None)"

definition sub_failure :: "subscribe_return \<Rightarrow> bool" where
  "sub_failure r \<longleftrightarrow> \<not> (sr_ack_reason r = GrantedQos0 \<or> sr_ack_reason r = GrantedQos1 \<or> sr_ack_reason r = GrantedQos2)"

datatype publish_ack_reason = PubSuccess | PubNotAuthorized | PubOtherReason nat

record publish_result =
  pr_reason_code :: publish_ack_reason
  pr_reason_string :: "string option"
  pr_disconnect :: bool

definition publish_result_reason_code ::
    "publish_ack_reason \<Rightarrow> string option \<Rightarrow> bool \<Rightarrow> publish_result" where
  "publish_result_reason_code c s d = \<lparr>pr_reason_code = c, pr_reason_string = s, pr_disconnect = d\<rparr>"

definition publish_result_is_success :: "publish_result \<Rightarrow> bool" where
  "publish_result_is_success r \<longleftrightarrow> pr_reason_code r = PubSuccess"

definition publish_acl_allow :: publish_result where
  "publish_acl_allow = publish_result_reason_code PubSuccess None False"

definition publish_acl_rejected :: "bool \<Rightarrow> string option \<Rightarrow> publish_result" where
  "publish_acl_rejected d s =
     publish_result_reason_code PubNotAuthorized
       (Some (case s of None \<Rightarrow> ''PublishRefused'' | Some x \<Rightarrow> x)) d"

definition publish_acl_is_allow :: "publish_result \<Rightarrow> bool" where
  "publish_acl_is_allow r \<longleftrightarrow> pr_reason_code r = PubSuccess"

section \<open>Results of the checks\<close>

lemma sub_success_new_success [simp]: "sub_success (sub_new_success q p) = Some q"
  by (cases q) (auto simp: sub_success_def sub_new_success_def)

lemma sub_success_new_failure [simp]:
  "sub_success (sub_new_failure SubNotAuthorized) = None"
  by (simp add: sub_success_def sub_new_failure_def)

lemma sub_failure_iff: "sub_failure r \<longleftrightarrow> sub_success r = None"
  by (cases "sr_ack_reason r") (auto simp: sub_failure_def sub_success_def)

lemma publish_acl_simps [simp]:
  "publish_acl_is_allow publish_acl_allow"
  "\<not> publish_acl_is_allow (publish_acl_rejected d s)"
  "pr_disconnect (publish_acl_rejected d s) = d"
  by (simp_all add: publish_acl_is_allow_def publish_acl_allow_def publish_acl_rejected_def
      publish_result_reason_code_def)

section \<open>Filter parsing\<close>

lemma splitn_plain:
  assumes "c \<notin> set s"
  shows "splitn (Suc (Suc n)) c (s @ c # t) = s # splitn (Suc n) c t"
  using assms by (simp add: split_on_append_sep split: list.splits) (metis join_split_on)

lemma splitn_head: "n > 0 \<Longrightarrow> \<exists>l ls. splitn (Suc n) c s = l # ls \<and> l = hd (split_on c s)"
  by (cases n) (auto split: list.splits)

lemma parse_topic_filter_plain:
  assumes "tf \<noteq> []"
    and "hd (split_on (CHR ''/'') tf) \<notin> {''$share'', ''$limit'', ''$exclusive''}"
  shows "parse_topic_filter tf shared limited = Inr (tf, None, None)"
proof -
  obtain l ls where "splitn 3 (CHR ''/'') tf = l # ls" and "l = hd (split_on (CHR ''/'') tf)"
    using splitn_head [of 2 "CHR ''/''" tf] by (auto simp: numeral_3_eq_3)
  with assms show ?thesis
    by (auto simp: parse_topic_filter_def)
qed

lemma parse_topic_filter_share:
  assumes "CHR ''/'' \<notin> set g" and "rest \<noteq> []"
  shows "parse_topic_filter (''$share'' @ CHR ''/'' # g @ CHR ''/'' # rest) True limited
         = Inr (rest, Some g, None)"
proof -
  have "splitn 3 (CHR ''/'') (''$share'' @ CHR ''/'' # g @ CHR ''/'' # rest)
      = ''$share'' # splitn (Suc (Suc 0)) (CHR ''/'') (g @ CHR ''/'' # rest)"
    unfolding numeral_3_eq_3 by (rule splitn_plain) simp
  also have "\<dots> = [''$share'', g, rest]"
    using assms(1) splitn_plain [of "CHR ''/''" g 0 rest] by simp
  finally show ?thesis
    using assms(2) unfolding parse_topic_filter_def by simp
qed

lemma parse_topic_filter_ne:
  "parse_topic_filter tf shared limited = Inr (t, g, l) \<Longrightarrow> t \<noteq> []"
  by (auto simp: parse_topic_filter_def split: if_splits)

end
