(* ===== verification/Rmqtt_Acl.thy ===== *)
theory Rmqtt_Acl
  imports Rmqtt_Types
begin

text \<open>
  The rule engine of \<open>vendor/rmqtt/src/acl.rs\<close>: rules, their topic patterns with the
  placeholders for user name and client id, and the evaluation of a rule list for a
  subscription and for a publication. The lemmas say which rule decides and what a decision
  requires of the rules.
\<close>

section \<open>Model\<close>

datatype permission = Allow | Deny
datatype action = ActAll | ActPublish | ActSubscribe

definition permission_try_from :: "string \<Rightarrow> permission result" where
  "permission_try_from s =
     (if s = ''allow'' then Inr Allow
      else if s = ''deny'' then Inr Deny
      else Inl (OtherError ''Unknown Permission''))"

definition action_try_from :: "string \<Rightarrow> action result" where
  "action_try_from s =
     (if s = ''all'' then Inr ActAll
      else if s = ''publish'' then Inr ActPublish
      else if s = ''subscribe'' then Inr ActSubscribe
      else Inl (OtherError ''Unknown Action''))"

record acl_topic =
  at_eq_filter :: "string option"
  at_topic_filter :: "topic option"

record rule =
  rule_permission :: permission
  rule_action :: action
  rule_qos :: "qos list option"
  rule_retain :: "bool option"
  rule_topic :: acl_topic

record auth_info =
  ai_superuser :: bool
  ai_expire_at :: "duration option"
  ai_rules :: "rule list"

datatype auth_result =
    AuthAllow bool "auth_info option"
  | AuthNotFound
  | BadUsernameOrPassword
  | AuthNotAuthorized

text \<open>
  The results of hooks that the modelled handlers produce, and what a handler returns: whether
  to go on to the next handler, and the accumulated result.
\<close>

datatype hook_result =
    AuthResult auth_result
  | TopicFilterResult "string option"
  | SubscribeAclResult subscribe_return
  | PublishAclResult publish_result
  | OtherHookResult nat

type_synonym return_type = "bool \<times> hook_result option"

definition auth_is_expired :: "auth_info \<Rightarrow> duration \<Rightarrow> bool" where
  "auth_is_expired a now = (case ai_expire_at a of None \<Rightarrow> False | Some e \<Rightarrow> e < now)"

definition placeholder_username :: string where
  "placeholder_username = ''${username}''"

definition placeholder_clientid :: string where
  "placeholder_clientid = ''${clientid}''"

definition replaces :: "string \<Rightarrow> connect_info \<Rightarrow> string result" where
  "replaces cfg ci =
     (case (contains_str placeholder_username cfg, contains_str placeholder_clientid cfg) of
        (True, True) \<Rightarrow>
          (case ci_username ci of
             Some u \<Rightarrow> Inr (replace_str placeholder_clientid (ci_client_id ci)
                            (replace_str placeholder_username u cfg))
           | None \<Rightarrow> Inl UsernameMissing)
      | (True, False) \<Rightarrow>
          (case ci_username ci of
             Some u \<Rightarrow> Inr (replace_str placeholder_username u cfg)
           | None \<Rightarrow> Inl UsernameMissing)
      | (False, True) \<Rightarrow> Inr (replace_str placeholder_clientid (ci_client_id ci) cfg)
      | (False, False) \<Rightarrow> Inr cfg)"

definition acl_topic_try_from :: "string \<Rightarrow> connect_info \<Rightarrow> acl_topic result" where
  "acl_topic_try_from cfg ci =
     (case strip_prefix ''eq '' cfg of
        Some stripped \<Rightarrow>
          rbind (replaces stripped ci)
            (\<lambda>s. Inr \<lparr>at_eq_filter = Some s, at_topic_filter = None\<rparr>)
      | None \<Rightarrow>
          if cfg \<noteq> [] then
            rbind (replaces cfg ci)
              (\<lambda>s. rbind (topic_from_str s)
                (\<lambda>t. Inr \<lparr>at_eq_filter = None, at_topic_filter = Some t\<rparr>))
          else Inl (AclConfigError cfg))"

definition acl_topic_is_match :: "acl_topic \<Rightarrow> string \<Rightarrow> bool" where
  "acl_topic_is_match at topic =
     (case at_eq_filter at of
        Some e \<Rightarrow> e = topic
      | None \<Rightarrow> (case at_topic_filter at of Some f \<Rightarrow> matches_str f topic | None \<Rightarrow> False))"

definition qos_restricted :: "qos list option \<Rightarrow> qos \<Rightarrow> bool" where
  "qos_restricted allowed q = (case allowed of None \<Rightarrow> False | Some qs \<Rightarrow> q \<notin> set qs)"

definition subscribe_hit :: "rule \<Rightarrow> subscribe \<Rightarrow> bool" where
  "subscribe_hit r sub =
     (if \<not> (rule_action r = ActSubscribe \<or> rule_action r = ActAll) then False
      else if qos_restricted (rule_qos r) (opts_qos (sub_opts sub)) then False
      else if \<not> acl_topic_is_match (rule_topic r) (sub_topic_filter sub) then False
      else True)"

definition publish_hit :: "rule \<Rightarrow> publish \<Rightarrow> bool" where
  "publish_hit r p =
     (if \<not> (rule_action r = ActPublish \<or> rule_action r = ActAll) then False
      else if qos_restricted (rule_qos r) (pub_qos p) then False
      else if \<not> acl_topic_is_match (rule_topic r) (pub_topic p) then False
      else True)"

definition publish_allow_hit :: "rule \<Rightarrow> publish \<Rightarrow> bool" where
  "publish_allow_hit r p =
     (if (case rule_retain r of Some rt \<Rightarrow> \<not> rt \<and> pub_retain p | None \<Rightarrow> False) then False
      else publish_hit r p)"

definition publish_deny_hit :: "rule \<Rightarrow> publish \<Rightarrow> bool" where
  "publish_deny_hit r p =
     (if (case rule_retain r of Some rt \<Rightarrow> rt \<noteq> pub_retain p | None \<Rightarrow> False) then False
      else publish_hit r p)"

fun subscribe_acl_rules :: "rule list \<Rightarrow> subscribe \<Rightarrow> return_type option" where
  "subscribe_acl_rules [] sub = None"
| "subscribe_acl_rules (r # rs) sub =
     (if \<not> subscribe_hit r sub then subscribe_acl_rules rs sub
      else (case rule_permission r of
          Allow \<Rightarrow> Some (False, Some (SubscribeAclResult
                     (sub_new_success (opts_qos (sub_opts sub)) None)))
        | Deny \<Rightarrow> Some (False, Some (SubscribeAclResult (sub_new_failure SubNotAuthorized)))))"

definition subscribe_acl :: "auth_info \<Rightarrow> subscribe \<Rightarrow> return_type option" where
  "subscribe_acl a sub =
     (if ai_superuser a then
        Some (False, Some (SubscribeAclResult (sub_new_success (opts_qos (sub_opts sub)) None)))
      else subscribe_acl_rules (ai_rules a) sub)"

fun publish_acl_rules :: "rule list \<Rightarrow> publish \<Rightarrow> bool \<Rightarrow> return_type option" where
  "publish_acl_rules [] p d = None"
| "publish_acl_rules (r # rs) p d =
     (case rule_permission r of
        Allow \<Rightarrow>
          if publish_allow_hit r p then Some (False, Some (PublishAclResult publish_acl_allow))
          else publish_acl_rules rs p d
      | Deny \<Rightarrow>
          if publish_deny_hit r p
          then Some (False, Some (PublishAclResult (publish_acl_rejected d None)))
          else publish_acl_rules rs p d)"

definition publish_acl :: "auth_info \<Rightarrow> publish \<Rightarrow> bool \<Rightarrow> return_type option" where
  "publish_acl a p d =
     (if ai_superuser a then Some (False, Some (PublishAclResult publish_acl_allow))
      else publish_acl_rules (ai_rules a) p d)"

section \<open>Which rule decides\<close>

text \<open>The first rule that is hit decides a subscription.\<close>

lemma subscribe_acl_rules_find:
  "subscribe_acl_rules rs sub =
     map_option (\<lambda>r. (False, Some (SubscribeAclResult
        (if rule_permission r = Allow then sub_new_success (opts_qos (sub_opts sub)) None
         else sub_new_failure SubNotAuthorized))))
       (find (\<lambda>r. subscribe_hit r sub) rs)"
  by (induction rs) (auto split: permission.splits)

lemma subscribe_acl_rules_granted:
  assumes "subscribe_acl_rules rs sub = Some (b, Some (SubscribeAclResult res))"
    and "sub_success res \<noteq> None"
  shows "\<exists>r \<in> set rs. rule_permission r = Allow \<and> subscribe_hit r sub"
  using assms by (induction rs) (auto split: if_splits permission.splits)

lemma subscribe_acl_rules_allow_only:
  assumes "\<forall>r \<in> set rs. rule_permission r = Allow"
  shows "subscribe_acl_rules rs sub =
     (if \<exists>r \<in> set rs. subscribe_hit r sub
      then Some (False, Some (SubscribeAclResult (sub_new_success (opts_qos (sub_opts sub)) None)))
      else None)"
  using assms by (induction rs) auto

lemma publish_acl_rules_allow_only:
  assumes "\<forall>r \<in> set rs. rule_permission r = Allow"
  shows "publish_acl_rules rs p d =
     (if \<exists>r \<in> set rs. publish_allow_hit r p
      then Some (False, Some (PublishAclResult publish_acl_allow)) else None)"
  using assms by (induction rs) auto

section \<open>Placeholders\<close>

lemma replaces_plain: "CHR ''$'' \<notin> set cfg \<Longrightarrow> replaces cfg ci = Inr cfg"
  using not_contains_missing_char [of "CHR ''$''" placeholder_username cfg]
    not_contains_missing_char [of "CHR ''$''" placeholder_clientid cfg]
  by (simp add: replaces_def placeholder_username_def placeholder_clientid_def)

lemma acl_topic_try_from_eq:
  "CHR ''$'' \<notin> set t \<Longrightarrow>
   acl_topic_try_from (''eq '' @ t) ci = Inr \<lparr>at_eq_filter = Some t, at_topic_filter = None\<rparr>"
  by (simp add: acl_topic_try_from_def replaces_plain)

lemma acl_topic_try_from_filter:
  assumes "strip_prefix ''eq '' cfg = None" and "CHR ''$'' \<notin> set cfg" and "cfg \<noteq> []"
  shows "acl_topic_try_from cfg ci =
     rbind (topic_from_str cfg) (\<lambda>t. Inr \<lparr>at_eq_filter = None, at_topic_filter = Some t\<rparr>)"
  using assms by (simp add: acl_topic_try_from_def replaces_plain)

end
