(* ===== verification/Api_Auth.thy ===== *)
theory Api_Auth
  imports Api_Users Rmqtt_Acl
begin

text \<open>
  The MQTT hooks of \<open>src/api.rs\<close>: authentication of a client against the user store with the two
  caches and the fast verifier, the access rules that an authenticated session carries, and the
  checks of subscriptions and publications against them. The lemmas show what a granted
  subscription or publication is confined to and trace an accepted login back to a verified
  password.
\<close>

section \<open>Model\<close>

subsection \<open>Authentication\<close>

definition auth_key :: "(bytes \<Rightarrow> bytes) \<Rightarrow> string \<Rightarrow> string \<Rightarrow> bytes" where
  "auth_key sha uname password = sha (credential_bytes uname password)"

text \<open>\<open>lookup_user\<close>; the two clock values are read by \<open>UserCache::get\<close> and \<open>UserCache::insert\<close>.\<close>

definition lookup_user ::
    "'s user_store \<Rightarrow> instant \<Rightarrow> instant \<Rightarrow> string \<Rightarrow> 's app_state
     \<Rightarrow> 's app_state \<times> (response + user_record option)" where
  "lookup_user U t0 t1 uname st =
     (case user_cache_get uname t0 (st_users st) of
        Some r \<Rightarrow> (st, Inr (Some r))
      | None \<Rightarrow>
          (case us_get_user U uname (st_db st) of
             Inr (Some r) \<Rightarrow>
               (st\<lparr>st_users := user_cache_insert uname r t1 (st_users st)\<rparr>, Inr (Some r))
           | Inr None \<Rightarrow> (st, Inr None)
           | Inl e \<Rightarrow> (st, Inl (internal_error e))))"

definition deny_auth :: return_type where
  "deny_auth = (False, Some (AuthResult BadUsernameOrPassword))"

text \<open>The filters a user may subscribe to, in the order of \<open>build_auth_info\<close>.\<close>

definition acl_filters :: "user_record \<Rightarrow> acl_config \<Rightarrow> string list" where
  "acl_filters r acl =
     (''+/'' @ ur_userid r @ ''/#'') # map (\<lambda>p. p @ ''/#'') (fanout_prefixes acl)
     @ (if ur_admin r then map (\<lambda>p. p @ ''/#'') (admin_prefixes acl) else [])"

fun rules_of :: "action \<Rightarrow> connect_info \<Rightarrow> string list \<Rightarrow> rule list" where
  "rules_of act ci [] = []"
| "rules_of act ci (f # fs) =
     (case acl_topic_try_from f ci of
        Inr topic \<Rightarrow>
          \<lparr>rule_permission = Allow, rule_action = act, rule_qos = None, rule_retain = None,
           rule_topic = topic\<rparr> # rules_of act ci fs
      | Inl _ \<Rightarrow> rules_of act ci fs)"

definition build_auth_info :: "user_record \<Rightarrow> acl_config \<Rightarrow> connect_info \<Rightarrow> auth_info" where
  "build_auth_info r acl ci =
     (if ur_superuser r then \<lparr>ai_superuser = True, ai_expire_at = None, ai_rules = []\<rparr>
      else
        \<lparr>ai_superuser = False, ai_expire_at = None,
         ai_rules = rules_of ActSubscribe ci (acl_filters r acl)
           @ rules_of ActPublish ci (map (\<lambda>t. ''eq '' @ t) (publish_topics acl))\<rparr>)"

text \<open>The fast path of \<open>authenticate\<close>: a stored verifier, when a pepper is configured.\<close>

definition check_verifier ::
    "'s user_store \<Rightarrow> ('p, 'h, 'j) externals \<Rightarrow> instant \<Rightarrow> user_record \<Rightarrow> string \<Rightarrow> string
     \<Rightarrow> 's app_state \<Rightarrow> 's app_state \<times> bool" where
  "check_verifier U E t r uname password st =
     (case st_pepper st of
        None \<Rightarrow> (st, False)
      | Some pepper \<Rightarrow>
          (case us_get_verifier U uname (st_db st) of
             Inr (Some v) \<Rightarrow>
               if verify_fast (ext_hmac E) pepper uname password v
               then (st\<lparr>st_auth_cache := auth_cache_insert
                          (auth_key (ext_sha256 E) uname password) (ur_superuser r) t (st_auth_cache st)\<rparr>, True)
               else (st, False)
           | _ \<Rightarrow> (st, False)))"

text \<open>
  The slow path: Argon2 in a blocking task; a success is cached and its verifier stored for the
  next time, the outcome of that write being ignored.
\<close>

definition check_hash ::
    "'s user_store \<Rightarrow> ('p, 'h, 'j) externals \<Rightarrow> instant \<Rightarrow> bool \<Rightarrow> user_record \<Rightarrow> string \<Rightarrow> string
     \<Rightarrow> 's app_state \<Rightarrow> 's app_state \<times> bool" where
  "check_hash U E t joined r uname password st =
     (if joined \<and> verify_password (ext_argon2 E) (ur_password_hash r) password then
        let st1 = st\<lparr>st_auth_cache := auth_cache_insert
                       (auth_key (ext_sha256 E) uname password) (ur_superuser r) t (st_auth_cache st)\<rparr>
        in (case st_pepper st of
              Some pepper \<Rightarrow>
                (st1\<lparr>st_db := fst (us_set_verifier U uname
                        (compute_verifier (ext_hmac E) pepper uname password) (st_db st1))\<rparr>, True)
            | None \<Rightarrow> (st1, True))
      else (st, False))"

text \<open>
  The user name and password of a CONNECT packet that \<open>authenticate\<close> goes on with: both are
  present, the password is UTF-8 and neither is empty.
\<close>

definition credentials_of :: "connect_info \<Rightarrow> (string \<times> string) option" where
  "credentials_of ci =
     (case (ci_username ci, Option.bind (ci_password ci) from_utf8) of
        (Some u, Some p) \<Rightarrow> if u = [] \<or> p = [] then None else Some (u, p)
      | _ \<Rightarrow> None)"

text \<open>
  \<open>MqttAuth::authenticate\<close>. \<open>clk i\<close> is the value of the \<open>i\<close>-th clock reading of the call.
\<close>

definition authenticate ::
    "'s user_store \<Rightarrow> ('p, 'h, 'j) externals \<Rightarrow> (nat \<Rightarrow> instant) \<Rightarrow> bool \<Rightarrow> connect_info
     \<Rightarrow> 's app_state \<Rightarrow> 's app_state \<times> return_type" where
  "authenticate U E clk joined ci st =
     (if st_auth_disabled st then (st, (False, Some (AuthResult (AuthAllow True None))))
      else case credentials_of ci of
        None \<Rightarrow> (st, deny_auth)
      | Some (u, p) \<Rightarrow>
          (case lookup_user U (clk 0) (clk 1) u st of
             (st1, Inl _) \<Rightarrow> (st1, (False, Some (AuthResult AuthNotAuthorized)))
           | (st1, Inr None) \<Rightarrow> (st1, deny_auth)
           | (st1, Inr (Some r)) \<Rightarrow>
               let key = auth_key (ext_sha256 E) u p;
                   verified = (auth_cache_get key (clk 2) (st_auth_cache st1) \<noteq> None);
                   (st2, verified) = (if verified then (st1, True)
                                      else check_verifier U E (clk 3) r u p st1);
                   (st3, verified) = (if verified then (st2, True)
                                      else check_hash U E (clk 4) joined r u p st2)
               in if \<not> verified then (st3, deny_auth)
                  else (st3, (False, Some (AuthResult
                         (AuthAllow (ur_superuser r) (Some (build_auth_info r (st_acl st3) ci))))))))"

subsection \<open>The hooks\<close>

text \<open>
  The parameters of \<open>MqttAuth::hook\<close>: of a session only its \<open>auth_info\<close> is read.
\<close>

datatype hook_param =
    PClientAuthenticate connect_info
  | PClientSubscribeCheckAcl "auth_info option" subscribe
  | PMessagePublishCheckAcl "auth_info option" publish
  | PMessageDropped
  | POther nat

definition subscribe_check_acl :: "acl_config \<Rightarrow> auth_info option \<Rightarrow> subscribe \<Rightarrow> return_type" where
  "subscribe_check_acl acl info sub =
     (if \<not> acl_enabled acl then
        (False, Some (SubscribeAclResult (sub_new_success (opts_qos (sub_opts sub)) None)))
      else case Option.bind info (\<lambda>a. subscribe_acl a sub) of
        Some res \<Rightarrow> res
      | None \<Rightarrow> (False, Some (SubscribeAclResult (sub_new_failure SubNotAuthorized))))"

definition publish_check_acl :: "acl_config \<Rightarrow> auth_info option \<Rightarrow> publish \<Rightarrow> return_type" where
  "publish_check_acl acl info p =
     (if \<not> acl_enabled acl then (False, Some (PublishAclResult publish_acl_allow))
      else case Option.bind info (\<lambda>a. publish_acl a p True) of
        Some res \<Rightarrow> res
      | None \<Rightarrow> (False, Some (PublishAclResult (publish_acl_rejected True None))))"

definition mqtt_auth_hook ::
    "'s user_store \<Rightarrow> ('p, 'h, 'j) externals \<Rightarrow> (nat \<Rightarrow> instant) \<Rightarrow> bool \<Rightarrow> hook_param
     \<Rightarrow> hook_result option \<Rightarrow> 's app_state \<Rightarrow> 's app_state \<times> return_type" where
  "mqtt_auth_hook U E clk joined param acc st =
     (case param of
        PClientAuthenticate ci \<Rightarrow> authenticate U E clk joined ci st
      | PClientSubscribeCheckAcl info sub \<Rightarrow> (st, subscribe_check_acl (st_acl st) info sub)
      | PMessagePublishCheckAcl info p \<Rightarrow> (st, publish_check_acl (st_acl st) info p)
      | _ \<Rightarrow> (st, (True, acc)))"

text \<open>\<open>DropLogger\<close> logs and passes the accumulated result on.\<close>

definition drop_logger_hook :: "hook_param \<Rightarrow> hook_result option \<Rightarrow> return_type" where
  "drop_logger_hook param acc = (True, acc)"

text \<open>\<open>register_auth_hooks\<close>: the hook points at which the two handlers are registered.\<close>

datatype hook_type = TClientAuthenticate | TClientSubscribeCheckAcl | TMessagePublishCheckAcl
  | TMessageDropped

datatype auth_handler = HMqttAuth | HDropLogger

definition register_auth_hooks :: "(hook_type \<times> auth_handler) list" where
  "register_auth_hooks =
     [(TClientAuthenticate, HMqttAuth), (TClientSubscribeCheckAcl, HMqttAuth),
      (TMessagePublishCheckAcl, HMqttAuth), (TMessageDropped, HDropLogger)]"

section \<open>Access rules: plain prefixes\<close>

text \<open>A configured prefix or topic without wildcards, placeholders or spaces.\<close>

definition plain :: "string \<Rightarrow> bool" where
  "plain s \<longleftrightarrow> s \<noteq> [] \<and> (\<forall>c \<in> set s. c \<notin> {CHR ''+'', CHR ''#'', CHR ''$'', CHR '' ''})"

definition seg_level :: "string \<Rightarrow> level" where
  "seg_level s = (if s = [] then Blank else Normal s)"

lemma seg_level_simps [simp]:
  "seg_level s \<noteq> MultiWildcard" "seg_level s \<noteq> SingleWildcard" "\<not> level_is_metadata (seg_level s)"
  "level_to_string (seg_level s) = s"
  by (simp_all add: seg_level_def)

lemma plain_segment:
  assumes "plain s" and "seg \<in> set (split_on (CHR ''/'') s)"
  shows "level_from_str seg = Inr (seg_level seg)" and "\<not> is_metadata seg"
    and "seg \<noteq> ''+''" and "seg \<noteq> ''#''"
proof -
  have "set seg \<subseteq> set s" using assms(2) by (rule set_split_on_subset)
  then have n: "c \<in> set seg \<Longrightarrow> c \<notin> {CHR ''+'', CHR ''#'', CHR ''$'', CHR '' ''}" for c
    using assms(1) by (auto simp: plain_def)
  then have *: "CHR ''+'' \<notin> set seg" "CHR ''#'' \<notin> set seg" "CHR ''$'' \<notin> set seg"
    by auto
  then show "\<not> is_metadata seg" by (auto simp: is_metadata_def split: list.splits)
  show "seg \<noteq> ''+''" and "seg \<noteq> ''#''" using * by (metis list.set_intros(1))+
  with * \<open>\<not> is_metadata seg\<close> show "level_from_str seg = Inr (seg_level seg)"
    by (auto simp: level_from_str_def seg_level_def has_wild_char_def)
qed

lemma valid_segment_plain: "valid_segment s \<Longrightarrow> plain s"
  using valid_segment_chars
  by (auto simp: plain_def valid_segment_def is_ascii_alphanumeric_def list_all_iff)

lemma level_is_valid_seg_level:
  "level_from_str seg = Inr (seg_level seg) \<Longrightarrow> level_is_valid (seg_level seg)"
  by (rule level_from_str_valid)

lemma valid_plain_multi:
  assumes "\<forall>l \<in> set ls. level_is_valid l \<and> l \<noteq> MultiWildcard \<and> \<not> level_is_metadata l"
  shows "topic_is_valid (ls @ [MultiWildcard])"
proof -
  have "i < length ls \<Longrightarrow> ls ! i \<noteq> MultiWildcard \<and> \<not> level_is_metadata (ls ! i)" for i
    using assms by (meson nth_mem)
  then show ?thesis
    using assms by (auto simp: topic_is_valid_iff nth_append less_Suc_eq)
qed

lemma split_on_suffix_hash: "split_on (CHR ''/'') (s @ ''/#'') = split_on (CHR ''/'') s @ [''#'']"
proof -
  have "split_on (CHR ''/'') (join ''/'' (split_on (CHR ''/'') s @ [''#'']))
      = split_on (CHR ''/'') s @ [''#'']"
    by (rule split_on_join) (auto dest: split_on_free)
  then show ?thesis by (simp add: join_snoc)
qed

lemma topic_from_str_plain_hash:
  assumes "plain s"
  shows "topic_from_str (s @ ''/#'') =
     Inr (map seg_level (split_on (CHR ''/'') s) @ [MultiWildcard])"
proof -
  let ?ss = "split_on (CHR ''/'') s"
  have "list_all2 (\<lambda>s l. level_from_str s = Inr l) (?ss @ [''#'']) (map seg_level ?ss @ [MultiWildcard])"
    by (rule list_all2_appendI)
       (use plain_segment(1) [OF assms] in
         \<open>auto simp: list_all2_map2 list_all2_same level_from_str_def\<close>)
  moreover have "topic_is_valid (map seg_level ?ss @ [MultiWildcard])"
    by (rule valid_plain_multi)
       (use plain_segment(1) [OF assms] level_is_valid_seg_level in auto)
  ultimately show ?thesis
    by (simp add: topic_from_str_Inr split_on_suffix_hash)
qed

lemma valid_segment_level:
  assumes "valid_segment uid"
  shows "level_from_str uid = Inr (Normal uid)"
proof -
  have "CHR ''/'' \<notin> set uid" using valid_segment_chars [OF assms] by blast
  then show ?thesis
    using plain_segment(1) [OF valid_segment_plain [OF assms], of uid] assms
    by (simp add: seg_level_def valid_segment_def)
qed

lemma topic_from_str_user:
  assumes "valid_segment uid"
  shows "topic_from_str (''+/'' @ uid @ ''/#'') = Inr [SingleWildcard, Normal uid, MultiWildcard]"
proof -
  have ns: "CHR ''/'' \<notin> set uid" using valid_segment_chars [OF assms] by blast
  have "split_on (CHR ''/'') (''+/'' @ uid @ ''/#'') = [''+'', uid, ''#'']"
    using split_on_suffix_hash [of "''+/'' @ uid"] split_on_append_sep [of "CHR ''/''" "''+''" uid] ns
    by simp
  moreover have "level_from_str uid = Inr (Normal uid)"
    by (rule valid_segment_level [OF assms])
  moreover have "topic_is_valid [SingleWildcard, Normal uid, MultiWildcard]"
    using level_from_str_valid [OF \<open>level_from_str uid = Inr (Normal uid)\<close>]
      valid_plain_multi [of "[SingleWildcard, Normal uid]"] by simp
  ultimately show ?thesis
    by (simp add: topic_from_str_Inr level_from_str_def)
qed

section \<open>Access rules: what they grant\<close>

abbreviation allow_rule :: "action \<Rightarrow> acl_topic \<Rightarrow> rule" where
  "allow_rule act t \<equiv> \<lparr>rule_permission = Allow, rule_action = act, rule_qos = None,
     rule_retain = None, rule_topic = t\<rparr>"

lemma rules_of_iff:
  "r \<in> set (rules_of act ci fs) \<longleftrightarrow>
     (\<exists>f \<in> set fs. \<exists>t. acl_topic_try_from f ci = Inr t \<and> r = allow_rule act t)"
  by (induction fs) (auto split: sum.splits)

lemma rules_of_ex:
  "(\<exists>r \<in> set (rules_of act ci fs). P r) \<longleftrightarrow>
     (\<exists>f \<in> set fs. \<exists>t. acl_topic_try_from f ci = Inr t \<and> P (allow_rule act t))"
  by (induction fs) (auto split: sum.splits)

lemma allow_rule_hits [simp]:
  "subscribe_hit (allow_rule act t) sub \<longleftrightarrow>
     (act = ActSubscribe \<or> act = ActAll) \<and> acl_topic_is_match t (sub_topic_filter sub)"
  "publish_allow_hit (allow_rule act t) p \<longleftrightarrow>
     (act = ActPublish \<or> act = ActAll) \<and> acl_topic_is_match t (pub_topic p)"
  by (auto simp: subscribe_hit_def publish_allow_hit_def publish_hit_def qos_restricted_def)

lemma build_auth_info_rules:
  assumes "\<not> ur_superuser r"
  shows "\<forall>ru \<in> set (ai_rules (build_auth_info r acl ci)). rule_permission ru = Allow"
  using assms by (auto simp: build_auth_info_def rules_of_iff)

text \<open>The check of a subscription is a search through the user's filters.\<close>

lemma subscribe_check_build:
  assumes "acl_enabled acl" and "\<not> ur_superuser r"
  shows "subscribe_check_acl acl (Some (build_auth_info r acl ci)) sub =
     (False, Some (SubscribeAclResult
       (if \<exists>f \<in> set (acl_filters r acl). \<exists>t. acl_topic_try_from f ci = Inr t
             \<and> acl_topic_is_match t (sub_topic_filter sub)
        then sub_new_success (opts_qos (sub_opts sub)) None
        else sub_new_failure SubNotAuthorized)))"
proof -
  have "(\<exists>ru \<in> set (ai_rules (build_auth_info r acl ci)). subscribe_hit ru sub) \<longleftrightarrow>
      (\<exists>f \<in> set (acl_filters r acl). \<exists>t. acl_topic_try_from f ci = Inr t
             \<and> acl_topic_is_match t (sub_topic_filter sub))"
    using assms(2) by (simp add: build_auth_info_def bex_Un rules_of_ex)
  then show ?thesis
    using assms subscribe_acl_rules_allow_only [OF build_auth_info_rules [OF assms(2)], of acl ci sub]
    by (auto simp: subscribe_check_acl_def subscribe_acl_def build_auth_info_def)
qed

text \<open>The check of a publication is a search through the configured topics.\<close>

lemma publish_check_build:
  assumes "acl_enabled acl" and "\<not> ur_superuser r"
    and "\<forall>t \<in> set (publish_topics acl). CHR ''$'' \<notin> set t"
  shows "publish_check_acl acl (Some (build_auth_info r acl ci)) p =
     (False, Some (PublishAclResult
       (if pub_topic p \<in> set (publish_topics acl) then publish_acl_allow
        else publish_acl_rejected True None)))"
proof -
  have "(\<exists>ru \<in> set (ai_rules (build_auth_info r acl ci)). publish_allow_hit ru p) \<longleftrightarrow>
      pub_topic p \<in> set (publish_topics acl)"
    using assms(2,3) acl_topic_try_from_eq
    by (auto simp: build_auth_info_def bex_Un rules_of_ex acl_topic_is_match_def)
  then show ?thesis
    using assms publish_acl_rules_allow_only [OF build_auth_info_rules [OF assms(2)], of acl ci p True]
    by (simp add: publish_check_acl_def publish_acl_def build_auth_info_def)
qed

section \<open>Access rules: confinement\<close>

text \<open>
  The topics a user may receive: those whose second level is the user id, and those under a
  fan-out prefix or, for an administrator, under an administration prefix.
\<close>

definition user_prefixes :: "user_record \<Rightarrow> acl_config \<Rightarrow> string set" where
  "user_prefixes r acl =
     set (fanout_prefixes acl) \<union> (if ur_admin r then set (admin_prefixes acl) else {})"

definition confined :: "user_record \<Rightarrow> acl_config \<Rightarrow> topic \<Rightarrow> bool" where
  "confined r acl t \<longleftrightarrow>
     (\<exists>a rest. t = a # Normal (ur_userid r) # rest)
     \<or> (\<exists>p \<in> user_prefixes r acl. \<exists>rest. map level_to_string t = split_on (CHR ''/'') p @ rest)"

lemma parsed_seg_level: "level_from_str s = Inr (seg_level s) \<Longrightarrow> parsed_level (seg_level s)"
  by (simp add: parsed_level_def)

lemma matches_macro_seg_level:
  "matches_macro ml (seg_level p # ls) (r # rs) \<longleftrightarrow> ml r (seg_level p) \<and> matches_macro ml ls rs"
  "\<not> matches_macro ml (seg_level p # ls) []"
  by (cases "p = []"; simp add: seg_level_def)+

lemma matches_macro_plain:
  assumes "\<forall>p \<in> set ps. level_from_str p = Inr (seg_level p)"
    and "matches_macro match_level_str (map seg_level ps @ [MultiWildcard]) rs"
  shows "\<exists>rest. rs = ps @ rest"
  using assms
proof (induction ps arbitrary: rs)
  case (Cons p ps)
  show ?case
  proof (cases rs)
    case Nil
    with Cons.prems(2) show ?thesis by (simp add: matches_macro_seg_level)
  next
    case (Cons r rs')
    have m: "match_level_str r (seg_level p)"
      and m': "matches_macro match_level_str (map seg_level ps @ [MultiWildcard]) rs'"
      using Cons Cons.prems(2) by (simp_all add: matches_macro_seg_level)
    have "r = p"
      using parsed_match_level_str [OF parsed_seg_level, of p r] Cons.prems(1) m by simp
    with Cons.IH [OF _ m'] Cons.prems(1) Cons show ?thesis by auto
  qed
qed simp

lemma matches_macro_user:
  assumes "matches_macro match_level_str [SingleWildcard, Normal uid, MultiWildcard] rs"
  shows "\<exists>a rest. rs = a # uid # rest"
proof (cases rs)
  case (Cons a rs')
  with assms show ?thesis by (cases rs') (auto split: if_splits)
qed (use assms in simp)

lemma strip_eq_None: "CHR '' '' \<notin> set s \<Longrightarrow> strip_prefix ''eq '' s = None"
  by (rule ccontr) (auto simp: strip_prefix_eq)

lemma filter_char_free:
  "plain p \<Longrightarrow> strip_prefix ''eq '' (p @ ''/#'') = None \<and> CHR ''$'' \<notin> set (p @ ''/#'')"
  by (intro conjI strip_eq_None) (auto simp: plain_def)

lemma acl_filter_try_from:
  assumes "strip_prefix ''eq '' f = None" and "CHR ''$'' \<notin> set f" and "f \<noteq> []"
    and "topic_from_str f = Inr t"
  shows "acl_topic_try_from f ci = Inr \<lparr>at_eq_filter = None, at_topic_filter = Some t\<rparr>"
  using assms by (simp add: acl_topic_try_from_filter)

lemma acl_user_try_from:
  assumes "valid_segment uid"
  shows "acl_topic_try_from (''+/'' @ uid @ ''/#'') ci
     = Inr \<lparr>at_eq_filter = None, at_topic_filter = Some [SingleWildcard, Normal uid, MultiWildcard]\<rparr>"
proof (rule acl_filter_try_from)
  have p: "plain uid" by (rule valid_segment_plain [OF assms])
  show "strip_prefix ''eq '' (''+/'' @ uid @ ''/#'') = None"
    by (rule strip_eq_None) (use p in \<open>auto simp: plain_def\<close>)
  show "CHR ''$'' \<notin> set (''+/'' @ uid @ ''/#'')" using p by (auto simp: plain_def)
qed (simp_all add: topic_from_str_user [OF assms, simplified])

lemma acl_prefix_try_from:
  assumes "plain p"
  shows "acl_topic_try_from (p @ ''/#'') ci
     = Inr \<lparr>at_eq_filter = None,
            at_topic_filter = Some (map seg_level (split_on (CHR ''/'') p) @ [MultiWildcard])\<rparr>"
  by (rule acl_filter_try_from)
     (use filter_char_free [OF assms] topic_from_str_plain_hash [OF assms] in simp_all)

lemma acl_filters_cases:
  assumes "f \<in> set (acl_filters r acl)"
  obtains (user) "f = ''+/'' @ ur_userid r @ ''/#''"
  | (prefix) p where "p \<in> user_prefixes r acl" "f = p @ ''/#''"
  using assms unfolding acl_filters_def user_prefixes_def by (cases "ur_admin r") auto

text \<open>Which subscription filters the rules accept, as a condition on the filter's segments.\<close>

lemma acl_filters_match:
  assumes uid: "valid_segment (ur_userid r)" and pre: "\<forall>p \<in> user_prefixes r acl. plain p"
    and f: "f \<in> set (acl_filters r acl)" and t: "acl_topic_try_from f ci = Inr t"
    and m: "acl_topic_is_match t F"
  shows "(\<exists>a rest. split_on (CHR ''/'') F = a # ur_userid r # rest)
     \<or> (\<exists>p \<in> user_prefixes r acl. \<exists>rest. split_on (CHR ''/'') F = split_on (CHR ''/'') p @ rest)"
  using f
proof (cases rule: acl_filters_cases)
  case user
  then have "matches_macro match_level_str [SingleWildcard, Normal (ur_userid r), MultiWildcard]
      (split_on (CHR ''/'') F)"
    using t m acl_user_try_from [OF uid, of ci] by (auto simp: acl_topic_is_match_def matches_str_def)
  from matches_macro_user [OF this] show ?thesis by blast
next
  case (prefix p)
  have pl: "plain p" using prefix pre by blast
  have "matches_macro match_level_str (map seg_level (split_on (CHR ''/'') p) @ [MultiWildcard])
      (split_on (CHR ''/'') F)"
    using t m prefix acl_prefix_try_from [OF pl, of ci] by (auto simp: acl_topic_is_match_def matches_str_def)
  from matches_macro_plain [OF _ this] plain_segment(1) [OF pl] show ?thesis using prefix(1) by blast
qed

text \<open>A topic that matches a filter agrees with it on the segments that are no wildcards.\<close>

lemma level_match_prefix:
  assumes "level_match f t" and "map level_to_string f = ps @ rest"
    and "\<forall>l \<in> set f. parsed_level l" and "\<forall>p \<in> set ps. p \<noteq> ''+'' \<and> p \<noteq> ''#''"
  shows "\<exists>us. map level_to_string t = ps @ us"
  using assms
proof (induction ps arbitrary: f t)
  case (Cons p ps)
  from Cons.prems(2) obtain l ls where f: "f = l # ls" and l: "level_to_string l = p"
    and ls: "map level_to_string ls = ps @ rest" by (simp only: append_Cons map_eq_Cons_conv) blast
  have "parsed_level l" using Cons.prems f by simp
  with l Cons.prems(4) have "l \<noteq> SingleWildcard" and "l \<noteq> MultiWildcard" by auto
  then obtain t' where t: "t = l # t'" "level_match ls t'"
    using Cons.prems(1) f by (auto split: list.splits)
  have "\<exists>us. map level_to_string t' = ps @ us"
    using Cons.IH [OF t(2) ls] Cons.prems(3,4) f by simp
  with t l show ?case by auto
qed simp

lemma level_match_second:
  assumes "level_match f t" and "topic_from_str F = Inr f"
    and "split_on (CHR ''/'') F = a # uid # rest" and "valid_segment uid"
  shows "\<exists>b us. t = b # Normal uid # us"
proof -
  have seg: "map level_to_string f = a # uid # rest"
    using topic_from_str_segments [OF assms(2)] assms(3) by simp
  then obtain l m ls where f: "f = l # m # ls" and m: "level_to_string m = uid"
    by (cases f rule: list.exhaust; cases "tl f") auto
  have v: "topic_is_valid f" using assms(2) by (simp add: topic_from_str_Inr)
  then have "l \<noteq> MultiWildcard" using f multi_only_last by blast
  have "parsed_level m" using topic_from_str_parsed [OF assms(2)] f by simp
  moreover have "level_from_str uid = Inr (Normal uid)"
    by (rule valid_segment_level [OF assms(4)])
  ultimately have "m = Normal uid" using m by (simp add: parsed_level_def)
  with assms(1) f \<open>l \<noteq> MultiWildcard\<close> show ?thesis by (auto split: list.splits)
qed

text \<open>
  A granted subscription delivers only what the user may receive: every topic that matches a
  filter that the check lets through is confined to the user.
\<close>

lemma subscription_confined:
  assumes "acl_enabled acl" and "\<not> ur_superuser r" and uid: "valid_segment (ur_userid r)"
    and pre: "\<forall>p \<in> user_prefixes r acl. plain p"
    and granted: "subscribe_check_acl acl (Some (build_auth_info r acl ci)) sub
        = (b, Some (SubscribeAclResult res))" "sub_success res \<noteq> None"
    and f: "topic_from_str (sub_topic_filter sub) = Inr f" and t: "mqtt_match f t"
  shows "confined r acl t"
proof -
  let ?F = "split_on (CHR ''/'') (sub_topic_filter sub)"
  have "\<exists>g \<in> set (acl_filters r acl). \<exists>t. acl_topic_try_from g ci = Inr t
      \<and> acl_topic_is_match t (sub_topic_filter sub)"
    using granted subscribe_check_build [OF assms(1,2), of ci sub] by (auto split: if_splits)
  then consider a rest where "?F = a # ur_userid r # rest"
    | p rest where "p \<in> user_prefixes r acl" "?F = split_on (CHR ''/'') p @ rest"
    using acl_filters_match [OF uid pre] by blast
  then show ?thesis
  proof cases
    case 1
    have "level_match f t" using t by (simp add: mqtt_match_def)
    from level_match_second [OF this f 1 uid] show ?thesis by (simp add: confined_def)
  next
    case (2 p rest)
    have "\<forall>q \<in> set (split_on (CHR ''/'') p). q \<noteq> ''+'' \<and> q \<noteq> ''#''"
      using plain_segment(3,4) 2 pre by blast
    moreover have "map level_to_string f = split_on (CHR ''/'') p @ rest"
      using topic_from_str_segments [OF f] 2(2) by simp
    moreover have "level_match f t" using t by (simp add: mqtt_match_def)
    ultimately have "\<exists>us. map level_to_string t = split_on (CHR ''/'') p @ us"
      using level_match_prefix topic_from_str_parsed [OF f] by blast
    then show ?thesis using 2(1) by (auto simp: confined_def)
  qed
qed

end
