(* ===== verification/Msg_Store.thy ===== *)
theory Msg_Store
  imports Redb Rmqtt_Types Ciqada_Config "HOL-Library.AList"
begin

text \<open>
  The persistent message store, \<open>src/msgstore.rs\<close>: an in-memory table of messages with an
  arrival order, an index by topic and a byte count, fed through a channel and flushed to \<open>redb\<close>
  from time to time. Hash maps are association lists with distinct keys and hash sets of
  identifiers are lists, so the order of an iteration, which the code leaves open, is fixed here;
  the theorems speak about sets. A clock value is milliseconds since the epoch.
\<close>

section \<open>Model\<close>

record stored_msg =
  sm_from :: from_info
  sm_publish :: publish
  sm_expiry_at :: int
  sm_delivered_to :: "string list"

definition approx_size :: "stored_msg \<Rightarrow> nat" where
  "approx_size m = length (pub_payload (sm_publish m)) + length (pub_topic (sm_publish m)) + 384"

abbreviation sm_topic :: "stored_msg \<Rightarrow> string" where
  "sm_topic m \<equiv> pub_topic (sm_publish m)"

record mem_state =
  ms_msgs :: "(u64 \<times> stored_msg) list"
  ms_order :: "u64 list"
  ms_by_topic :: "(string \<times> u64 list) list"
  ms_bytes :: nat
  ms_dirty :: "u64 list"
  ms_removed :: "u64 list"

subsection \<open>Eviction\<close>

definition over_cap :: "nat \<Rightarrow> nat \<Rightarrow> mem_state \<Rightarrow> bool" where
  "over_cap max_msgs max_bytes st \<longleftrightarrow>
     (max_msgs > 0 \<and> length (ms_msgs st) > max_msgs) \<or> (max_bytes > 0 \<and> ms_bytes st > max_bytes)"

definition front_expired :: "int \<Rightarrow> u64 \<Rightarrow> mem_state \<Rightarrow> bool" where
  "front_expired now i st =
     (case map_of (ms_msgs st) i of Some m \<Rightarrow> sm_expiry_at m \<le> now | None \<Rightarrow> True)"

definition unindex :: "string \<Rightarrow> u64 \<Rightarrow> (string \<times> u64 list) list \<Rightarrow> (string \<times> u64 list) list" where
  "unindex topic i idx =
     (case map_of idx topic of
        None \<Rightarrow> idx
      | Some ids \<Rightarrow>
          let ids' = removeAll i ids
          in if ids' = [] then AList.delete topic idx else AList.update topic ids' idx)"

text \<open>One round of the loop of \<open>MemState::evict\<close>, once it has decided to drop the front.\<close>

definition evict_front :: "u64 \<Rightarrow> mem_state \<Rightarrow> mem_state" where
  "evict_front i st =
     (let st1 = st\<lparr>ms_order := tl (ms_order st)\<rparr>
      in case map_of (ms_msgs st1) i of
           None \<Rightarrow> st1
         | Some m \<Rightarrow>
             st1\<lparr>ms_msgs := AList.delete i (ms_msgs st1),
                 ms_bytes := saturating_sub (ms_bytes st1) (approx_size m),
                 ms_dirty := removeAll i (ms_dirty st1),
                 ms_removed := List.insert i (ms_removed st1),
                 ms_by_topic := unindex (sm_topic m) i (ms_by_topic st1)\<rparr>)"

lemma ms_order_evict_front [simp]: "ms_order (evict_front i st) = tl (ms_order st)"
  by (simp add: evict_front_def Let_def split: option.splits)

function evict :: "int \<Rightarrow> nat \<Rightarrow> nat \<Rightarrow> mem_state \<Rightarrow> mem_state" where
  "evict now max_msgs max_bytes st =
     (case ms_order st of
        [] \<Rightarrow> st
      | i # _ \<Rightarrow>
          if \<not> over_cap max_msgs max_bytes st \<and> \<not> front_expired now i st then st
          else evict now max_msgs max_bytes (evict_front i st))"
  by pat_completeness auto

termination
  by (relation "measure (\<lambda>(_, _, _, st). length (ms_order st))") auto

declare evict.simps [simp del]

subsection \<open>The receiving task\<close>

definition index_add :: "string \<Rightarrow> u64 \<Rightarrow> (string \<times> u64 list) list \<Rightarrow> (string \<times> u64 list) list" where
  "index_add topic i idx =
     AList.update topic (List.insert i (case map_of idx topic of None \<Rightarrow> [] | Some ids \<Rightarrow> ids)) idx"

text \<open>The body of the loop over the channel before its call of \<open>evict\<close>.\<close>

definition insert_msg :: "u64 \<Rightarrow> stored_msg \<Rightarrow> mem_state \<Rightarrow> mem_state" where
  "insert_msg key m st =
     (let st1 = st\<lparr>ms_removed := removeAll key (ms_removed st),
                   ms_msgs := AList.update key m (ms_msgs st)\<rparr>;
          st2 = (case map_of (ms_msgs st) key of
                   Some old \<Rightarrow>
                     st1\<lparr>ms_bytes := saturating_add (saturating_sub (ms_bytes st1) (approx_size old))
                                       (approx_size m)\<rparr>
                 | None \<Rightarrow>
                     st1\<lparr>ms_order := ms_order st1 @ [key],
                         ms_bytes := saturating_add (ms_bytes st1) (approx_size m)\<rparr>)
      in st2\<lparr>ms_by_topic := index_add (sm_topic m) key (ms_by_topic st2),
             ms_dirty := List.insert key (ms_dirty st2)\<rparr>)"

definition recv_msg :: "int \<Rightarrow> nat \<Rightarrow> nat \<Rightarrow> u64 \<times> stored_msg \<Rightarrow> mem_state \<Rightarrow> mem_state" where
  "recv_msg now max_msgs max_bytes km st =
     evict now max_msgs max_bytes (insert_msg (fst km) (snd km) st)"

subsection \<open>The store\<close>

record 'd msg_store =
  mst_db :: 'd
  mst_node_id :: u64
  mst_counter :: u64
  mst_state :: mem_state
  mst_max_msgs :: nat
  mst_max_bytes :: nat
  mst_queue :: "(u64 \<times> stored_msg) list"

definition counter_mask :: u64 where
  "counter_mask = 0xFFFFFFFFFFFF"

definition messages_table :: string where
  "messages_table = ''messages''"

text \<open>The scan of \<open>open\<close>: the messages that have not expired and the first free counter value.\<close>

fun open_scan ::
    "(bytes \<Rightarrow> stored_msg result) \<Rightarrow> u64 \<Rightarrow> int \<Rightarrow> (u64 \<times> bytes) list
     \<Rightarrow> (u64 \<times> stored_msg) list \<times> u64 \<Rightarrow> (u64 \<times> stored_msg) list \<times> u64" where
  "open_scan dec node now [] acc = acc"
| "open_scan dec node now ((i, v) # items) (msgs, start) =
     (let start' = (if drop_bit 48 i = node
                    then (let c = and i counter_mask + 1 in if c > start then c else start)
                    else start);
          msgs' = (case dec v of
                     Inr m \<Rightarrow> if sm_expiry_at m > now then AList.update i m msgs else msgs
                   | Inl _ \<Rightarrow> msgs)
      in open_scan dec node now items (msgs', start'))"

definition index_all :: "(u64 \<times> stored_msg) list \<Rightarrow> (string \<times> u64 list) list" where
  "index_all msgs = fold (\<lambda>(i, m) idx. index_add (sm_topic m) i idx) msgs []"

definition mem_state_of :: "(u64 \<times> stored_msg) list \<Rightarrow> mem_state" where
  "mem_state_of msgs =
     \<lparr>ms_msgs = msgs,
      ms_order = map snd (sort_key fst (sort_key snd (map (\<lambda>(i, m). (sm_expiry_at m, i)) msgs))),
      ms_by_topic = index_all msgs,
      ms_bytes = sum_list (map (\<lambda>(_, m). approx_size m) msgs),
      ms_dirty = [], ms_removed = []\<rparr>"

definition env_usize :: "env \<Rightarrow> string \<Rightarrow> nat \<Rightarrow> nat" where
  "env_usize env key dflt =
     (case Option.bind (env key) (parse_uint usize_max) of None \<Rightarrow> dflt | Some n \<Rightarrow> n)"

definition store_of_items ::
    "(bytes \<Rightarrow> stored_msg result) \<Rightarrow> env \<Rightarrow> u64 \<Rightarrow> int \<Rightarrow> 'd \<Rightarrow> (u64 \<times> bytes) list \<Rightarrow> 'd msg_store" where
  "store_of_items dec env node now d items =
     (let (msgs, start) = open_scan dec node now items ([], 0)
      in \<lparr>mst_db = d, mst_node_id = node, mst_counter = start, mst_state = mem_state_of msgs,
          mst_max_msgs = env_usize env ''MSG_MAX_MSGS'' 0,
          mst_max_bytes = env_usize env ''MSG_MAX_BYTES'' (256 * 1024 * 1024), mst_queue = []\<rparr>)"

definition msg_store_open ::
    "(u64, 'd) redb \<Rightarrow> (bytes \<Rightarrow> stored_msg result) \<Rightarrow> env \<Rightarrow> u64 \<Rightarrow> int \<Rightarrow> 'd
     \<Rightarrow> 'd \<times> 'd msg_store result" where
  "msg_store_open R dec env node now d =
     (case write_txn R (\<lambda>w. rbind (open_table R messages_table w) (\<lambda>w. Inr (w, ()))) d of
        (d1, Inl e) \<Rightarrow> (d1, Inl e)
      | (d1, Inr _) \<Rightarrow>
          (d1, rbind (begin_read R d1)
            (\<lambda>rd. rbind (open_table R messages_table rd)
              (\<lambda>rd. rbind (tbl_iter R messages_table rd)
                (\<lambda>items. Inr (store_of_items dec env node now d1 items))))))"

definition next_msg_id :: "'d msg_store \<Rightarrow> 'd msg_store \<times> u64" where
  "next_msg_id s =
     (s\<lparr>mst_counter := mst_counter s + 1\<rparr>,
      or (push_bit 48 (mst_node_id s)) (and (mst_counter s) counter_mask))"

text \<open>\<open>store\<close>: the clients that already received the message are an argument that it ignores.\<close>

definition store_msg ::
    "u64 \<Rightarrow> from_info \<Rightarrow> publish \<Rightarrow> nat \<Rightarrow> string list option \<Rightarrow> int \<Rightarrow> 'd msg_store \<Rightarrow> 'd msg_store" where
  "store_msg msg_id frm p expiry_millis sub_client_ids now s =
     (let m = \<lparr>sm_from = frm, sm_publish = p,
               sm_expiry_at = i64_saturating_add now (as_i64 expiry_millis), sm_delivered_to = []\<rparr>
      in s\<lparr>mst_queue := mst_queue s @ [(msg_id, m)]\<rparr>)"

text \<open>One step of the receiving task.\<close>

definition recv_step :: "int \<Rightarrow> 'd msg_store \<Rightarrow> 'd msg_store" where
  "recv_step now s =
     (case mst_queue s of
        [] \<Rightarrow> s
      | km # rest \<Rightarrow>
          s\<lparr>mst_queue := rest,
            mst_state := recv_msg now (mst_max_msgs s) (mst_max_bytes s) km (mst_state s)\<rparr>)"

definition candidates :: "string \<Rightarrow> mem_state \<Rightarrow> u64 list" where
  "candidates filt st =
     (if has_wildcard filt
      then concat (map snd (filter (\<lambda>(t, _). topic_matches t filt) (ms_by_topic st)))
      else (case map_of (ms_by_topic st) filt of Some ids \<Rightarrow> ids | None \<Rightarrow> []))"

definition deliverable :: "string \<Rightarrow> int \<Rightarrow> mem_state \<Rightarrow> u64 \<Rightarrow> bool" where
  "deliverable client now st i =
     (case map_of (ms_msgs st) i of
        None \<Rightarrow> False
      | Some m \<Rightarrow> \<not> (sm_expiry_at m \<le> now \<or> client \<in> set (sm_delivered_to m)))"

definition touch :: "string \<Rightarrow> u64 \<Rightarrow> mem_state \<Rightarrow> mem_state" where
  "touch client i st =
     (let st1 = (case map_of (ms_msgs st) i of
                   Some m \<Rightarrow> st\<lparr>ms_msgs := AList.update i
                     (m\<lparr>sm_delivered_to := List.insert client (sm_delivered_to m)\<rparr>) (ms_msgs st)\<rparr>
                 | None \<Rightarrow> st)
      in st1\<lparr>ms_dirty := List.insert i (ms_dirty st1)\<rparr>)"

definition get_msgs ::
    "string \<Rightarrow> string \<Rightarrow> int \<Rightarrow> 'd msg_store \<Rightarrow> 'd msg_store \<times> (u64 \<times> from_info \<times> publish) list" where
  "get_msgs client filt now s =
     (let st = evict now (mst_max_msgs s) (mst_max_bytes s) (mst_state s);
          touched = filter (deliverable client now st) (candidates filt st);
          out = map (\<lambda>i. let m = the (map_of (ms_msgs st) i) in (i, sm_from m, sm_publish m)) touched
      in (s\<lparr>mst_state := fold (touch client) touched st\<rparr>, out))"

definition msg_count :: "'d msg_store \<Rightarrow> nat" where
  "msg_count s = length (ms_msgs (mst_state s))"

text \<open>
  \<open>flush\<close>: the part under the lock takes what is to be written, the transaction writes it.
\<close>

fun encode_batch ::
    "(stored_msg \<Rightarrow> bytes result) \<Rightarrow> (u64 \<times> stored_msg) list \<Rightarrow> u64 list \<Rightarrow> (u64 \<times> bytes) list" where
  "encode_batch enc msgs [] = []"
| "encode_batch enc msgs (i # is) =
     (case map_of msgs i of
        None \<Rightarrow> encode_batch enc msgs is
      | Some m \<Rightarrow>
          (case enc m of
             Inr b \<Rightarrow> (i, b) # encode_batch enc msgs is
           | Inl _ \<Rightarrow> encode_batch enc msgs is))"

definition flush_drain ::
    "(stored_msg \<Rightarrow> bytes result) \<Rightarrow> int \<Rightarrow> 'd msg_store
     \<Rightarrow> 'd msg_store \<times> (u64 \<times> bytes) list \<times> u64 list" where
  "flush_drain enc now s =
     (let st = evict now (mst_max_msgs s) (mst_max_bytes s) (mst_state s);
          batch = encode_batch enc (ms_msgs st) (ms_dirty st);
          removed = ms_removed st
      in (s\<lparr>mst_state := st\<lparr>ms_dirty := [], ms_removed := []\<rparr>\<rparr>, batch, removed))"

fun remove_loop :: "(u64, 'd) redb \<Rightarrow> u64 list \<Rightarrow> 'd \<Rightarrow> 'd result" where
  "remove_loop R [] w = Inr w"
| "remove_loop R (i # is) w =
     rbind (tbl_remove R messages_table i w) (\<lambda>(w, _). remove_loop R is w)"

fun insert_loop :: "(u64, 'd) redb \<Rightarrow> (u64 \<times> bytes) list \<Rightarrow> 'd \<Rightarrow> 'd result" where
  "insert_loop R [] w = Inr w"
| "insert_loop R ((i, b) # ibs) w =
     rbind (tbl_insert R messages_table i b w) (\<lambda>w. insert_loop R ibs w)"

definition flush_write ::
    "(u64, 'd) redb \<Rightarrow> (u64 \<times> bytes) list \<Rightarrow> u64 list \<Rightarrow> 'd \<Rightarrow> 'd \<times> unit result" where
  "flush_write R batch removed d =
     (if batch = [] \<and> removed = [] then (d, Inr ())
      else write_txn R
        (\<lambda>w. rbind (open_table R messages_table w)
          (\<lambda>w. rbind (remove_loop R removed w)
            (\<lambda>w. rbind (insert_loop R batch w) (\<lambda>w. Inr (w, ()))))) d)"

definition flush ::
    "(u64, 'd) redb \<Rightarrow> (stored_msg \<Rightarrow> bytes result) \<Rightarrow> int \<Rightarrow> 'd msg_store
     \<Rightarrow> 'd msg_store \<times> unit result" where
  "flush R enc now s =
     (let (s1, batch, removed) = flush_drain enc now s;
          (d', res) = flush_write R batch removed (mst_db s1)
      in (s1\<lparr>mst_db := d'\<rparr>, res))"

end
