(* ===== verification/Rmqtt_Trie.thy ===== *)
theory Rmqtt_Trie
  imports Rmqtt_Topic "HOL-Library.AList"
begin

text \<open>
  The subscription tree of \<open>vendor/rmqtt/src/trie.rs\<close>. A node has an ordered set of values, here a
  sorted list, and branches by level, here an association list. The iterator \<open>MatchedIter\<close> is
  modelled by the sequence of items it yields, in its order. The locale \<open>topic_tree\<close> is what a
  router relies on: the tree is a map from filters to values, and a match returns exactly the
  filters that match by the rules of the protocol.
\<close>

section \<open>Model\<close>

datatype 'v node = Node (node_vals: "'v list") (node_branches: "(level \<times> 'v node) list")

definition node_default :: "'v node" where
  "node_default = Node [] []"

fun node_insert :: "topic \<Rightarrow> 'v::linorder \<Rightarrow> 'v node \<Rightarrow> 'v node \<times> bool" where
  "node_insert [] v (Node vs bs) = (Node (insort_insert v vs) bs, v \<notin> set vs)"
| "node_insert (l # ls) v (Node vs bs) =
     (let child = (case map_of bs l of Some n \<Rightarrow> n | None \<Rightarrow> node_default);
          (child', res) = node_insert ls v child
      in (Node vs (AList.update l child' bs), res))"

fun node_is_empty :: "'v node \<Rightarrow> bool" where
  "node_is_empty (Node vs bs) = (vs = [] \<and> bs = [])"

fun node_remove :: "topic \<Rightarrow> 'v::linorder \<Rightarrow> 'v node \<Rightarrow> 'v node \<times> bool" where
  "node_remove [] v (Node vs bs) = (Node (remove1 v vs) bs, v \<in> set vs)"
| "node_remove (l # ls) v (Node vs bs) =
     (case map_of bs l of
        Some x \<Rightarrow>
          let (x', res) = node_remove ls v x
          in (if node_is_empty x' then (Node vs (AList.delete l bs), res)
              else (Node vs (AList.update l x' bs), res))
      | None \<Rightarrow> (Node vs bs, False))"

text \<open>\<open>add_to_items\<close>: an item for a non-empty set of values.\<close>

definition item_of :: "topic \<Rightarrow> 'v list \<Rightarrow> (topic \<times> 'v list) list" where
  "item_of sub_path vs = (if vs = [] then [] else [(sub_path, vs)])"

definition hash_item :: "topic \<Rightarrow> (level \<times> 'v node) list \<Rightarrow> (topic \<times> 'v list) list" where
  "hash_item sub_path bs =
     (case map_of bs MultiWildcard of
        Some b \<Rightarrow> item_of (sub_path @ [MultiWildcard]) (node_vals b)
      | None \<Rightarrow> [])"

text \<open>
  The items that the iterator of a node yields for the rest \<open>path\<close> of the topic, \<open>sub_path\<close> being
  the levels walked so far.
\<close>

fun matched_iter :: "topic \<Rightarrow> topic \<Rightarrow> 'v node \<Rightarrow> (topic \<times> 'v list) list" where
  "matched_iter [] sub_path (Node vs bs) = item_of sub_path vs @ hash_item sub_path bs"
| "matched_iter (p # ps) sub_path (Node vs bs) =
     (if \<not> (sub_path = [] \<and> p \<noteq> Blank \<and> level_is_metadata p
            \<and> (map_of bs MultiWildcard \<noteq> None \<or> map_of bs SingleWildcard \<noteq> None))
      then hash_item sub_path bs
           @ (case map_of bs SingleWildcard of
                Some b \<Rightarrow> matched_iter ps (sub_path @ [SingleWildcard]) b
              | None \<Rightarrow> [])
      else [])
     @ (case map_of bs p of
          Some b \<Rightarrow> matched_iter ps (sub_path @ [p]) b
        | None \<Rightarrow> [])"

definition node_matches :: "topic \<Rightarrow> 'v node \<Rightarrow> (topic \<times> 'v list) list" where
  "node_matches t n = matched_iter t [] n"

definition node_is_match :: "topic \<Rightarrow> 'v node \<Rightarrow> bool" where
  "node_is_match t n = (case node_matches t n of [] \<Rightarrow> False | _ # _ \<Rightarrow> True)"

fun values_size :: "'v node \<Rightarrow> nat" where
  "values_size (Node vs bs) = length vs + sum_list (map (\<lambda>(_, n). values_size n) bs)"

fun nodes_size :: "'v node \<Rightarrow> nat" where
  "nodes_size (Node vs bs) = length bs + sum_list (map (\<lambda>(_, n). nodes_size n) bs)"

section \<open>The tree as a map\<close>

fun values_at :: "topic \<Rightarrow> 'v node \<Rightarrow> 'v list" where
  "values_at [] (Node vs bs) = vs"
| "values_at (l # ls) (Node vs bs) =
     (case map_of bs l of Some n \<Rightarrow> values_at ls n | None \<Rightarrow> [])"

lemma values_at_default [simp]: "values_at f node_default = []"
  by (cases f) (simp_all add: node_default_def)

lemma values_at_empty: "node_is_empty n \<Longrightarrow> values_at f n = []"
  by (cases n; cases f) simp_all

lemma values_at_insert:
  "values_at g (fst (node_insert f v n)) =
     (if g = f then insort_insert v (values_at f n) else values_at g n)
   \<and> snd (node_insert f v n) = (v \<notin> set (values_at f n))"
proof (induction f v n arbitrary: g rule: node_insert.induct)
  case (1 v vs bs)
  then show ?case by (cases g) auto
next
  case (2 l ls v vs bs)
  let ?child = "case map_of bs l of Some n \<Rightarrow> n | None \<Rightarrow> node_default"
  obtain child' res where c: "node_insert ls v ?child = (child', res)" by fastforce
  have IH: "values_at g child' = (if g = ls then insort_insert v (values_at ls ?child) else values_at g ?child)
      \<and> res = (v \<notin> set (values_at ls ?child))" for g
    using 2 [OF refl, of g] c by simp
  have ch: "values_at h ?child = (case map_of bs l of Some n \<Rightarrow> values_at h n | None \<Rightarrow> [])" for h
    by (simp split: option.splits)
  show ?case
  proof (cases g)
    case Nil
    then show ?thesis using IH c ch by (simp add: Let_def)
  next
    case (Cons m ms)
    then show ?thesis
      using IH [of ms] c ch [of ls] ch [of ms] by (auto simp: Let_def AList.update_conv')
  qed
qed

lemma values_at_remove:
  "values_at g (fst (node_remove f v n)) =
     (if g = f then remove1 v (values_at f n) else values_at g n)
   \<and> snd (node_remove f v n) = (v \<in> set (values_at f n))"
proof (induction f v n arbitrary: g rule: node_remove.induct)
  case (1 v vs bs)
  then show ?case by (cases g) auto
next
  case (2 l ls v vs bs)
  show ?case
  proof (cases "map_of bs l")
    case None
    then show ?thesis by (cases g) auto
  next
    case (Some x)
    obtain x' res where c: "node_remove ls v x = (x', res)" by fastforce
    have IH: "values_at g x' = (if g = ls then remove1 v (values_at ls x) else values_at g x)
        \<and> res = (v \<in> set (values_at ls x))" for g
      using 2 [OF Some, of g] c by simp
    have em: "node_is_empty x' \<Longrightarrow> values_at h x' = []" for h by (rule values_at_empty)
    show ?thesis
    proof (cases g)
      case Nil
      then show ?thesis using IH c Some by simp
    next
      case (Cons m ms)
      then show ?thesis
        using IH [of ms] c Some em [of ms]
        by (auto simp: AList.update_conv' AList.delete_conv')
    qed
  qed
qed

text \<open>The values of every node stay an ordered set.\<close>

definition node_sorted :: "'v::linorder node \<Rightarrow> bool" where
  "node_sorted n \<longleftrightarrow> (\<forall>f. sorted (values_at f n) \<and> distinct (values_at f n))"

lemma node_sorted_insert: "node_sorted n \<Longrightarrow> node_sorted (fst (node_insert f v n))"
  by (simp add: node_sorted_def values_at_insert sorted_insort_insert distinct_insort_insert)

lemma node_sorted_remove: "node_sorted n \<Longrightarrow> node_sorted (fst (node_remove f v n))"
  by (simp add: node_sorted_def values_at_remove sorted_remove1)

section \<open>Matching\<close>

text \<open>A filter whose multi-level wildcard, if any, is last.\<close>

definition multi_last :: "topic \<Rightarrow> bool" where
  "multi_last f \<longleftrightarrow> MultiWildcard \<notin> set (butlast f)"

lemma multi_last_Cons: "multi_last (l # ls) \<longleftrightarrow> (ls = [] \<or> l \<noteq> MultiWildcard) \<and> multi_last ls"
  by (auto simp: multi_last_def)

lemma multi_last_Nil [simp]: "multi_last []"
  by (simp add: multi_last_def)

lemma topic_is_valid_multi_last: "topic_is_valid f \<Longrightarrow> multi_last f"
proof (induction f)
  case (Cons l ls)
  then show ?case using multi_only_last topic_is_valid_tl by (auto simp: multi_last_Cons)
qed (simp add: multi_last_def)

text \<open>A topic name: its levels are no wildcards.\<close>

definition topic_name :: "topic \<Rightarrow> bool" where
  "topic_name t \<longleftrightarrow> SingleWildcard \<notin> set t \<and> MultiWildcard \<notin> set t"

lemma hash_item_iff:
  "(f, vs) \<in> set (hash_item sp bs) \<longleftrightarrow>
     f = sp @ [MultiWildcard] \<and> vs = values_at [MultiWildcard] (Node ws bs) \<and> vs \<noteq> []"
proof -
  have "values_at [] b = node_vals b" for b :: "'a node" by (cases b) simp
  then show ?thesis by (auto simp: hash_item_def item_of_def split: option.splits)
qed

text \<open>Below the first level the iterator follows \<open>level_match\<close>.\<close>

lemma matched_iter_below:
  assumes "sp \<noteq> []" and "topic_name t"
  shows "(f, vs) \<in> set (matched_iter t sp n) \<longleftrightarrow>
     (\<exists>g. f = sp @ g \<and> vs = values_at g n \<and> vs \<noteq> [] \<and> multi_last g \<and> level_match g t)"
  using assms
proof (induction t sp n rule: matched_iter.induct)
  case (1 sp vs' bs)
  have "(\<exists>g. f = sp @ g \<and> vs = values_at g (Node vs' bs) \<and> vs \<noteq> [] \<and> multi_last g \<and> level_match g [])
      \<longleftrightarrow> (f = sp \<and> vs = vs' \<and> vs \<noteq> []) \<or> (f = sp @ [MultiWildcard]
           \<and> vs = values_at [MultiWildcard] (Node vs' bs) \<and> vs \<noteq> [])"
    (is "?L \<longleftrightarrow> ?R")
  proof
    assume ?L
    then obtain g where g: "f = sp @ g" "vs = values_at g (Node vs' bs)" "vs \<noteq> []" "multi_last g"
      "level_match g []" by blast
    then show ?R by (cases g) (auto simp: multi_last_Cons split: if_splits)
  next
    assume ?R
    then show ?L
    proof
      assume "f = sp \<and> vs = vs' \<and> vs \<noteq> []"
      then show ?L by (intro exI [of _ "[]"]) (auto simp: multi_last_def)
    next
      assume "f = sp @ [MultiWildcard] \<and> vs = values_at [MultiWildcard] (Node vs' bs) \<and> vs \<noteq> []"
      then show ?L by (intro exI [of _ "[MultiWildcard]"]) (auto simp: multi_last_def)
    qed
  qed
  then show ?case using hash_item_iff [of f vs sp bs vs'] by (auto simp: item_of_def)
next
  case (2 p ps sp vs' bs)
  have sp: "sp \<noteq> []" and ps: "topic_name ps" and p: "p \<noteq> SingleWildcard" "p \<noteq> MultiWildcard"
    using 2(3,4) by (auto simp: topic_name_def)
  have branch: "(f, vs) \<in> set (case map_of bs l of Some b \<Rightarrow> matched_iter ps (sp @ [l]) b | None \<Rightarrow> [])
      \<longleftrightarrow> (\<exists>g. f = sp @ l # g \<and> vs = values_at (l # g) (Node vs' bs) \<and> vs \<noteq> [] \<and> multi_last g
            \<and> level_match g ps)" if "l = SingleWildcard \<or> l = p" for l
    using 2(1,2) sp ps that by (cases "map_of bs l") auto
  have "(f, vs) \<in> set (matched_iter (p # ps) sp (Node vs' bs)) \<longleftrightarrow>
      (f, vs) \<in> set (hash_item sp bs)
      \<or> (f, vs) \<in> set (case map_of bs SingleWildcard of Some b \<Rightarrow> matched_iter ps (sp @ [SingleWildcard]) b | None \<Rightarrow> [])
      \<or> (f, vs) \<in> set (case map_of bs p of Some b \<Rightarrow> matched_iter ps (sp @ [p]) b | None \<Rightarrow> [])"
    using sp by simp
  also have "\<dots> \<longleftrightarrow> (\<exists>g. f = sp @ g \<and> vs = values_at g (Node vs' bs) \<and> vs \<noteq> [] \<and> multi_last g
      \<and> level_match g (p # ps))" (is "?L \<longleftrightarrow> ?R")
  proof
    assume ?L
    then show ?R
      unfolding branch [OF disjI1 [OF refl]] branch [OF disjI2 [OF refl]] hash_item_iff [of f vs sp bs vs']
    proof (elim disjE exE conjE)
      assume "f = sp @ [MultiWildcard]" "vs = values_at [MultiWildcard] (Node vs' bs)" "vs \<noteq> []"
      then show ?R by (intro exI [of _ "[MultiWildcard]"]) (simp add: multi_last_def)
    next
      fix g
      assume "f = sp @ SingleWildcard # g" "vs = values_at (SingleWildcard # g) (Node vs' bs)" "vs \<noteq> []"
        "multi_last g" "level_match g ps"
      then show ?R by (intro exI [of _ "SingleWildcard # g"]) (simp add: multi_last_Cons)
    next
      fix g
      assume "f = sp @ p # g" "vs = values_at (p # g) (Node vs' bs)" "vs \<noteq> []" "multi_last g"
        "level_match g ps"
      then show ?R using p by (intro exI [of _ "p # g"]) (simp add: multi_last_Cons)
    qed
  next
    assume ?R
    then obtain g where g: "f = sp @ g" "vs = values_at g (Node vs' bs)" "vs \<noteq> []" "multi_last g"
      "level_match g (p # ps)" by blast
    then obtain l ls where gl: "g = l # ls" by (cases g) auto
    show ?L
      unfolding branch [OF disjI1 [OF refl]] branch [OF disjI2 [OF refl]] hash_item_iff [of f vs sp bs vs']
      using g gl by (cases "l = MultiWildcard") (auto simp: multi_last_Cons)
  qed
  finally show ?case .
qed

text \<open>
  A match on the whole tree: the filters with values that match the topic by the rules of the
  protocol, each with its values.
\<close>

lemma node_matches_iff:
  assumes "topic_name t" and "t \<noteq> []"
  shows "(f, vs) \<in> set (node_matches t n) \<longleftrightarrow>
     vs = values_at f n \<and> vs \<noteq> [] \<and> f \<noteq> [] \<and> multi_last f \<and> mqtt_match f t"
proof -
  obtain p ps where t: "t = p # ps" using assms(2) by (cases t) auto
  obtain ws bs where n: "n = Node ws bs" by (cases n)
  have ps: "topic_name ps" and p: "p \<noteq> SingleWildcard" "p \<noteq> MultiWildcard"
    using assms(1) t by (auto simp: topic_name_def)
  have branch: "(f, vs) \<in> set (case map_of bs l of Some b \<Rightarrow> matched_iter ps ([] @ [l]) b | None \<Rightarrow> [])
      \<longleftrightarrow> (\<exists>g. f = l # g \<and> vs = values_at f n \<and> vs \<noteq> [] \<and> multi_last g \<and> level_match g ps)" for l
    using matched_iter_below [of "[l]" ps f vs] ps n by (cases "map_of bs l") auto
  have blocked: "(level_is_metadata p \<and> (map_of bs MultiWildcard \<noteq> None \<or> map_of bs SingleWildcard \<noteq> None))
      \<or> \<not> level_is_metadata p \<or> (map_of bs MultiWildcard = None \<and> map_of bs SingleWildcard = None)" by auto
  have hash: "(f, vs) \<in> set (hash_item [] bs) \<longleftrightarrow> f = [MultiWildcard] \<and> vs = values_at f n \<and> vs \<noteq> []"
    using hash_item_iff [of f vs "[]" bs ws] n by auto
  have "(f, vs) \<in> set (node_matches t n) \<longleftrightarrow>
      (\<not> level_is_metadata p \<and> ((f, vs) \<in> set (hash_item [] bs)
        \<or> (f, vs) \<in> set (case map_of bs SingleWildcard of Some b \<Rightarrow> matched_iter ps ([] @ [SingleWildcard]) b | None \<Rightarrow> [])))
      \<or> (f, vs) \<in> set (case map_of bs p of Some b \<Rightarrow> matched_iter ps ([] @ [p]) b | None \<Rightarrow> [])"
    using blocked by (cases p) (auto simp: node_matches_def t n hash_item_def)
  also have "\<dots> \<longleftrightarrow> vs = values_at f n \<and> vs \<noteq> [] \<and> f \<noteq> [] \<and> multi_last f \<and> mqtt_match f t"
    unfolding branch hash
    using p by (cases f)
      (auto simp: mqtt_match_def starts_wild_def starts_metadata_def t multi_last_Cons split: if_splits)
  finally show ?thesis .
qed

lemma node_is_match_iff:
  assumes "topic_name t" and "t \<noteq> []"
  shows "node_is_match t n \<longleftrightarrow> (\<exists>f. values_at f n \<noteq> [] \<and> f \<noteq> [] \<and> multi_last f \<and> mqtt_match f t)"
proof -
  have "node_is_match t n \<longleftrightarrow> (\<exists>f vs. (f, vs) \<in> set (node_matches t n))"
    by (cases "node_matches t n") (auto simp: node_is_match_def)
  then show ?thesis unfolding node_matches_iff [OF assms] by auto
qed

text \<open>The iterator yields every filter at most once.\<close>

lemma matched_iter_prefix: "(f, vs) \<in> set (matched_iter t sp n) \<Longrightarrow> \<exists>g. f = sp @ g"
proof (induction t sp n rule: matched_iter.induct)
  case (1 sp vs' bs)
  then show ?case by (auto simp: item_of_def hash_item_def split: option.splits if_splits)
next
  case (2 p ps sp vs' bs)
  let ?b = "\<lambda>l. case map_of bs l of Some b \<Rightarrow> matched_iter ps (sp @ [l]) b | None \<Rightarrow> []"
  from 2(3) consider "(f, vs) \<in> set (hash_item sp bs)" | "(f, vs) \<in> set (?b p)"
    | "(f, vs) \<in> set (?b SingleWildcard)" "\<not> (sp = [] \<and> p \<noteq> Blank \<and> level_is_metadata p
      \<and> (map_of bs MultiWildcard \<noteq> None \<or> map_of bs SingleWildcard \<noteq> None))"
    by (auto split: if_splits)
  then show ?case
  proof cases
    case 1
    then show ?thesis by (auto simp: item_of_def hash_item_def split: option.splits if_splits)
  next
    case a: 2
    then show ?thesis using 2(2) by (cases "map_of bs p") auto
  next
    case b: 3
    then show ?thesis using 2(1) [OF b(2)] by (cases "map_of bs SingleWildcard") auto
  qed
qed

lemma fst_matched_iter:
  "f \<in> fst ` set (matched_iter t (sp @ [l]) n) \<Longrightarrow> \<exists>g. f = sp @ l # g"
  using matched_iter_prefix [of f _ t "sp @ [l]" n] by fastforce

lemma fst_hash_item: "f \<in> fst ` set (hash_item sp bs) \<Longrightarrow> f = sp @ [MultiWildcard]"
  by (auto simp: item_of_def hash_item_def split: option.splits if_splits)

lemma distinct_hash_item: "distinct (map fst (hash_item sp bs))"
  by (simp add: item_of_def hash_item_def split: option.splits)

lemma disjoint_mono: "A \<subseteq> A' \<Longrightarrow> B \<subseteq> B' \<Longrightarrow> A' \<inter> B' = {} \<Longrightarrow> A \<inter> B = {}"
  by blast

lemma distinct_matched_iter: "topic_name t \<Longrightarrow> distinct (map fst (matched_iter t sp n))"
proof (induction t sp n rule: matched_iter.induct)
  case (1 sp vs bs)
  then show ?case using distinct_hash_item [of sp bs] fst_hash_item [of sp sp bs]
    by (auto simp: item_of_def)
next
  case (2 p ps sp vs bs)
  have ps: "topic_name ps" and p: "p \<noteq> SingleWildcard" "p \<noteq> MultiWildcard"
    using 2(3) by (auto simp: topic_name_def)
  let ?b = "\<lambda>l. case map_of bs l of Some b \<Rightarrow> matched_iter ps (sp @ [l]) b | None \<Rightarrow> []"
  have pre: "f \<in> fst ` set (?b l) \<Longrightarrow> \<exists>g. f = sp @ l # g" for f l
    by (cases "map_of bs l") (auto dest!: fst_matched_iter intro: rev_image_eqI)
  have d: "distinct (map fst (?b p))" using 2(2) ps by (cases "map_of bs p") auto
  show ?case
  proof (cases "sp = [] \<and> p \<noteq> Blank \<and> level_is_metadata p
      \<and> (map_of bs MultiWildcard \<noteq> None \<or> map_of bs SingleWildcard \<noteq> None)")
    case True
    then have "sp = []" by simp
    with True d show ?thesis by (simp only: matched_iter.simps if_not_P simp_thms) simp
  next
    case False
    have s: "distinct (map fst (?b SingleWildcard))"
      using 2(1) [OF False] ps by (cases "map_of bs SingleWildcard") auto
    have sub: "fst ` set (hash_item sp bs) \<subseteq> {sp @ [MultiWildcard]}"
      "fst ` set (?b l) \<subseteq> {f. \<exists>g. f = sp @ l # g}" for l
      using fst_hash_item pre by blast+
    have "fst ` set (hash_item sp bs) \<inter> fst ` set (?b SingleWildcard) = {}"
      by (rule disjoint_mono [OF sub(1) sub(2)]) auto
    moreover have "fst ` set (hash_item sp bs) \<inter> fst ` set (?b p) = {}"
      by (rule disjoint_mono [OF sub(1) sub(2)]) (use p in auto)
    moreover have "fst ` set (?b SingleWildcard) \<inter> fst ` set (?b p) = {}"
      by (rule disjoint_mono [OF sub(2) sub(2)]) (use p in auto)
    ultimately have "distinct (map fst (hash_item sp bs @ ?b SingleWildcard @ ?b p))"
      using d s distinct_hash_item [of sp bs]
      by (simp only: map_append distinct_append set_append set_map) blast
    with False show ?thesis by (simp only: matched_iter.simps not_False_eq_True if_True append_assoc)
  qed
qed

lemma distinct_node_matches: "topic_name t \<Longrightarrow> distinct (map fst (node_matches t n))"
  by (simp add: node_matches_def distinct_matched_iter)

section \<open>The interface of the tree\<close>

text \<open>
  What a router relies on. \<open>synced\<close> says that the tree holds exactly the parsed forms of a set of
  filter strings.
\<close>

definition synced :: "(topic \<Rightarrow> 't \<Rightarrow> bool) \<Rightarrow> 't \<Rightarrow> string set \<Rightarrow> bool" where
  "synced has t keys \<longleftrightarrow>
     (\<forall>f. has f t \<longleftrightarrow> (\<exists>s \<in> keys. topic_from_str s = Inr f))
     \<and> (\<forall>s \<in> keys. \<exists>f. topic_from_str s = Inr f)"

locale topic_tree =
  fixes tree_empty :: 't
    and tree_insert :: "topic \<Rightarrow> 't \<Rightarrow> 't"
    and tree_remove :: "topic \<Rightarrow> 't \<Rightarrow> 't"
    and tree_matched :: "topic \<Rightarrow> 't \<Rightarrow> topic list"
    and has :: "topic \<Rightarrow> 't \<Rightarrow> bool"
    and inv :: "'t \<Rightarrow> bool"
  assumes inv_empty: "inv tree_empty"
    and inv_insert: "inv t \<Longrightarrow> inv (tree_insert f t)"
    and inv_remove: "inv t \<Longrightarrow> inv (tree_remove f t)"
    and has_empty: "\<not> has f tree_empty"
    and has_insert: "inv t \<Longrightarrow> has g (tree_insert f t) \<longleftrightarrow> g = f \<or> has g t"
    and has_remove: "inv t \<Longrightarrow> has g (tree_remove f t) \<longleftrightarrow> g \<noteq> f \<and> has g t"
    and matched_iff: "topic_name n \<Longrightarrow> n \<noteq> [] \<Longrightarrow>
      f \<in> set (tree_matched n t) \<longleftrightarrow> has f t \<and> f \<noteq> [] \<and> multi_last f \<and> mqtt_match f n"
    and matched_distinct: "topic_name n \<Longrightarrow> distinct (tree_matched n t)"
begin

lemma synced_empty: "synced has tree_empty {}"
  by (simp add: synced_def has_empty)

lemma synced_insert:
  assumes "inv t" and "synced has t K" and "topic_from_str s = Inr f"
  shows "synced has (tree_insert f t) (insert s K)"
  using assms(2,3) unfolding synced_def has_insert [OF assms(1)] by (metis insert_iff sum.inject(2))

lemma synced_remove:
  assumes "inv t" and "synced has t K" and "topic_from_str s = Inr f"
  shows "synced has (tree_remove f t) (K - {s})"
proof -
  have u: "s' = s" if "topic_from_str s' = Inr f" for s'
    using topic_from_str_inj [OF that assms(3)] .
  show ?thesis
    using assms(2,3) unfolding synced_def has_remove [OF assms(1)]
    by (metis (no_types) u Diff_iff singletonD singletonI sum.inject(2))
qed

lemma synced_matched:
  assumes "synced has t K" and "topic_from_str name = Inr n" and "topic_name n"
  shows "topic_to_string ` set (tree_matched n t)
     = {s \<in> K. \<exists>f. topic_from_str s = Inr f \<and> mqtt_match f n}"
proof -
  have n: "n \<noteq> []" using topic_from_str_ne assms(2) by blast
  have p: "topic_to_string f = s \<and> f \<noteq> [] \<and> multi_last f" if "topic_from_str s = Inr f" for s f
    using topic_to_string_from_str [OF that] topic_from_str_ne [OF that]
      topic_is_valid_multi_last [of f] that [unfolded topic_from_str_Inr] by simp
  show ?thesis
  proof (intro equalityI subsetI)
    fix s
    assume "s \<in> topic_to_string ` set (tree_matched n t)"
    then obtain f where f: "s = topic_to_string f" "has f t" "mqtt_match f n"
      using matched_iff [OF assms(3) n] by blast
    then obtain s' where "s' \<in> K" "topic_from_str s' = Inr f" using assms(1) by (auto simp: synced_def)
    with f p show "s \<in> {s \<in> K. \<exists>f. topic_from_str s = Inr f \<and> mqtt_match f n}" by blast
  next
    fix s
    assume "s \<in> {s \<in> K. \<exists>f. topic_from_str s = Inr f \<and> mqtt_match f n}"
    then obtain f where f: "s \<in> K" "topic_from_str s = Inr f" "mqtt_match f n" by blast
    then have "has f t" using assms(1) by (auto simp: synced_def)
    with f p matched_iff [OF assms(3) n] show "s \<in> topic_to_string ` set (tree_matched n t)"
      by (metis imageI)
  qed
qed

end

text \<open>The tree of the router has the unit as its only value.\<close>

definition tree_has :: "topic \<Rightarrow> unit node \<Rightarrow> bool" where
  "tree_has f n \<longleftrightarrow> values_at f n \<noteq> []"

definition tree_filters :: "topic \<Rightarrow> unit node \<Rightarrow> topic list" where
  "tree_filters t n = map fst (node_matches t n)"

lemma node_sorted_unit: "node_sorted n \<Longrightarrow> values_at f n = [] \<or> values_at f n = [()]"
proof -
  assume "node_sorted n"
  then have d: "distinct (values_at f n)" by (simp add: node_sorted_def)
  show ?thesis
  proof (cases "values_at f n")
    case (Cons u us)
    then show ?thesis using d by (cases us) auto
  qed simp
qed

interpretation utree: topic_tree node_default "\<lambda>f n. fst (node_insert f () n)"
  "\<lambda>f n. fst (node_remove f () n)" tree_filters tree_has node_sorted
proof
  show "node_sorted (node_default :: unit node)" by (simp add: node_sorted_def)
next
  fix t :: "unit node" and f g :: topic
  assume t: "node_sorted t"
  show "node_sorted (fst (node_insert f () t))" using t by (rule node_sorted_insert)
  show "node_sorted (fst (node_remove f () t))" using t by (rule node_sorted_remove)
  show "tree_has g (fst (node_insert f () t)) \<longleftrightarrow> g = f \<or> tree_has g t"
    using node_sorted_unit [OF t, of f]
    by (auto simp: tree_has_def values_at_insert insort_insert_key_def)
  show "tree_has g (fst (node_remove f () t)) \<longleftrightarrow> g \<noteq> f \<and> tree_has g t"
    using node_sorted_unit [OF t, of f] by (auto simp: tree_has_def values_at_remove)
next
  fix n f :: topic and t :: "unit node"
  show "\<not> tree_has f (node_default :: unit node)" by (simp add: tree_has_def)
  assume n: "topic_name n"
  show "distinct (tree_filters n t)" using distinct_node_matches [OF n] by (simp add: tree_filters_def)
  assume "n \<noteq> []"
  with node_matches_iff [OF n this, of f _ t]
  show "f \<in> set (tree_filters n t) \<longleftrightarrow> tree_has f t \<and> f \<noteq> [] \<and> multi_last f \<and> mqtt_match f n"
    by (force simp: tree_filters_def tree_has_def)
qed

end
