(* ===== verification/Rmqtt_Router.thy ===== *)
theory Rmqtt_Router
  imports Rmqtt_Trie Rmqtt_Types
begin

text \<open>
  The subscription router of the embedded broker, \<open>DefaultRouter\<close> of
  \<open>vendor/rmqtt/src/router.rs\<close>, with the collector of relations of \<open>types.rs\<close> and the choice of a
  member of a shared group of \<open>subscribe.rs\<close>. The router keeps the filters twice, in a topic tree
  and in a table of relations; the invariant says that both agree and every operation keeps it.
  Hash maps are association lists, in some order of iteration. The counters come from another
  crate and are a parameter; whether a client is online and the random numbers are arguments.
\<close>

section \<open>Model\<close>

subsection \<open>Relations\<close>

type_synonym client_rels = "(string \<times> ident \<times> subscription_options) list"

record 'c counter_ops =
  cnt_new :: 'c
  cnt_inc :: "'c \<Rightarrow> 'c"
  cnt_dec :: "'c \<Rightarrow> 'c"

record 'c default_router =
  rtr_topics :: "unit node"
  rtr_topics_count :: 'c
  rtr_relations :: "(string \<times> client_rels) list"
  rtr_relations_count :: 'c

definition router_new :: "'c counter_ops \<Rightarrow> 'c default_router" where
  "router_new K = \<lparr>rtr_topics = node_default, rtr_topics_count = cnt_new K,
                   rtr_relations = [], rtr_relations_count = cnt_new K\<rparr>"

definition router_add ::
    "'c counter_ops \<Rightarrow> string \<Rightarrow> ident \<Rightarrow> subscription_options \<Rightarrow> 'c default_router
     \<Rightarrow> 'c default_router \<times> unit result" where
  "router_add K tf i opts r =
     (case topic_from_str tf of
        Inl e \<Rightarrow> (r, Inl e)
      | Inr topic \<Rightarrow>
          let topics = fst (node_insert topic () (rtr_topics r));
              (rels, tcount) =
                (case map_of (rtr_relations r) tf of
                   Some rels \<Rightarrow> (rels, rtr_topics_count r)
                 | None \<Rightarrow> ([], cnt_inc K (rtr_topics_count r)));
              old = map_of rels (id_client_id i);
              rels' = AList.update (id_client_id i) (i, opts) rels
          in (\<lparr>rtr_topics = topics, rtr_topics_count = tcount,
               rtr_relations = AList.update tf rels' (rtr_relations r),
               rtr_relations_count =
                 (if old = None then cnt_inc K (rtr_relations_count r) else rtr_relations_count r)\<rparr>,
              Inr ()))"

text \<open>
  \<open>remove\<close>: only the client that holds the subscription may take it away; the last one removes
  the filter from the table and from the tree.
\<close>

definition router_remove ::
    "'c counter_ops \<Rightarrow> string \<Rightarrow> ident \<Rightarrow> 'c default_router
     \<Rightarrow> 'c default_router \<times> bool result" where
  "router_remove K tf i r =
     (case map_of (rtr_relations r) tf of
        None \<Rightarrow> (r, Inr False)
      | Some rels \<Rightarrow>
          (case map_of rels (id_client_id i) of
             None \<Rightarrow> (r, Inr False)
           | Some (s_id, _) \<Rightarrow>
               if s_id \<noteq> i then (r, Inr False)
               else
                 let rels' = AList.delete (id_client_id i) rels;
                     r1 = r\<lparr>rtr_relations := AList.update tf rels' (rtr_relations r),
                            rtr_relations_count := cnt_dec K (rtr_relations_count r)\<rparr>
                 in if rels' = [] then
                      let r2 = r1\<lparr>rtr_relations := AList.delete tf (rtr_relations r1),
                                  rtr_topics_count := cnt_dec K (rtr_topics_count r1)\<rparr>
                      in (case topic_from_str tf of
                            Inl e \<Rightarrow> (r2, Inl e)
                          | Inr topic \<Rightarrow>
                              (r2\<lparr>rtr_topics := fst (node_remove topic () (rtr_topics r2))\<rparr>, Inr True))
                    else (r1, Inr True)))"

subsection \<open>Shared subscriptions\<close>

type_synonym group_sub =
  "u64 \<times> string \<times> subscription_options \<times> nat list option \<times> bool option"

text \<open>
  \<open>SharedSubscription::choice\<close>: members are drawn at random until one is online; the last one drawn
  is taken in any case. \<open>rnd k\<close> is the \<open>k\<close>-th random number of the call.
\<close>

fun remove_nth :: "nat \<Rightarrow> 'a list \<Rightarrow> 'a list" where
  "remove_nth n [] = []"
| "remove_nth 0 (x # xs) = xs"
| "remove_nth (Suc n) (x # xs) = x # remove_nth n xs"

lemma length_remove_nth: "n < length xs \<Longrightarrow> length (remove_nth n xs) = length xs - 1"
  by (induction n xs rule: remove_nth.induct) auto

function choice_loop ::
    "(u64 \<Rightarrow> string \<Rightarrow> bool) \<Rightarrow> (nat \<Rightarrow> nat) \<Rightarrow> nat
     \<Rightarrow> (nat \<times> u64 \<times> string \<times> bool option) list \<Rightarrow> (nat \<times> bool) option" where
  "choice_loop online rnd k tmp =
     (if tmp = [] then None
      else
        let r_idx = (if length tmp = 1 then 0 else rnd k mod length tmp);
            (idx, node_id, client_id, is_online) = tmp ! r_idx;
            rest = remove_nth r_idx tmp;
            on = (case is_online of Some b \<Rightarrow> b | None \<Rightarrow> online node_id client_id)
        in if on then Some (idx, True)
           else if rest = [] then Some (idx, on)
           else choice_loop online rnd (k + 1) rest)"
  by pat_completeness auto

termination
  by (relation "measure (\<lambda>(_, _, _, tmp). length tmp)") (auto simp: length_remove_nth)

declare choice_loop.simps [simp del]

definition choice ::
    "(u64 \<Rightarrow> string \<Rightarrow> bool) \<Rightarrow> (nat \<Rightarrow> nat) \<Rightarrow> group_sub list \<Rightarrow> (nat \<times> bool) option" where
  "choice online rnd ncs =
     (if ncs = [] then None
      else choice_loop online rnd 0
             (map (\<lambda>(idx, node_id, client_id, _, _, on). (idx, node_id, client_id, on))
               (enumerate 0 ncs)))"

subsection \<open>Collecting\<close>

type_synonym shared_group_type = "string \<times> bool \<times> string list"

type_synonym sub_relation =
  "string \<times> string \<times> subscription_options \<times> nat list option \<times> shared_group_type option"

record collector =
  col_v3_rels :: "sub_relation list"
  col_v5_rels :: "(string \<times> string \<times> subscription_options \<times> nat list option
                    \<times> shared_group_type option) list"

definition collector_default :: collector where
  "collector_default = \<lparr>col_v3_rels = [], col_v5_rels = []\<rparr>"

definition push_sub_id :: "nat option \<Rightarrow> nat list option \<Rightarrow> nat list option" where
  "push_sub_id new ids =
     (case new of
        None \<Rightarrow> ids
      | Some i \<Rightarrow> (case ids of Some is \<Rightarrow> Some (is @ [i]) | None \<Rightarrow> Some [i]))"

definition collector_add ::
    "string \<Rightarrow> string \<Rightarrow> subscription_options \<Rightarrow> shared_group_type option
     \<Rightarrow> collector \<Rightarrow> collector" where
  "collector_add tf cid opts grp c =
     (if opts_is_v3 opts then
        c\<lparr>col_v3_rels := col_v3_rels c @ [(tf, cid, opts, None, grp)]\<rparr>
      else
        c\<lparr>col_v5_rels := AList.update cid
            (case map_of (col_v5_rels c) cid of
               Some (tf0, opts0, ids, g0) \<Rightarrow>
                 (tf0, opts0, push_sub_id (opts_subscription_identifier opts) ids, g0)
             | None \<Rightarrow>
                 (tf, opts, map_option (\<lambda>i. [i]) (opts_subscription_identifier opts), grp))
            (col_v5_rels c)\<rparr>)"

definition collector_into :: "collector \<Rightarrow> sub_relation list" where
  "collector_into c =
     col_v3_rels c @ map (\<lambda>(cid, tf, opts, ids, g). (tf, cid, opts, ids, g)) (col_v5_rels c)"

type_synonym collector_map = "(u64 \<times> collector) list"

text \<open>\<open>collector_map.entry(node_id).or_default().add(..)\<close>.\<close>

definition collect ::
    "u64 \<Rightarrow> string \<Rightarrow> string \<Rightarrow> subscription_options \<Rightarrow> shared_group_type option
     \<Rightarrow> collector_map \<Rightarrow> collector_map" where
  "collect node_id tf cid opts grp cm =
     AList.update node_id
       (collector_add tf cid opts grp
         (case map_of cm node_id of Some c \<Rightarrow> c | None \<Rightarrow> collector_default)) cm"

subsection \<open>Matching\<close>

definition group_push ::
    "string \<Rightarrow> group_sub \<Rightarrow> (string \<times> group_sub list) list \<Rightarrow> (string \<times> group_sub list) list" where
  "group_push g s groups =
     AList.update g ((case map_of groups g of Some ss \<Rightarrow> ss | None \<Rightarrow> []) @ [s]) groups"

fun scan_rels ::
    "(u64 \<Rightarrow> string \<Rightarrow> bool) \<Rightarrow> ident \<Rightarrow> string \<Rightarrow> client_rels
     \<Rightarrow> (string \<times> group_sub list) list \<Rightarrow> collector_map
     \<Rightarrow> (string \<times> group_sub list) list \<times> collector_map" where
  "scan_rels online this_id tf [] groups cm = (groups, cm)"
| "scan_rels online this_id tf ((client_id, i, opts) # rels) groups cm =
     (if opts_no_local opts = Some True \<and> this_id = i
      then scan_rels online this_id tf rels groups cm
      else case opts_shared_group opts of
        Some grp \<Rightarrow>
          scan_rels online this_id tf rels
            (group_push grp
               (id_node_id i, client_id, opts, None, Some (online (id_node_id i) client_id)) groups) cm
      | None \<Rightarrow>
          scan_rels online this_id tf rels groups (collect (id_node_id i) tf client_id opts None cm))"

fun scan_groups ::
    "(u64 \<Rightarrow> string \<Rightarrow> bool) \<Rightarrow> (string \<Rightarrow> nat \<Rightarrow> nat) \<Rightarrow> string
     \<Rightarrow> (string \<times> group_sub list) list \<Rightarrow> collector_map \<Rightarrow> collector_map" where
  "scan_groups online rnd tf [] cm = cm"
| "scan_groups online rnd tf ((grp, s_subs) # groups) cm =
     (let group_cids = map (\<lambda>(_, cid, _, _, _). cid) s_subs
      in case choice online (rnd grp) s_subs of
           Some (idx, is_online) \<Rightarrow>
             let (node_id, client_id, opts, _, _) = s_subs ! idx
             in scan_groups online rnd tf groups
                  (collect node_id tf client_id opts (Some (grp, is_online, group_cids)) cm)
         | None \<Rightarrow> scan_groups online rnd tf groups cm)"

definition match_filter ::
    "(u64 \<Rightarrow> string \<Rightarrow> bool) \<Rightarrow> (string \<Rightarrow> string \<Rightarrow> nat \<Rightarrow> nat) \<Rightarrow> ident
     \<Rightarrow> (string \<times> client_rels) list \<Rightarrow> string \<Rightarrow> collector_map \<Rightarrow> collector_map" where
  "match_filter online rnd this_id relations tf cm =
     (let (groups, cm1) =
        (case map_of relations tf of
           Some rels \<Rightarrow> scan_rels online this_id tf rels [] cm
         | None \<Rightarrow> ([], cm))
      in scan_groups online (rnd tf) tf groups cm1)"

definition router_matches ::
    "(u64 \<Rightarrow> string \<Rightarrow> bool) \<Rightarrow> (string \<Rightarrow> string \<Rightarrow> nat \<Rightarrow> nat) \<Rightarrow> ident \<Rightarrow> string
     \<Rightarrow> 'c default_router \<Rightarrow> (u64 \<times> sub_relation list) list result" where
  "router_matches online rnd this_id tname r =
     rbind (topic_from_str tname)
       (\<lambda>topic. Inr (map (\<lambda>(node_id, c). (node_id, collector_into c))
          (fold (\<lambda>(f, _). match_filter online rnd this_id (rtr_relations r) (topic_to_string f))
             (node_matches topic (rtr_topics r)) [])))"

subsection \<open>Queries\<close>

record topic_route =
  tr_node_id :: u64
  tr_topic :: string

text \<open>\<open>Itertools::unique\<close> keeps the first of equal elements.\<close>

definition unique :: "'a list \<Rightarrow> 'a list" where
  "unique xs = rev (remdups (rev xs))"

definition has_matches :: "string \<Rightarrow> 'c default_router \<Rightarrow> bool result" where
  "has_matches topic r = rbind (topic_from_str topic) (\<lambda>t. Inr (node_is_match t (rtr_topics r)))"

definition router_get :: "string \<Rightarrow> 'c default_router \<Rightarrow> topic_route list result" where
  "router_get topic r =
     rbind (topic_from_str topic)
       (\<lambda>t. Inr (concat (map
          (\<lambda>(f, _). (case map_of (rtr_relations r) (topic_to_string f) of
                       Some rels \<Rightarrow>
                         map (\<lambda>n. \<lparr>tr_node_id = n, tr_topic = topic_to_string f\<rparr>)
                           (unique (map (\<lambda>(_, i, _). id_node_id i) rels))
                     | None \<Rightarrow> []))
          (unique (node_matches t (rtr_topics r))))))"

definition router_gets :: "nat \<Rightarrow> 'c default_router \<Rightarrow> topic_route list" where
  "router_gets limit r =
     take limit (concat (map
       (\<lambda>(tf, rels). map (\<lambda>(n, f). \<lparr>tr_node_id = n, tr_topic = f\<rparr>)
          (unique (map (\<lambda>(_, i, _). (id_node_id i, tf)) rels)))
       (rtr_relations r)))"

record subs_search_params =
  q_limit :: nat
  q_clientid :: "string option"
  q_topic :: "string option"
  q_qos :: "nat option"
  q_share :: "string option"
  q_match_topic :: "string option"

record subs_search_result =
  ssr_node_id :: u64
  ssr_clientid :: string
  ssr_client_addr :: "string option"
  ssr_topic :: string
  ssr_opts :: subscription_options

definition query_filter :: "subs_search_params \<Rightarrow> string \<Rightarrow> subscription_options \<Rightarrow> bool" where
  "query_filter q client_id opts \<longleftrightarrow>
     (case q_clientid q of Some c \<Rightarrow> c = client_id | None \<Rightarrow> True)
     \<and> (case q_qos q of Some n \<Rightarrow> n = qos_value (opts_qos opts) | None \<Rightarrow> True)
     \<and> (case q_share q of
          Some g \<Rightarrow> (case opts_shared_group opts of Some g' \<Rightarrow> g = g' | None \<Rightarrow> False)
        | None \<Rightarrow> True)"

definition query_rels :: "subs_search_params \<Rightarrow> string \<Rightarrow> client_rels \<Rightarrow> subs_search_result list" where
  "query_rels q tf rels =
     map (\<lambda>(cid, i, opts). \<lparr>ssr_node_id = id_node_id i, ssr_clientid = cid,
            ssr_client_addr = id_remote_addr i, ssr_topic = tf, ssr_opts = opts\<rparr>)
       (filter (\<lambda>(cid, _, opts). query_filter q cid opts) rels)"

definition query_subscriptions ::
    "subs_search_params \<Rightarrow> 'c default_router \<Rightarrow> subs_search_result list" where
  "query_subscriptions q r =
     (let look = (\<lambda>tf. case map_of (rtr_relations r) tf of Some rels \<Rightarrow> query_rels q tf rels | None \<Rightarrow> [])
      in case q_topic q of
           Some topic \<Rightarrow> take (q_limit q) (look topic)
         | None \<Rightarrow>
             (case q_match_topic q of
                Some mt \<Rightarrow>
                  (case topic_from_str mt of
                     Inl e \<Rightarrow> []
                   | Inr t \<Rightarrow> take (q_limit q)
                       (concat (map (\<lambda>(f, _). look (topic_to_string f))
                          (unique (node_matches t (rtr_topics r))))))
              | None \<Rightarrow>
                  take (q_limit q) (concat (map (\<lambda>(tf, rels). query_rels q tf rels) (rtr_relations r)))))"

section \<open>The invariant\<close>

definition rels_ok :: "string \<times> client_rels \<Rightarrow> bool" where
  "rels_ok = (\<lambda>(tf, rels). rels \<noteq> [] \<and> distinct (map fst rels)
     \<and> (\<forall>(cid, i, _) \<in> set rels. id_client_id i = cid))"

definition router_inv :: "'c default_router \<Rightarrow> bool" where
  "router_inv r \<longleftrightarrow>
     node_sorted (rtr_topics r)
     \<and> synced tree_has (rtr_topics r) (fst ` set (rtr_relations r))
     \<and> distinct (map fst (rtr_relations r))
     \<and> (\<forall>e \<in> set (rtr_relations r). rels_ok e)"

text \<open>The subscription of a client under a filter.\<close>

definition subscription :: "'c default_router \<Rightarrow> string \<Rightarrow> string \<Rightarrow> (ident \<times> subscription_options) option" where
  "subscription r tf cid = Option.bind (map_of (rtr_relations r) tf) (\<lambda>rels. map_of rels cid)"

lemma router_inv_new: "router_inv (router_new K)"
  using utree.synced_empty utree.inv_empty by (simp add: router_inv_def router_new_def)

lemma set_update_alist:
  "distinct (map fst al) \<Longrightarrow> e \<in> set (AList.update k v al) \<Longrightarrow> e = (k, v) \<or> e \<in> set al"
  by (induction al) (auto split: if_splits)

lemma set_delete_alist: "e \<in> set (AList.delete k al) \<Longrightarrow> e \<in> set al"
  by (auto simp: AList.delete_eq)

lemma rels_ok_update:
  assumes "rels = [] \<or> rels_ok (tf, rels)" and "id_client_id i = cid"
  shows "rels_ok (tf, AList.update cid (i, opts) rels)"
proof -
  have d: "distinct (map fst rels)" using assms(1) by (auto simp: rels_ok_def)
  have "AList.update cid (i, opts) rels \<noteq> []" by (cases rels) auto
  moreover have "id_client_id j = c" if "(c, j, o') \<in> set (AList.update cid (i, opts) rels)" for c j o'
    using set_update_alist [OF d that] assms by (auto simp: rels_ok_def)
  ultimately show ?thesis using distinct_update [OF d] by (auto simp: rels_ok_def)
qed

lemma router_add_simps:
  assumes "topic_from_str tf = Inr f"
  shows "rtr_topics (fst (router_add K tf i opts r)) = fst (node_insert f () (rtr_topics r))"
    and "rtr_relations (fst (router_add K tf i opts r)) = AList.update tf
       (AList.update (id_client_id i) (i, opts)
         (case map_of (rtr_relations r) tf of Some rels \<Rightarrow> rels | None \<Rightarrow> [])) (rtr_relations r)"
    and "snd (router_add K tf i opts r) = Inr ()"
  using assms by (simp_all add: router_add_def Let_def split: option.splits)

lemma router_add_inv:
  assumes "router_inv r"
  shows "router_inv (fst (router_add K tf i opts r))"
proof (cases "topic_from_str tf")
  case (Inl e)
  then show ?thesis using assms by (simp add: router_add_def)
next
  case (Inr f)
  let ?rels = "case map_of (rtr_relations r) tf of Some rels \<Rightarrow> rels | None \<Rightarrow> []"
  note inv = assms [unfolded router_inv_def]
  have d: "distinct (map fst (rtr_relations r))" using inv by blast
  have "?rels = [] \<or> rels_ok (tf, ?rels)"
    using inv by (cases "map_of (rtr_relations r) tf") (auto dest: map_of_SomeD)
  then have ok: "rels_ok (tf, AList.update (id_client_id i) (i, opts) ?rels)"
    by (rule rels_ok_update) simp
  have keys: "fst ` set (AList.update tf v (rtr_relations r)) = insert tf (fst ` set (rtr_relations r))" for v
    using dom_update [of tf v "rtr_relations r"] by (simp add: dom_map_of_conv_image_fst)
  show ?thesis
    unfolding router_inv_def router_add_simps [OF Inr] keys
    using inv ok utree.inv_insert [of "rtr_topics r" f] utree.synced_insert [OF _ _ Inr]
      distinct_update [OF d] set_update_alist [OF d] by blast
qed

lemma subscription_add:
  assumes "topic_from_str tf = Inr f"
  shows "subscription (fst (router_add K tf i opts r)) g c =
     (if g = tf \<and> c = id_client_id i then Some (i, opts) else subscription r g c)"
  by (auto simp: subscription_def router_add_simps [OF assms] AList.update_conv' split: option.splits)

lemma router_remove_other:
  assumes "\<nexists>opts. subscription r tf (id_client_id i) = Some (i, opts)"
  shows "router_remove K tf i r = (r, Inr False)"
  using assms by (auto simp: router_remove_def subscription_def split: option.splits)

lemma rels_ok_delete:
  assumes "rels_ok (tf, rels)" and "AList.delete cid rels \<noteq> []"
  shows "rels_ok (tf, AList.delete cid rels)"
  using assms distinct_delete [of rels cid] by (auto simp: rels_ok_def dest: set_delete_alist)

lemma router_inv_parses:
  assumes "router_inv r" and "map_of (rtr_relations r) tf = Some rels"
  shows "\<exists>f. topic_from_str tf = Inr f" and "rels_ok (tf, rels)"
  using assms map_of_SomeD [OF assms(2)]
  by (auto simp: router_inv_def synced_def intro: rev_image_eqI)

lemma router_remove_eq:
  assumes "map_of (rtr_relations r) tf = Some rels" and "map_of rels (id_client_id i) = Some (i, opts)"
    and "topic_from_str tf = Inr f"
  shows "router_remove K tf i r =
     (let rels' = AList.delete (id_client_id i) rels in
      if rels' = [] then
        (r\<lparr>rtr_topics := fst (node_remove f () (rtr_topics r)),
           rtr_topics_count := cnt_dec K (rtr_topics_count r),
           rtr_relations := AList.delete tf (AList.update tf rels' (rtr_relations r)),
           rtr_relations_count := cnt_dec K (rtr_relations_count r)\<rparr>, Inr True)
      else
        (r\<lparr>rtr_relations := AList.update tf rels' (rtr_relations r),
           rtr_relations_count := cnt_dec K (rtr_relations_count r)\<rparr>, Inr True))"
  using assms by (simp add: router_remove_def Let_def)

lemma router_remove_inv:
  assumes "router_inv r"
  shows "router_inv (fst (router_remove K tf i r))"
proof (cases "\<exists>opts. subscription r tf (id_client_id i) = Some (i, opts)")
  case False
  then show ?thesis using assms router_remove_other by (metis fst_conv)
next
  case True
  then obtain rels opts where m: "map_of (rtr_relations r) tf = Some rels"
    "map_of rels (id_client_id i) = Some (i, opts)"
    by (auto simp: subscription_def bind_eq_Some_conv)
  obtain f where f: "topic_from_str tf = Inr f" using router_inv_parses [OF assms m(1)] by blast
  note inv = assms [unfolded router_inv_def]
  have d: "distinct (map fst (rtr_relations r))" using inv by blast
  let ?rels' = "AList.delete (id_client_id i) rels"
  let ?upd = "AList.update tf ?rels' (rtr_relations r)"
  have keys: "fst ` set ?upd = fst ` set (rtr_relations r)"
    using dom_update [of tf ?rels' "rtr_relations r"] map_of_SomeD [OF m(1)]
    by (auto simp: dom_map_of_conv_image_fst insert_absorb intro: rev_image_eqI)
  have du: "distinct (map fst ?upd)" using distinct_update [OF d] .
  show ?thesis
  proof (cases "?rels' = []")
    case True
    have del: "fst ` set (AList.delete tf ?upd) = fst ` set (rtr_relations r) - {tf}"
      using arg_cong [OF delete_keys [of tf ?upd], of set] keys by simp
    have old: "e \<in> set (rtr_relations r)" if "e \<in> set (AList.delete tf ?upd)" for e
      using that set_update_alist [OF d, of e tf ?rels'] by (auto simp: AList.delete_eq)
    show ?thesis
      unfolding router_remove_eq [OF m f] Let_def
      using True inv del old utree.inv_remove [of "rtr_topics r" f] utree.synced_remove [OF _ _ f]
        distinct_delete [OF du]
      by (simp add: router_inv_def)
  next
    case False
    have "rels_ok (tf, ?rels')" using rels_ok_delete [OF router_inv_parses(2) [OF assms m(1)] False] .
    then have "rels_ok e" if "e \<in> set ?upd" for e
      using set_update_alist [OF d that] inv by blast
    then show ?thesis
      unfolding router_remove_eq [OF m f] Let_def
      using False inv keys du by (simp add: router_inv_def)
  qed
qed

lemma router_remove_owner:
  assumes "router_inv r" and "subscription r tf (id_client_id i) = Some (i, opts)"
  shows "snd (router_remove K tf i r) = Inr True"
    and "subscription (fst (router_remove K tf i r)) g c =
      (if g = tf \<and> c = id_client_id i then None else subscription r g c)"
proof -
  obtain rels where m: "map_of (rtr_relations r) tf = Some rels"
    "map_of rels (id_client_id i) = Some (i, opts)"
    using assms(2) by (auto simp: subscription_def bind_eq_Some_conv)
  obtain f where f: "topic_from_str tf = Inr f" using router_inv_parses [OF assms(1) m(1)] by blast
  show "snd (router_remove K tf i r) = Inr True"
    unfolding router_remove_eq [OF m f] by (simp add: Let_def)
  have gone: "map_of rels c = None" if "AList.delete (id_client_id i) rels = []" "c \<noteq> id_client_id i" for c
    using that delete_conv' [of "id_client_id i" rels] by (metis fun_upd_other map_of.simps(1))
  show "subscription (fst (router_remove K tf i r)) g c =
      (if g = tf \<and> c = id_client_id i then None else subscription r g c)"
    unfolding router_remove_eq [OF m f] Let_def
    using m(1) gone by (auto simp: subscription_def AList.update_conv' delete_conv')
qed

section \<open>The choice of a group member\<close>

lemma remove_nth_set: "x \<in> set xs \<Longrightarrow> n < length xs \<Longrightarrow> x = xs ! n \<or> x \<in> set (remove_nth n xs)"
  by (induction n xs rule: remove_nth.induct) auto

lemma set_remove_nth: "set (remove_nth n xs) \<subseteq> set xs"
  by (induction n xs rule: remove_nth.induct) auto

definition member_online :: "(u64 \<Rightarrow> string \<Rightarrow> bool) \<Rightarrow> nat \<times> u64 \<times> string \<times> bool option \<Rightarrow> bool" where
  "member_online online = (\<lambda>(_, n, c, on). case on of Some b \<Rightarrow> b | None \<Rightarrow> online n c)"

lemma choice_loop_result:
  assumes "tmp \<noteq> []"
  shows "\<exists>e \<in> set tmp. choice_loop online rnd k tmp = Some (fst e, member_online online e)
     \<and> (member_online online e \<longleftrightarrow> (\<exists>e' \<in> set tmp. member_online online e'))"
  using assms
proof (induction online rnd k tmp rule: choice_loop.induct)
  case (1 online rnd k tmp)
  define ri where "ri = (if length tmp = 1 then 0 else rnd k mod length tmp)"
  have ri: "ri < length tmp" using 1(2) by (simp add: ri_def)
  obtain idx n c on where e: "tmp ! ri = (idx, n, c, on)" by (metis prod_cases4)
  have mem: "(idx, n, c, on) \<in> set tmp" using nth_mem [OF ri] e by simp
  let ?on = "member_online online (idx, n, c, on)"
  have on: "?on = (case on of Some b \<Rightarrow> b | None \<Rightarrow> online n c)" by (simp add: member_online_def)
  have step: "choice_loop online rnd k tmp =
      (if ?on then Some (idx, True) else if remove_nth ri tmp = [] then Some (idx, ?on)
       else choice_loop online rnd (k + 1) (remove_nth ri tmp))"
    using 1(2) e unfolding on by (simp add: choice_loop.simps [of online rnd k tmp] Let_def ri_def)
  show ?case
  proof (cases "?on \<or> remove_nth ri tmp = []")
    case True
    have "\<exists>e' \<in> set tmp. member_online online e' \<Longrightarrow> ?on"
      using True remove_nth_set [OF _ ri] e by fastforce
    then show ?thesis using step True mem by (intro bexI [OF _ mem]) auto
  next
    case False
    then have "choice_loop online rnd k tmp = choice_loop online rnd (k + 1) (remove_nth ri tmp)"
      using step by simp
    moreover have "\<exists>e \<in> set (remove_nth ri tmp).
        choice_loop online rnd (k + 1) (remove_nth ri tmp) = Some (fst e, member_online online e)
        \<and> (member_online online e \<longleftrightarrow> (\<exists>e' \<in> set (remove_nth ri tmp). member_online online e'))"
      by (rule 1(1) [OF 1(2) ri_def e [symmetric] refl refl refl refl]) (use False on in auto)
    then obtain e' where e': "e' \<in> set (remove_nth ri tmp)"
      "choice_loop online rnd (k + 1) (remove_nth ri tmp) = Some (fst e', member_online online e')"
      "member_online online e' \<longleftrightarrow> (\<exists>d \<in> set (remove_nth ri tmp). member_online online d)"
      by blast
    moreover have "(\<exists>d \<in> set tmp. member_online online d)
        \<longleftrightarrow> (\<exists>d \<in> set (remove_nth ri tmp). member_online online d)"
      using False remove_nth_set [OF _ ri] e set_remove_nth [of ri tmp] by fastforce
    ultimately show ?thesis using set_remove_nth [of ri tmp] by auto
  qed
qed

lemma choice_result:
  assumes "ncs \<noteq> []"
  shows "\<exists>idx on. choice online rnd ncs = Some (idx, on) \<and> idx < length ncs"
proof -
  let ?tmp = "map (\<lambda>(idx, node_id, client_id, _, _, on). (idx, node_id, client_id, on)) (enumerate 0 ncs)"
  have "?tmp \<noteq> []" using assms by (cases ncs) simp_all
  from choice_loop_result [OF this, of online rnd 0] show ?thesis
    using assms by (auto simp: choice_def in_set_enumerate_eq split: prod.splits)
qed

section \<open>What the collector holds\<close>

definition cm_entry ::
    "collector_map \<Rightarrow> u64 \<Rightarrow> string \<times> string \<times> subscription_options \<times> shared_group_type option \<Rightarrow> bool" where
  "cm_entry cm n e \<longleftrightarrow>
     (\<exists>c ids. map_of cm n = Some c
        \<and> (case e of (tf, cid, opts, g) \<Rightarrow> (tf, cid, opts, ids, g) \<in> set (collector_into c)))"

definition cm_client :: "collector_map \<Rightarrow> u64 \<Rightarrow> string \<Rightarrow> bool" where
  "cm_client cm n cid \<longleftrightarrow> (\<exists>tf opts g. cm_entry cm n (tf, cid, opts, g))"

text \<open>The v5 part has one entry per client.\<close>

definition cm_ok :: "collector_map \<Rightarrow> bool" where
  "cm_ok cm \<longleftrightarrow> (\<forall>c \<in> ran (map_of cm). distinct (map fst (col_v5_rels c)))"

lemma v5_entry_map_of:
  "distinct (map fst al) \<Longrightarrow>
   (tf, cid, opts, ids, g) \<in> set (map (\<lambda>(cid, tf, opts, ids, g). (tf, cid, opts, ids, g)) al)
   \<longleftrightarrow> map_of al cid = Some (tf, opts, ids, g)"
  by (force simp: map_of_eq_Some_iff)

lemma collector_entry:
  assumes "distinct (map fst (col_v5_rels c))"
  shows "(tf, cid, opts, ids, g) \<in> set (collector_into c) \<longleftrightarrow>
     (tf, cid, opts, ids, g) \<in> set (col_v3_rels c) \<or> map_of (col_v5_rels c) cid = Some (tf, opts, ids, g)"
  using v5_entry_map_of [OF assms] by (simp add: collector_into_def)

lemma collector_add_ok:
  "distinct (map fst (col_v5_rels c)) \<Longrightarrow> distinct (map fst (col_v5_rels (collector_add tf cid opts g c)))"
  by (simp add: collector_add_def distinct_update)

text \<open>
  Adding keeps what is there, up to the list of subscription identifiers, adds at most the new
  relation, and has the client afterwards.
\<close>

lemma collector_add_entries:
  assumes d: "distinct (map fst (col_v5_rels c))"
  shows "(tf', cid', opts', ids, g') \<in> set (collector_into c) \<Longrightarrow>
      \<exists>ids'. (tf', cid', opts', ids', g') \<in> set (collector_into (collector_add tf cid opts g c))"
    and "(tf', cid', opts', ids, g') \<in> set (collector_into (collector_add tf cid opts g c)) \<Longrightarrow>
      (tf', cid', opts', g') = (tf, cid, opts, g)
      \<or> (\<exists>ids'. (tf', cid', opts', ids', g') \<in> set (collector_into c))"
    and "\<exists>tf' opts' ids' g'. (tf', cid, opts', ids', g') \<in> set (collector_into (collector_add tf cid opts g c))"
  unfolding collector_entry [OF d] collector_entry [OF collector_add_ok [OF d]]
  by (auto simp: collector_add_def AList.update_conv' split: if_splits option.splits prod.splits)

lemma cm_ok_collector:
  assumes "cm_ok cm"
  shows "distinct (map fst (col_v5_rels
     (case map_of cm n of Some c \<Rightarrow> c | None \<Rightarrow> collector_default)))"
  using assms by (auto simp: cm_ok_def collector_default_def ran_def split: option.splits)

lemma cm_ok_collect: "cm_ok cm \<Longrightarrow> cm_ok (collect n tf cid opts g cm)"
  using collector_add_ok [OF cm_ok_collector [of cm n]]
  by (auto simp: cm_ok_def collect_def AList.update_conv' ran_def)

lemma collect_mono: "cm_ok cm \<Longrightarrow> cm_entry cm n' e \<Longrightarrow> cm_entry (collect n tf cid opts g cm) n' e"
  using collector_add_entries(1) [OF cm_ok_collector [of cm n]]
  by (fastforce simp: cm_entry_def collect_def AList.update_conv')

lemma collector_into_default [simp]: "collector_into collector_default = []"
  by (simp add: collector_into_def collector_default_def)

lemma collect_sound:
  assumes "cm_ok cm" and "cm_entry (collect n tf cid opts g cm) n' e"
  shows "cm_entry cm n' e \<or> (n' = n \<and> e = (tf, cid, opts, g))"
proof (cases "n' = n")
  case False
  then show ?thesis using assms(2) by (simp add: cm_entry_def collect_def AList.update_conv')
next
  case True
  obtain tf' cid' opts' g' where e: "e = (tf', cid', opts', g')" by (metis prod_cases4)
  let ?c = "case map_of cm n of Some c \<Rightarrow> c | None \<Rightarrow> collector_default"
  have "\<exists>ids. (tf', cid', opts', ids, g') \<in> set (collector_into (collector_add tf cid opts g ?c))"
    using assms(2) True e by (auto simp: cm_entry_def collect_def AList.update_conv')
  then have "(tf', cid', opts', g') = (tf, cid, opts, g)
      \<or> (\<exists>ids. (tf', cid', opts', ids, g') \<in> set (collector_into ?c))"
    using collector_add_entries(2) [OF cm_ok_collector [OF assms(1)]] by blast
  then show ?thesis using True e by (cases "map_of cm n") (auto simp: cm_entry_def)
qed

lemma collect_client: "cm_ok cm \<Longrightarrow> cm_client (collect n tf cid opts g cm) n cid"
  using collector_add_entries(3) [OF cm_ok_collector [of cm n]]
  by (fastforce simp: cm_client_def cm_entry_def collect_def AList.update_conv')

lemma cm_client_mono:
  "cm_ok cm \<Longrightarrow> cm_client cm n' c \<Longrightarrow> cm_client (collect n tf cid opts g cm) n' c"
  using collect_mono by (fastforce simp: cm_client_def)

lemmas collect_facts = cm_ok_collect collect_mono collect_client cm_client_mono

section \<open>Matching\<close>

text \<open>The no-local rule of version 5.\<close>

definition eligible :: "ident \<Rightarrow> ident \<Rightarrow> subscription_options \<Rightarrow> bool" where
  "eligible this_id i opts \<longleftrightarrow> \<not> (opts_no_local opts = Some True \<and> this_id = i)"

definition group_member :: "ident \<Rightarrow> client_rels \<Rightarrow> string \<Rightarrow> group_sub \<Rightarrow> bool" where
  "group_member this_id rels g = (\<lambda>(n, cid, opts, _, _).
     \<exists>i. (cid, i, opts) \<in> set rels \<and> eligible this_id i opts \<and> opts_shared_group opts = Some g
       \<and> n = id_node_id i)"

definition groups_ok :: "ident \<Rightarrow> client_rels \<Rightarrow> (string \<times> group_sub list) list \<Rightarrow> bool" where
  "groups_ok this_id rels groups \<longleftrightarrow>
     distinct (map fst groups)
     \<and> (\<forall>(g, ss) \<in> set groups. ss \<noteq> [] \<and> (\<forall>s \<in> set ss. group_member this_id rels g s))"

lemma groups_ok_push:
  assumes "groups_ok this_id rels groups" and "group_member this_id rels g s"
  shows "groups_ok this_id rels (group_push g s groups)"
proof -
  have d: "distinct (map fst groups)" using assms(1) by (simp add: groups_ok_def)
  have "\<forall>s' \<in> set ((case map_of groups g of Some ss \<Rightarrow> ss | None \<Rightarrow> []) @ [s]). group_member this_id rels g s'"
    using assms by (auto simp: groups_ok_def dest!: map_of_SomeD split: option.splits)
  then show ?thesis
    using assms(1) distinct_update [OF d] set_update_alist [OF d]
    unfolding groups_ok_def group_push_def by fastforce
qed

lemma group_push_keys: "fst ` set (group_push g s groups) = insert g (fst ` set groups)"
  using dom_update [of g _ groups] by (simp add: group_push_def dom_map_of_conv_image_fst)

text \<open>
  The relations that one filter may contribute, and the growth of the collectors by relations of
  a set.
\<close>

definition allowed ::
    "ident \<Rightarrow> string \<Rightarrow> client_rels
     \<Rightarrow> (u64 \<times> string \<times> string \<times> subscription_options \<times> shared_group_type option) set" where
  "allowed this_id tf rels =
     {(id_node_id i, tf, cid, opts, g) | cid i opts g.
        (cid, i, opts) \<in> set rels \<and> eligible this_id i opts
        \<and> map_option fst g = opts_shared_group opts}"

definition grown ::
    "(u64 \<times> string \<times> string \<times> subscription_options \<times> shared_group_type option) set
     \<Rightarrow> collector_map \<Rightarrow> collector_map \<Rightarrow> bool" where
  "grown S cm cm' \<longleftrightarrow>
     cm_ok cm' \<and> (\<forall>n e. cm_entry cm n e \<longrightarrow> cm_entry cm' n e)
     \<and> (\<forall>n e. cm_entry cm' n e \<longrightarrow> cm_entry cm n e \<or> (n, e) \<in> S)"

lemma grown_refl: "cm_ok cm \<Longrightarrow> grown S cm cm"
  by (simp add: grown_def)

lemma grown_trans: "grown S a b \<Longrightarrow> grown S b c \<Longrightarrow> grown S a c"
  unfolding grown_def by blast

lemma grown_mono: "grown S a b \<Longrightarrow> S \<subseteq> T \<Longrightarrow> grown T a b"
  unfolding grown_def by blast

lemma grown_collect:
  "cm_ok cm \<Longrightarrow> (n, tf, cid, opts, g) \<in> S \<Longrightarrow> grown S cm (collect n tf cid opts g cm)"
  unfolding grown_def by (metis cm_ok_collect collect_mono collect_sound)

lemma grown_ok: "grown S a b \<Longrightarrow> cm_ok b"
  by (simp add: grown_def)

lemma grown_client: "grown S a b \<Longrightarrow> cm_client a n c \<Longrightarrow> cm_client b n c"
  unfolding grown_def cm_client_def by blast

lemma allowed_mono: "set rels \<subseteq> set rels' \<Longrightarrow> allowed this_id tf rels \<subseteq> allowed this_id tf rels'"
  unfolding allowed_def by blast

text \<open>After the scan every eligible client is collected or waits in its group.\<close>

definition served ::
    "ident \<Rightarrow> client_rels \<Rightarrow> (string \<times> group_sub list) list \<Rightarrow> collector_map \<Rightarrow> bool" where
  "served this_id rels groups cm \<longleftrightarrow>
     (\<forall>cid i opts. (cid, i, opts) \<in> set rels \<and> eligible this_id i opts \<longrightarrow>
        (case opts_shared_group opts of
           None \<Rightarrow> cm_client cm (id_node_id i) cid
         | Some g \<Rightarrow> g \<in> fst ` set groups))"

lemma served_Cons:
  "served this_id ((cid, i, opts) # rels) groups cm \<longleftrightarrow>
     (eligible this_id i opts \<longrightarrow>
        (case opts_shared_group opts of None \<Rightarrow> cm_client cm (id_node_id i) cid
         | Some g \<Rightarrow> g \<in> fst ` set groups))
     \<and> served this_id rels groups cm"
  by (auto simp: served_def)

lemma servedD:
  assumes "served this_id rels groups cm" and "(cid, i, opts) \<in> set rels \<and> eligible this_id i opts"
  shows "opts_shared_group opts = None \<Longrightarrow> cm_client cm (id_node_id i) cid"
    and "opts_shared_group opts = Some g \<Longrightarrow> g \<in> fst ` set groups"
  using assms(1) [unfolded served_def, rule_format, OF assms(2)] by simp_all

lemma scan_rels_result:
  assumes "scan_rels online this_id tf rels groups cm = (groups', cm')"
    and "cm_ok cm" and "set rels \<subseteq> set all" and "groups_ok this_id all groups"
  shows "grown (allowed this_id tf all) cm cm' \<and> groups_ok this_id all groups'
    \<and> fst ` set groups \<subseteq> fst ` set groups' \<and> served this_id rels groups' cm'"
  using assms
proof (induction online this_id tf rels groups cm rule: scan_rels.induct)
  case (1 online this_id tf groups cm)
  then show ?case by (simp add: grown_refl served_def)
next
  case (2 online this_id tf cid i opts rels groups cm)
  have sub: "set rels \<subseteq> set all" and here: "(cid, i, opts) \<in> set all" using 2(6) by auto
  show ?case
  proof (cases "eligible this_id i opts")
    case False
    then have nl: "opts_no_local opts = Some True \<and> this_id = i" by (simp add: eligible_def)
    have eq: "scan_rels online this_id tf rels groups cm = (groups', cm')" using 2(4) nl by simp
    from 2(1) [OF nl eq 2(5) sub 2(7)] False show ?thesis by (simp add: served_Cons)
  next
    case el: True
    then have nl: "\<not> (opts_no_local opts = Some True \<and> this_id = i)" by (simp add: eligible_def)
    show ?thesis
    proof (cases "opts_shared_group opts")
      case None
      let ?cm = "collect (id_node_id i) tf cid opts None cm"
      have eq: "scan_rels online this_id tf rels groups ?cm = (groups', cm')"
        using 2(4) nl None by simp
      have "(id_node_id i, tf, cid, opts, None) \<in> allowed this_id tf all"
        using here el None by (auto simp: allowed_def)
      then have g1: "grown (allowed this_id tf all) cm ?cm" by (rule grown_collect [OF 2(5)])
      note IH = 2(2) [OF nl None eq grown_ok [OF g1] sub 2(7)]
      have "cm_client cm' (id_node_id i) cid"
        using grown_client [OF conjunct1 [OF IH] collect_client [OF 2(5)]] .
      then show ?thesis using IH grown_trans [OF g1] el None by (simp add: served_Cons)
    next
      case (Some g)
      let ?s = "(id_node_id i, cid, opts, None :: nat list option, Some (online (id_node_id i) cid))"
      have eq: "scan_rels online this_id tf rels (group_push g ?s groups) cm = (groups', cm')"
        using 2(4) nl Some by simp
      have "group_member this_id all g ?s" using here el Some by (auto simp: group_member_def)
      note IH = 2(3) [OF nl Some eq 2(5) sub groups_ok_push [OF 2(7) this]]
      have "insert g (fst ` set groups) \<subseteq> fst ` set groups'"
        using IH group_push_keys [of g ?s groups] by blast
      then show ?thesis using IH el Some by (simp add: served_Cons)
    qed
  qed
qed

text \<open>Each group contributes one member, and its client is collected.\<close>

lemma scan_groups_result:
  assumes "cm_ok cm" and "groups_ok this_id rels groups"
  shows "grown (allowed this_id tf rels) cm (scan_groups online rnd tf groups cm)
    \<and> (\<forall>g \<in> fst ` set groups. \<exists>cid i opts. (cid, i, opts) \<in> set rels \<and> eligible this_id i opts
        \<and> opts_shared_group opts = Some g \<and> cm_client (scan_groups online rnd tf groups cm) (id_node_id i) cid)"
  using assms
proof (induction online rnd tf groups cm rule: scan_groups.induct)
  case (1 online rnd tf cm)
  then show ?case by (simp add: grown_refl)
next
  case (2 online rnd tf g ss groups cm)
  have ne: "ss \<noteq> []" and mem: "\<forall>s \<in> set ss. group_member this_id rels g s"
    and ok: "groups_ok this_id rels groups"
    using 2(4) by (auto simp: groups_ok_def)
  obtain idx on where ch: "choice online (rnd g) ss = Some (idx, on)" "idx < length ss"
    using choice_result [OF ne] by blast
  obtain n cid opts ids o' where s: "ss ! idx = (n, cid, opts, ids, o')" by (metis prod_cases5)
  have "group_member this_id rels g (n, cid, opts, ids, o')" using mem nth_mem [OF ch(2)] s by metis
  then obtain i where i: "(cid, i, opts) \<in> set rels" "eligible this_id i opts"
    "opts_shared_group opts = Some g" "n = id_node_id i"
    by (auto simp: group_member_def)
  let ?cids = "map (\<lambda>(_, cid, _, _, _). cid) ss"
  let ?cm = "collect n tf cid opts (Some (g, on, ?cids)) cm"
  have eq: "scan_groups online rnd tf ((g, ss) # groups) cm = scan_groups online rnd tf groups ?cm"
    by (simp add: ch s Let_def)
  have "(n, tf, cid, opts, Some (g, on, ?cids)) \<in> allowed this_id tf rels"
    using i by (auto simp: allowed_def)
  then have g1: "grown (allowed this_id tf rels) cm ?cm" by (rule grown_collect [OF 2(3)])
  note IH = 2(2) [OF refl ch(1) refl refl s [symmetric] refl refl refl grown_ok [OF g1] ok]
  have "cm_client (scan_groups online rnd tf groups ?cm) n cid"
    using grown_client [OF conjunct1 [OF IH] collect_client [OF 2(3)]] .
  then have "\<exists>cid i opts. (cid, i, opts) \<in> set rels \<and> eligible this_id i opts
      \<and> opts_shared_group opts = Some g \<and> cm_client (scan_groups online rnd tf groups ?cm) (id_node_id i) cid"
    using i by blast
  then show ?case unfolding eq using IH grown_trans [OF g1] by simp
qed

text \<open>
  Every eligible subscriber of a filter is collected; of a shared group, one eligible member is.
\<close>

definition reached :: "ident \<Rightarrow> client_rels \<Rightarrow> collector_map \<Rightarrow> bool" where
  "reached this_id rels cm \<longleftrightarrow>
     (\<forall>cid i opts. (cid, i, opts) \<in> set rels \<and> eligible this_id i opts \<longrightarrow>
        (case opts_shared_group opts of
           None \<Rightarrow> cm_client cm (id_node_id i) cid
         | Some g \<Rightarrow> \<exists>cid' i' opts'. (cid', i', opts') \<in> set rels \<and> eligible this_id i' opts'
             \<and> opts_shared_group opts' = Some g \<and> cm_client cm (id_node_id i') cid'))"

lemma reachedD:
  assumes "reached this_id rels cm" and "(cid, i, opts) \<in> set rels \<and> eligible this_id i opts"
  shows "opts_shared_group opts = None \<Longrightarrow> cm_client cm (id_node_id i) cid"
    and "opts_shared_group opts = Some g \<Longrightarrow>
      \<exists>cid' i' opts'. (cid', i', opts') \<in> set rels \<and> eligible this_id i' opts'
        \<and> opts_shared_group opts' = Some g \<and> cm_client cm (id_node_id i') cid'"
  using assms(1) [unfolded reached_def, rule_format, OF assms(2)] by simp_all

lemma reached_grown:
  assumes "reached this_id rels cm" and "grown S cm cm'"
  shows "reached this_id rels cm'"
  unfolding reached_def
proof (intro allI impI)
  fix cid i opts
  assume here: "(cid, i, opts) \<in> set rels \<and> eligible this_id i opts"
  note d = reachedD [OF assms(1) here] and g = grown_client [OF assms(2)]
  show "case opts_shared_group opts of
           None \<Rightarrow> cm_client cm' (id_node_id i) cid
         | Some g \<Rightarrow> \<exists>cid' i' opts'. (cid', i', opts') \<in> set rels \<and> eligible this_id i' opts'
             \<and> opts_shared_group opts' = Some g \<and> cm_client cm' (id_node_id i') cid'"
  proof (cases "opts_shared_group opts")
    case None
    then show ?thesis using g [OF d(1)] by simp
  next
    case (Some grp)
    then show ?thesis using d(2) [OF Some] g by (simp only: option.case) blast
  qed
qed

lemma match_filter_result:
  assumes "cm_ok cm" and "map_of relations tf = Some rels"
  shows "grown (allowed this_id tf rels) cm (match_filter online rnd this_id relations tf cm)
    \<and> reached this_id rels (match_filter online rnd this_id relations tf cm)"
proof -
  obtain groups cm1 where sc: "scan_rels online this_id tf rels [] cm = (groups, cm1)" by fastforce
  have "groups_ok this_id rels []" by (simp add: groups_ok_def)
  from scan_rels_result [OF sc assms(1) order_refl this]
  have r1: "grown (allowed this_id tf rels) cm cm1" "groups_ok this_id rels groups"
    "served this_id rels groups cm1" by blast+
  note r2 = scan_groups_result [OF grown_ok [OF r1(1)] r1(2), of tf online "rnd tf"]
  have eq: "match_filter online rnd this_id relations tf cm = scan_groups online (rnd tf) tf groups cm1"
    using assms(2) sc by (simp add: match_filter_def)
  have "reached this_id rels (scan_groups online (rnd tf) tf groups cm1)"
    unfolding reached_def
  proof (intro allI impI)
    fix cid i opts
    assume here: "(cid, i, opts) \<in> set rels \<and> eligible this_id i opts"
    show "case opts_shared_group opts of
           None \<Rightarrow> cm_client (scan_groups online (rnd tf) tf groups cm1) (id_node_id i) cid
         | Some g \<Rightarrow> \<exists>cid' i' opts'. (cid', i', opts') \<in> set rels \<and> eligible this_id i' opts'
             \<and> opts_shared_group opts' = Some g
             \<and> cm_client (scan_groups online (rnd tf) tf groups cm1) (id_node_id i') cid'"
    proof (cases "opts_shared_group opts")
      case None
      then have "cm_client cm1 (id_node_id i) cid" using servedD(1) [OF r1(3) here] by simp
      then show ?thesis using None grown_client [OF conjunct1 [OF r2]] by simp
    next
      case (Some g)
      then have "g \<in> fst ` set groups" using servedD(2) [OF r1(3) here] by simp
      then show ?thesis using Some bspec [OF conjunct2 [OF r2]] by simp
    qed
  qed
  then show ?thesis unfolding eq using grown_trans [OF r1(1) conjunct1 [OF r2]] by blast
qed

lemma fold_match_filter:
  assumes "cm_ok cm" and "\<forall>tf \<in> set tfs. map_of relations tf \<noteq> None"
  shows "grown (\<Union>tf \<in> set tfs. allowed this_id tf (the (map_of relations tf))) cm
           (fold (match_filter online rnd this_id relations) tfs cm)
    \<and> (\<forall>tf \<in> set tfs. reached this_id (the (map_of relations tf))
           (fold (match_filter online rnd this_id relations) tfs cm))"
  using assms
proof (induction tfs arbitrary: cm)
  case Nil
  then show ?case by (simp add: grown_refl)
next
  case (Cons tf tfs)
  obtain rels where m: "map_of relations tf = Some rels" using Cons.prems(2) by auto
  let ?cm = "match_filter online rnd this_id relations tf cm"
  let ?S = "\<Union>tf \<in> set (tf # tfs). allowed this_id tf (the (map_of relations tf))"
  note r = match_filter_result [OF Cons.prems(1) m, of this_id online rnd]
  have g1: "grown ?S cm ?cm" by (rule grown_mono [OF conjunct1 [OF r]]) (use m in auto)
  have "\<forall>tf \<in> set tfs. map_of relations tf \<noteq> None" using Cons.prems(2) by simp
  note IH = Cons.IH [OF grown_ok [OF g1] this]
  have g2: "grown ?S ?cm (fold (match_filter online rnd this_id relations) tfs ?cm)"
    by (rule grown_mono [OF conjunct1 [OF IH]]) auto
  show ?case using IH grown_trans [OF g1 g2] reached_grown [OF conjunct2 [OF r] g2] m by simp
qed

section \<open>Correctness of the match\<close>

text \<open>Node \<open>n\<close> is told to deliver to a client.\<close>

definition delivers :: "(u64 \<times> sub_relation list) list \<Rightarrow> u64 \<Rightarrow> string \<Rightarrow> bool" where
  "delivers res n cid \<longleftrightarrow>
     (\<exists>rels tf opts ids g. map_of res n = Some rels \<and> (tf, cid, opts, ids, g) \<in> set rels)"

definition match_result :: "collector_map \<Rightarrow> (u64 \<times> sub_relation list) list" where
  "match_result cm = map (\<lambda>(n, c). (n, collector_into c)) cm"

lemma map_of_match_result: "map_of (match_result cm) n = map_option collector_into (map_of cm n)"
  by (simp add: match_result_def map_of_map)

lemma delivers_match_result: "delivers (match_result cm) n cid \<longleftrightarrow> cm_client cm n cid"
  unfolding delivers_def cm_client_def cm_entry_def map_of_match_result
  by (simp, blast)

lemma subscription_rels:
  assumes "router_inv r" and "map_of (rtr_relations r) tf = Some rels"
  shows "(cid, i, opts) \<in> set rels \<longleftrightarrow> subscription r tf cid = Some (i, opts)"
  using router_inv_parses(2) [OF assms] assms(2)
  by (auto simp: subscription_def rels_ok_def map_of_eq_Some_iff)

lemma router_matches_cm:
  assumes "router_inv r" and "topic_from_str tname = Inr t" and "topic_name t"
  obtains cm where "router_matches online rnd this_id tname r = Inr (match_result cm)"
    and "\<And>n tf cid opts g. cm_entry cm n (tf, cid, opts, g) \<Longrightarrow>
      \<exists>i f. subscription r tf cid = Some (i, opts) \<and> id_node_id i = n \<and> eligible this_id i opts
        \<and> topic_from_str tf = Inr f \<and> mqtt_match f t \<and> map_option fst g = opts_shared_group opts"
    and "\<And>tf f rels. map_of (rtr_relations r) tf = Some rels \<Longrightarrow> topic_from_str tf = Inr f \<Longrightarrow>
      mqtt_match f t \<Longrightarrow> reached this_id rels cm"
proof -
  let ?tfs = "map topic_to_string (tree_filters t (rtr_topics r))"
  let ?cm = "fold (match_filter online rnd this_id (rtr_relations r)) ?tfs []"
  have "synced tree_has (rtr_topics r) (fst ` set (rtr_relations r))"
    using assms(1) by (simp add: router_inv_def)
  from utree.synced_matched [OF this assms(2,3)]
  have tfs: "set ?tfs = {tf \<in> fst ` set (rtr_relations r). \<exists>f. topic_from_str tf = Inr f \<and> mqtt_match f t}"
    by simp
  have "cm_ok []" by (simp add: cm_ok_def)
  moreover have "\<forall>tf \<in> set ?tfs. map_of (rtr_relations r) tf \<noteq> None"
    unfolding tfs by (simp add: map_of_eq_None_iff)
  ultimately have g: "grown (\<Union>tf \<in> set ?tfs. allowed this_id tf (the (map_of (rtr_relations r) tf))) [] ?cm"
    and re: "\<forall>tf \<in> set ?tfs. reached this_id (the (map_of (rtr_relations r) tf)) ?cm"
    using fold_match_filter by blast+
  show ?thesis
  proof
    have "fold (\<lambda>(f, _). match_filter online rnd this_id (rtr_relations r) (topic_to_string f))
        (node_matches t (rtr_topics r)) [] = ?cm"
      by (simp add: tree_filters_def fold_map comp_def case_prod_unfold)
    then show "router_matches online rnd this_id tname r = Inr (match_result ?cm)"
      using assms(2) by (simp add: router_matches_def match_result_def)
  next
    fix n tf cid opts g
    assume "cm_entry ?cm n (tf, cid, opts, g)"
    then have "(n, tf, cid, opts, g) \<in> (\<Union>tf \<in> set ?tfs. allowed this_id tf (the (map_of (rtr_relations r) tf)))"
      using g by (auto simp: grown_def cm_entry_def)
    then obtain i where i: "tf \<in> set ?tfs" "(cid, i, opts) \<in> set (the (map_of (rtr_relations r) tf))"
      "n = id_node_id i" "eligible this_id i opts" "map_option fst g = opts_shared_group opts"
      unfolding allowed_def by blast
    from i(1) obtain f rels where f: "topic_from_str tf = Inr f" "mqtt_match f t"
      "map_of (rtr_relations r) tf = Some rels"
      unfolding tfs using map_of_eq_None_iff [of "rtr_relations r" tf] by fastforce
    have "subscription r tf cid = Some (i, opts)"
      using i(2) f(3) subscription_rels [OF assms(1) f(3)] by simp
    with i f show "\<exists>i f. subscription r tf cid = Some (i, opts) \<and> id_node_id i = n
        \<and> eligible this_id i opts \<and> topic_from_str tf = Inr f \<and> mqtt_match f t
        \<and> map_option fst g = opts_shared_group opts" by blast
  next
    fix tf f rels
    assume m: "map_of (rtr_relations r) tf = Some rels" "topic_from_str tf = Inr f" "mqtt_match f t"
    then have "tf \<in> set ?tfs" unfolding tfs by (auto dest: map_of_SomeD intro: rev_image_eqI)
    with re m(1) show "reached this_id rels ?cm" by force
  qed
qed

section \<open>Reachable routers and their counters\<close>

inductive router_reach :: "'c counter_ops \<Rightarrow> 'c default_router \<Rightarrow> bool" for K where
  new: "router_reach K (router_new K)"
| add: "router_reach K r \<Longrightarrow> router_reach K (fst (router_add K tf i opts r))"
| remove: "router_reach K r \<Longrightarrow> router_reach K (fst (router_remove K tf i r))"

lemma router_reach_inv: "router_reach K r \<Longrightarrow> router_inv r"
  by (induction rule: router_reach.induct) (auto intro: router_inv_new router_add_inv router_remove_inv)

definition size_of :: "(string \<times> 'b list) list \<Rightarrow> nat" where
  "size_of al = sum_list (map (\<lambda>e. length (snd e)) al)"

lemma size_of_update:
  "size_of (AList.update k v al) + (case map_of al k of None \<Rightarrow> 0 | Some w \<Rightarrow> length w)
   = size_of al + length v"
  by (induction al) (auto simp: size_of_def split: option.splits)

lemma size_of_delete:
  "distinct (map fst al) \<Longrightarrow>
   size_of (AList.delete k al) + (case map_of al k of None \<Rightarrow> 0 | Some w \<Rightarrow> length w) = size_of al"
proof (induction al)
  case (Cons e al)
  then have "AList.delete (fst e) al = al" by simp
  with Cons show ?case by (cases e) (auto simp: size_of_def map_of_eq_None_iff)
qed (simp add: size_of_def)

lemma length_update_alist:
  "length (AList.update k v al) = (if map_of al k = None then Suc (length al) else length al)"
  by (induction al) auto

lemma length_delete_alist:
  "distinct (map fst al) \<Longrightarrow> map_of al k = Some v \<Longrightarrow> Suc (length (AList.delete k al)) = length al"
proof (induction al)
  case (Cons e al)
  then have "AList.delete (fst e) al = al" by simp
  with Cons show ?case by (cases e) auto
qed simp

text \<open>
  The counters, seen through their value: the number of filters and the number of subscriptions.
\<close>

definition counter_laws :: "'c counter_ops \<Rightarrow> ('c \<Rightarrow> int) \<Rightarrow> bool" where
  "counter_laws K val \<longleftrightarrow> val (cnt_new K) = 0
     \<and> (\<forall>c. val (cnt_inc K c) = val c + 1) \<and> (\<forall>c. val (cnt_dec K c) = val c - 1)"

definition counts_ok :: "('c \<Rightarrow> int) \<Rightarrow> 'c default_router \<Rightarrow> bool" where
  "counts_ok val r \<longleftrightarrow>
     val (rtr_topics_count r) = int (length (rtr_relations r))
     \<and> val (rtr_relations_count r) = int (size_of (rtr_relations r))"

lemma counts_ok_add:
  assumes "counter_laws K val" and "counts_ok val r"
  shows "counts_ok val (fst (router_add K tf i opts r))"
proof (cases "topic_from_str tf")
  case (Inl e)
  then show ?thesis using assms by (simp add: router_add_def)
next
  case (Inr f)
  let ?rels = "case map_of (rtr_relations r) tf of Some rels \<Rightarrow> rels | None \<Rightarrow> []"
  have eq: "router_add K tf i opts r =
      (\<lparr>rtr_topics = fst (node_insert f () (rtr_topics r)),
        rtr_topics_count = (if map_of (rtr_relations r) tf = None then cnt_inc K (rtr_topics_count r)
                            else rtr_topics_count r),
        rtr_relations = AList.update tf (AList.update (id_client_id i) (i, opts) ?rels) (rtr_relations r),
        rtr_relations_count = (if map_of ?rels (id_client_id i) = None
                               then cnt_inc K (rtr_relations_count r) else rtr_relations_count r)\<rparr>, Inr ())"
    using Inr by (simp add: router_add_def Let_def split: option.splits)
  have "size_of (AList.update tf (AList.update (id_client_id i) (i, opts) ?rels) (rtr_relations r))
      + length ?rels = size_of (rtr_relations r) + length (AList.update (id_client_id i) (i, opts) ?rels)"
    using size_of_update [of tf _ "rtr_relations r"]
    by (cases "map_of (rtr_relations r) tf") simp_all
  then show ?thesis
    using assms unfolding eq
    by (cases "map_of (rtr_relations r) tf"; cases "map_of ?rels (id_client_id i)")
      (auto simp: counts_ok_def counter_laws_def length_update_alist)
qed

lemma counts_ok_remove:
  assumes "counter_laws K val" and "counts_ok val r" and "router_inv r"
  shows "counts_ok val (fst (router_remove K tf i r))"
proof (cases "\<exists>opts. subscription r tf (id_client_id i) = Some (i, opts)")
  case False
  then show ?thesis using assms(2) router_remove_other by (metis fst_conv)
next
  case True
  then obtain rels opts where m: "map_of (rtr_relations r) tf = Some rels"
    "map_of rels (id_client_id i) = Some (i, opts)"
    by (auto simp: subscription_def bind_eq_Some_conv)
  obtain f where f: "topic_from_str tf = Inr f" using router_inv_parses [OF assms(3) m(1)] by blast
  have d: "distinct (map fst (rtr_relations r))" "distinct (map fst rels)"
    using assms(3) router_inv_parses(2) [OF assms(3) m(1)] by (auto simp: router_inv_def rels_ok_def)
  let ?rels' = "AList.delete (id_client_id i) rels"
  let ?upd = "AList.update tf ?rels' (rtr_relations r)"
  have l: "Suc (length ?rels') = length rels" by (rule length_delete_alist [OF d(2) m(2)])
  have u: "Suc (size_of ?upd) = size_of (rtr_relations r)"
    using size_of_update [of tf ?rels' "rtr_relations r"] m(1) l by simp
  have du: "distinct (map fst ?upd)" by (rule distinct_update [OF d(1)])
  have mu: "map_of ?upd tf = Some ?rels'" by (simp add: AList.update_conv')
  have "Suc (length (AList.delete tf ?upd)) = length (rtr_relations r)"
    using length_delete_alist [OF du mu] m(1) by (simp add: length_update_alist)
  moreover have "size_of (AList.delete tf ?upd) = size_of ?upd" if "?rels' = []"
    using size_of_delete [OF du, of tf] mu that by simp
  ultimately show ?thesis
    using assms(1,2) u m(1) unfolding router_remove_eq [OF m f] Let_def
    by (auto simp: counts_ok_def counter_laws_def length_update_alist)
qed

lemma router_reach_counts:
  assumes "router_reach K r" and "counter_laws K val"
  shows "counts_ok val r"
  using assms
proof (induction rule: router_reach.induct)
  case new
  then show ?case by (simp add: counts_ok_def counter_laws_def router_new_def size_of_def)
next
  case (add r tf i opts)
  then show ?case by (simp add: counts_ok_add)
next
  case (remove r tf i)
  then show ?case by (simp add: counts_ok_remove router_reach_inv)
qed

end
