(* ===== verification/Rmqtt_Queue.thy ===== *)
theory Rmqtt_Queue
  imports Prelude
begin

text \<open>
  The bounded message queue of a session, \<open>vendor/rmqtt/src/queue.rs\<close>: the queue, and the sender
  that applies a policy when the queue is full. The rate limiter and the signal channel come from
  other crates; a send reports whether it signals the receiver, and runs without interference of
  other senders. The locale \<open>bounded_fifo\<close> is what
  the sender relies on.
\<close>

section \<open>Model\<close>

record 'a queue =
  q_cap :: nat
  q_inner :: "'a list"

definition queue_new :: "nat \<Rightarrow> 'a queue" where
  "queue_new cap = \<lparr>q_cap = cap, q_inner = []\<rparr>"

text \<open>\<open>push\<close> gives the value back when the queue is full.\<close>

definition queue_push :: "'a \<Rightarrow> 'a queue \<Rightarrow> 'a queue \<times> ('a + unit)" where
  "queue_push v q =
     (if length (q_inner q) \<ge> q_cap q then (q, Inl v)
      else (q\<lparr>q_inner := q_inner q @ [v]\<rparr>, Inr ()))"

definition queue_pop :: "'a queue \<Rightarrow> 'a queue \<times> 'a option" where
  "queue_pop q =
     (case q_inner q of
        v # vs \<Rightarrow> (q\<lparr>q_inner := vs\<rparr>, Some v)
      | [] \<Rightarrow> (q, None))"

datatype policy = PolicyCurrent | PolicyEarly

text \<open>
  \<open>Sender::send\<close>: the value that did not stay in the queue, if any, is the error; the flag says
  whether the receiver is signalled.
\<close>

definition sender_send :: "('a \<Rightarrow> policy) \<Rightarrow> 'a \<Rightarrow> 'a queue \<Rightarrow> 'a queue \<times> ('a + unit) \<times> bool" where
  "sender_send policy_fn v q =
     (case queue_push v q of
        (q1, Inl v') \<Rightarrow>
          (case policy_fn v' of
             PolicyCurrent \<Rightarrow> (q1, Inl v', False)
           | PolicyEarly \<Rightarrow>
               let (q2, removed) = queue_pop q1
               in (case queue_push v' q2 of
                     (q3, Inl v'') \<Rightarrow> (q3, Inl v'', False)
                   | (q3, Inr _) \<Rightarrow>
                       (case removed of
                          Some x \<Rightarrow> (q3, Inl x, False)
                        | None \<Rightarrow> (q3, Inr (), False))))
      | (q1, Inr _) \<Rightarrow> (q1, Inr (), True))"

section \<open>The interface of the queue\<close>

locale bounded_fifo =
  fixes push :: "'a \<Rightarrow> 'q \<Rightarrow> 'q \<times> ('a + unit)"
    and pop :: "'q \<Rightarrow> 'q \<times> 'a option"
    and items :: "'q \<Rightarrow> 'a list"
    and cap :: "'q \<Rightarrow> nat"
  assumes push_full: "length (items q) \<ge> cap q \<Longrightarrow> push v q = (q, Inl v)"
    and push_room: "length (items q) < cap q \<Longrightarrow>
      \<exists>q'. push v q = (q', Inr ()) \<and> items q' = items q @ [v] \<and> cap q' = cap q"
    and pop_empty: "items q = [] \<Longrightarrow> pop q = (q, None)"
    and pop_front: "items q = x # xs \<Longrightarrow> \<exists>q'. pop q = (q', Some x) \<and> items q' = xs \<and> cap q' = cap q"
begin

text \<open>Making room: pop, then push, keeps the bound and drops the oldest item.\<close>

lemma pop_push:
  assumes "items q = x # xs" and "length (items q) \<le> cap q"
  shows "\<exists>q1 q2. pop q = (q1, Some x) \<and> push v q1 = (q2, Inr ()) \<and> items q2 = xs @ [v] \<and> cap q2 = cap q"
proof -
  obtain q1 where q1: "pop q = (q1, Some x)" "items q1 = xs" "cap q1 = cap q"
    using pop_front [OF assms(1)] by blast
  have "length (items q1) < cap q1" using assms q1 by simp
  from push_room [OF this, of v] q1 show ?thesis by metis
qed

lemma push_bound: "length (items q) \<le> cap q \<Longrightarrow> push v q = (q', res) \<Longrightarrow> length (items q') \<le> cap q'"
  by (cases "length (items q) < cap q") (use push_room [of q v] push_full [of q v] in fastforce)+

end

interpretation vq: bounded_fifo queue_push queue_pop q_inner q_cap
  by unfold_locales (auto simp: queue_push_def queue_pop_def)

section \<open>Sending\<close>

lemma sender_send_room:
  assumes "length (q_inner q) < q_cap q"
  shows "\<exists>q'. sender_send pol v q = (q', Inr (), True) \<and> q_inner q' = q_inner q @ [v] \<and> q_cap q' = q_cap q"
  using vq.push_room [OF assms, of v] by (auto simp: sender_send_def)

lemma sender_send_current:
  assumes "length (q_inner q) \<ge> q_cap q" and "pol v = PolicyCurrent"
  shows "sender_send pol v q = (q, Inl v, False)"
  using vq.push_full [OF assms(1)] assms(2) by (simp add: sender_send_def)

lemma sender_send_early:
  assumes "length (q_inner q) = q_cap q" and "pol v = PolicyEarly" and "q_inner q = x # xs"
  shows "\<exists>q'. sender_send pol v q = (q', Inl x, False) \<and> q_inner q' = xs @ [v] \<and> q_cap q' = q_cap q"
proof -
  have full: "queue_push v q = (q, Inl v)" using vq.push_full [of q v] assms(1) by simp
  obtain q1 q2 where "queue_pop q = (q1, Some x)" "queue_push v q1 = (q2, Inr ())"
    "q_inner q2 = xs @ [v]" "q_cap q2 = q_cap q"
    using vq.pop_push [OF assms(3)] assms(1) by fastforce
  with full assms(2) show ?thesis by (simp add: sender_send_def)
qed

lemma sender_send_no_capacity:
  assumes "q_cap q = 0" and "q_inner q = []"
  shows "sender_send pol v q = (q, Inl v, False)"
proof -
  have "queue_push v q = (q, Inl v)" using vq.push_full [of q v] assms by simp
  moreover have "queue_pop q = (q, None)" using vq.pop_empty [OF assms(2)] .
  ultimately show ?thesis by (cases "pol v") (simp_all add: sender_send_def)
qed

text \<open>Nothing is lost silently: the old items and the new value are the new items and the error.\<close>

lemma sender_send_conserves:
  assumes "length (q_inner q) \<le> q_cap q" and "sender_send pol v q = (q', res, sig)"
  shows "length (q_inner q') \<le> q_cap q' \<and> q_cap q' = q_cap q
    \<and> (case res of
         Inr _ \<Rightarrow> q_inner q' = q_inner q @ [v]
       | Inl x \<Rightarrow> x # q_inner q' = (case pol v of
             PolicyCurrent \<Rightarrow> v # q_inner q
           | PolicyEarly \<Rightarrow> q_inner q @ [v]))
    \<and> (sig \<longleftrightarrow> length (q_inner q') = Suc (length (q_inner q)))"
proof (cases "length (q_inner q) < q_cap q")
  case True
  with sender_send_room [OF True, of pol v] assms(2) show ?thesis by auto
next
  case False
  then have full: "length (q_inner q) = q_cap q" using assms(1) by simp
  show ?thesis
  proof (cases "pol v")
    case PolicyCurrent
    then show ?thesis using sender_send_current [of q pol v] full assms(2) by auto
  next
    case PolicyEarly
    show ?thesis
    proof (cases "q_inner q")
      case Nil
      then show ?thesis using sender_send_no_capacity [of q pol v] full assms(2) PolicyEarly by auto
    next
      case (Cons x xs)
      then show ?thesis
        using sender_send_early [of q pol v x xs] full assms(2) PolicyEarly by auto
    qed
  qed
qed

end
