(* ===== verification/Rmqtt_Inflight.thy ===== *)
theory Rmqtt_Inflight
  imports Rmqtt_Types
begin

text \<open>
  The in-flight windows of a session, \<open>vendor/rmqtt/src/inflight.rs\<close>: outgoing messages that wait
  for an acknowledgement under a packet identifier, the generator of packet identifiers, and the
  set of incoming identifiers. The ordered map \<open>DequeBTreeMap\<close> comes from another crate: its
  operations are a parameter, and \<open>deque_laws\<close> states what they do to the entries. Times are
  64-bit milliseconds; the clock is an argument.
\<close>

section \<open>Model\<close>

subsection \<open>Outgoing messages\<close>

datatype moment_status = UnAck | UnReceived | UnComplete

record out_inflight_message =
  oim_publish :: publish
  oim_from :: from_info
  oim_status :: moment_status
  oim_update_time :: int

definition oim_new :: "moment_status \<Rightarrow> from_info \<Rightarrow> publish \<Rightarrow> int \<Rightarrow> out_inflight_message" where
  "oim_new status from p now =
     \<lparr>oim_publish = p, oim_from = from, oim_status = status, oim_update_time = now\<rparr>"

definition oim_update_status :: "moment_status \<Rightarrow> int \<Rightarrow> out_inflight_message \<Rightarrow> out_inflight_message" where
  "oim_update_status s now m = m\<lparr>oim_update_time := now, oim_status := s\<rparr>"

definition oim_timeout :: "int \<Rightarrow> int \<Rightarrow> out_inflight_message \<Rightarrow> bool" where
  "oim_timeout interval now m \<longleftrightarrow> interval > 0 \<and> now - oim_update_time m \<ge> interval"

record 'd deque_ops =
  dq_empty :: 'd
  dq_get :: "u16 \<Rightarrow> 'd \<Rightarrow> out_inflight_message option"
  dq_set :: "u16 \<Rightarrow> out_inflight_message \<Rightarrow> 'd \<Rightarrow> 'd"
  dq_insert :: "u16 \<Rightarrow> out_inflight_message \<Rightarrow> 'd \<Rightarrow> 'd \<times> out_inflight_message option"
  dq_remove :: "u16 \<Rightarrow> 'd \<Rightarrow> 'd \<times> out_inflight_message option"
  dq_front :: "'d \<Rightarrow> (u16 \<times> out_inflight_message) option"
  dq_pop_front :: "'d \<Rightarrow> 'd \<times> (u16 \<times> out_inflight_message) option"
  dq_len :: "'d \<Rightarrow> nat"

record 'd out_inflight =
  oi_cap :: nat
  oi_interval :: int
  oi_next :: u16
  oi_queues :: 'd

definition oi_interval_of :: "int \<Rightarrow> int \<Rightarrow> int" where
  "oi_interval_of retry expiry =
     (if retry = 0 then (if expiry = 0 then 0 else expiry)
      else if expiry = 0 then retry else min retry expiry)"

definition out_inflight_new :: "'d deque_ops \<Rightarrow> nat \<Rightarrow> int \<Rightarrow> int \<Rightarrow> 'd out_inflight" where
  "out_inflight_new D cap retry expiry =
     \<lparr>oi_cap = cap, oi_interval = oi_interval_of retry expiry, oi_next = 1, oi_queues = dq_empty D\<rparr>"

text \<open>\<open>get_timeout\<close>, in milliseconds.\<close>

definition oi_get_timeout :: "'d deque_ops \<Rightarrow> int \<Rightarrow> 'd out_inflight \<Rightarrow> int option" where
  "oi_get_timeout D now w =
     (if oi_interval w = 0 then None
      else case dq_front D (oi_queues w) of
        Some (_, m) \<Rightarrow>
          let t = oi_interval w - (now - oim_update_time m)
          in Some (if t < 1 then 1 else t)
      | None \<Rightarrow> None)"

definition oi_front_timeout :: "'d deque_ops \<Rightarrow> int \<Rightarrow> 'd out_inflight \<Rightarrow> bool" where
  "oi_front_timeout D now w =
     (if oi_interval w = 0 then False
      else case dq_front D (oi_queues w) of
        Some (_, m) \<Rightarrow> oim_timeout (oi_interval w) now m
      | None \<Rightarrow> False)"

definition oi_pop_front ::
    "'d deque_ops \<Rightarrow> 'd out_inflight \<Rightarrow> 'd out_inflight \<times> out_inflight_message option" where
  "oi_pop_front D w =
     (let (q, e) = dq_pop_front D (oi_queues w) in (w\<lparr>oi_queues := q\<rparr>, map_option snd e))"

definition oi_pop_front_timeout ::
    "'d deque_ops \<Rightarrow> int \<Rightarrow> 'd out_inflight \<Rightarrow> 'd out_inflight \<times> out_inflight_message option" where
  "oi_pop_front_timeout D now w =
     (if oi_front_timeout D now w then oi_pop_front D w else (w, None))"

definition oi_push_back ::
    "'d deque_ops \<Rightarrow> out_inflight_message \<Rightarrow> 'd out_inflight \<Rightarrow> 'd out_inflight \<times> u16 option" where
  "oi_push_back D m w =
     (case pub_packet_id (oim_publish m) of
        Some pid \<Rightarrow>
          let (q, old) = dq_insert D pid m (oi_queues w)
          in (w\<lparr>oi_queues := q\<rparr>, Option.bind old (\<lambda>x. pub_packet_id (oim_publish x)))
      | None \<Rightarrow> (w, None))"

definition oi_remove ::
    "'d deque_ops \<Rightarrow> u16 \<Rightarrow> 'd out_inflight \<Rightarrow> 'd out_inflight \<times> out_inflight_message option" where
  "oi_remove D pid w = (let (q, m) = dq_remove D pid (oi_queues w) in (w\<lparr>oi_queues := q\<rparr>, m))"

definition oi_update_status ::
    "'d deque_ops \<Rightarrow> u16 \<Rightarrow> moment_status \<Rightarrow> int \<Rightarrow> 'd out_inflight \<Rightarrow> 'd out_inflight" where
  "oi_update_status D pid s now w =
     (case dq_get D pid (oi_queues w) of
        Some m \<Rightarrow> w\<lparr>oi_queues := dq_set D pid (oim_update_status s now m) (oi_queues w)\<rparr>
      | None \<Rightarrow> w)"

definition oi_exist :: "'d deque_ops \<Rightarrow> u16 \<Rightarrow> 'd out_inflight \<Rightarrow> bool" where
  "oi_exist D pid w \<longleftrightarrow> dq_get D pid (oi_queues w) \<noteq> None"

text \<open>
  \<open>has_credit\<close> in a release build, where the subtraction of the two lengths wraps around.
\<close>

definition oi_has_credit :: "'d deque_ops \<Rightarrow> 'd out_inflight \<Rightarrow> bool" where
  "oi_has_credit D w \<longleftrightarrow> (of_nat (oi_cap w) - of_nat (dq_len D (oi_queues w)) :: u64) > 0"

text \<open>\<open>next_id\<close>: the counter wraps at \<open>2\<^sup>1\<^sup>6\<close>, identifier 0 is skipped, 65535 values are tried.\<close>

fun next_id_loop :: "nat \<Rightarrow> (u16 \<Rightarrow> bool) \<Rightarrow> u16 \<Rightarrow> u16 \<times> u16 result" where
  "next_id_loop 0 used next = (next, Inl NoPacketId)"
| "next_id_loop (Suc n) used next =
     (if next = 0 then next_id_loop n used (next + 1)
      else if \<not> used next then (next + 1, Inr next)
      else next_id_loop n used (next + 1))"

definition oi_next_id :: "'d deque_ops \<Rightarrow> 'd out_inflight \<Rightarrow> 'd out_inflight \<times> u16 result" where
  "oi_next_id D w =
     (let (next, res) = next_id_loop 65535 (\<lambda>pid. oi_exist D pid w) (oi_next w)
      in (w\<lparr>oi_next := next\<rparr>, res))"

text \<open>\<open>to_inflight_messages\<close> pops until the window is empty; the bound is the number of its entries.\<close>

fun oi_drain :: "'d deque_ops \<Rightarrow> nat \<Rightarrow> 'd out_inflight \<Rightarrow> 'd out_inflight \<times> out_inflight_message list" where
  "oi_drain D 0 w = (w, [])"
| "oi_drain D (Suc n) w =
     (case oi_pop_front D w of
        (w1, None) \<Rightarrow> (w1, [])
      | (w1, Some m) \<Rightarrow> (case oi_drain D n w1 of (w2, ms) \<Rightarrow> (w2, m # ms)))"

definition to_inflight_messages ::
    "'d deque_ops \<Rightarrow> 'd out_inflight \<Rightarrow> 'd out_inflight \<times> out_inflight_message list" where
  "to_inflight_messages D w = oi_drain D (dq_len D (oi_queues w)) w"

subsection \<open>Incoming identifiers\<close>

record in_inflight =
  ii_cached :: "u16 list"
  ii_max_inflight :: nat

datatype in_error = InflightWindowFull | PacketIdInUse u16

definition in_inflight_new :: "nat \<Rightarrow> in_inflight" where
  "in_inflight_new m = \<lparr>ii_cached = [], ii_max_inflight = m\<rparr>"

definition ii_add :: "u16 \<Rightarrow> qos \<Rightarrow> in_inflight \<Rightarrow> in_inflight \<times> (in_error + bool)" where
  "ii_add pid q ii =
     (if length (ii_cached ii) \<ge> ii_max_inflight ii then (ii, Inl InflightWindowFull)
      else if pid \<notin> set (ii_cached ii) then
        (ii\<lparr>ii_cached := List.insert pid (ii_cached ii)\<rparr>, Inr True)
      else if q = ExactlyOnce then (ii, Inl (PacketIdInUse pid))
      else (ii, Inr False))"

definition ii_remove :: "u16 \<Rightarrow> in_inflight \<Rightarrow> in_inflight \<times> bool" where
  "ii_remove pid ii =
     (if pid \<in> set (ii_cached ii) then (ii\<lparr>ii_cached := remove1 pid (ii_cached ii)\<rparr>, True)
      else (ii, False))"

section \<open>Packet identifiers\<close>

lemma next_id_loop_Inr:
  "next_id_loop n used next = (next', Inr pid) \<Longrightarrow>
     pid \<noteq> 0 \<and> \<not> used pid \<and> next' = pid + 1"
  by (induction n used "next" rule: next_id_loop.induct) (auto split: if_splits)

text \<open>A failing search has seen only used identifiers and zero.\<close>

lemma next_id_loop_Inl:
  "next_id_loop n used next = (next', Inl e) \<Longrightarrow>
     k < n \<Longrightarrow> next + of_nat k = 0 \<or> used (next + of_nat k)"
proof (induction n used "next" arbitrary: k rule: next_id_loop.induct)
  case (2 n used "next")
  show ?case
  proof (cases k)
    case 0
    then show ?thesis using 2(3) by (auto split: if_splits)
  next
    case (Suc j)
    have "next_id_loop n used (next + 1) = (next', Inl e)" using 2(3) by (auto split: if_splits)
    then have "next + 1 + of_nat j = 0 \<or> used (next + 1 + of_nat j)"
      using 2(1,2,3) 2(4) Suc by (auto split: if_splits)
    then show ?thesis using Suc by (simp add: algebra_simps)
  qed
qed simp

lemma window_card: "card ((\<lambda>k. a + of_nat k :: u16) ` {..<65535}) = 65535"
proof -
  have "inj_on (\<lambda>k. a + of_nat k :: u16) {..<65535}"
  proof (rule inj_onI)
    fix i j :: nat
    assume ij: "i \<in> {..<65535}" "j \<in> {..<65535}" "a + of_nat i = a + (of_nat j :: u16)"
    then have "unat (of_nat i :: u16) = unat (of_nat j :: u16)" by simp
    with ij(1,2) show "i = j" by (simp add: unat_of_nat)
  qed
  then show ?thesis by (simp add: card_image)
qed

text \<open>
  With fewer than 65534 identifiers in use the generator returns a fresh one. The bound is sharp
  for this loop: it looks at 65535 of the 65536 values, one of which may be zero.
\<close>

lemma next_id_loop_total:
  assumes "card {pid. used pid} < 65534"
  shows "\<exists>next' pid. next_id_loop 65535 used next = (next', Inr pid)"
proof (rule ccontr)
  assume "\<nexists>next' pid. next_id_loop 65535 used next = (next', Inr pid)"
  then obtain next' e where l: "next_id_loop 65535 used next = (next', Inl e)"
    by (metis sum.exhaust surj_pair)
  have "(\<lambda>k. next + of_nat k) ` {..<65535} \<subseteq> insert 0 {pid. used pid}"
    using next_id_loop_Inl [OF l] by auto
  then have "card ((\<lambda>k. next + of_nat k) ` {..<65535}) \<le> card (insert 0 {pid. used pid})"
    by (rule card_mono [rotated]) simp
  also have "\<dots> \<le> Suc (card {pid. used pid})" by (rule card_insert_le_m1) simp_all
  finally show False using assms window_card [of "next"] by simp
qed

section \<open>The outgoing window\<close>

text \<open>What the ordered map does to its entries.\<close>

definition deque_laws :: "'d deque_ops \<Rightarrow> ('d \<Rightarrow> u16 \<rightharpoonup> out_inflight_message) \<Rightarrow> bool" where
  "deque_laws D view \<longleftrightarrow>
     view (dq_empty D) = Map.empty
     \<and> (\<forall>k d. dq_get D k d = view d k)
     \<and> (\<forall>k m d. view d k \<noteq> None \<longrightarrow> view (dq_set D k m d) = (view d)(k \<mapsto> m))
     \<and> (\<forall>k m d d' old. dq_insert D k m d = (d', old) \<longrightarrow> old = view d k \<and> view d' = (view d)(k \<mapsto> m))
     \<and> (\<forall>k d d' old. dq_remove D k d = (d', old) \<longrightarrow> old = view d k \<and> view d' = (view d)(k := None))
     \<and> (\<forall>d. dq_front D d = None \<longleftrightarrow> view d = Map.empty)
     \<and> (\<forall>d k m. dq_front D d = Some (k, m) \<longrightarrow> view d k = Some m)
     \<and> (\<forall>d d' e. dq_pop_front D d = (d', e) \<longrightarrow> e = dq_front D d
          \<and> view d' = (case e of None \<Rightarrow> view d | Some (k, _) \<Rightarrow> (view d)(k := None)))
     \<and> (\<forall>d. dq_len D d = card (dom (view d)))"

lemma deque_lawsD:
  assumes "deque_laws D view"
  shows "view (dq_empty D) = Map.empty"
    and "dq_get D k d = view d k"
    and "view d k \<noteq> None \<Longrightarrow> view (dq_set D k m d) = (view d)(k \<mapsto> m)"
    and "dq_insert D k m d = (d', old) \<Longrightarrow> old = view d k \<and> view d' = (view d)(k \<mapsto> m)"
    and "dq_remove D k d = (d', old) \<Longrightarrow> old = view d k \<and> view d' = (view d)(k := None)"
    and "dq_front D d = None \<longleftrightarrow> view d = Map.empty"
    and "dq_front D d = Some (k, x) \<Longrightarrow> view d k = Some x"
    and "dq_pop_front D d = (d', e) \<Longrightarrow> e = dq_front D d
          \<and> view d' = (case e of None \<Rightarrow> view d | Some (k, _) \<Rightarrow> (view d)(k := None))"
    and "dq_len D d = card (dom (view d))"
  using assms unfolding deque_laws_def by (simp_all, blast?)

text \<open>Every message waits under its own packet identifier.\<close>

definition oi_inv :: "('d \<Rightarrow> u16 \<rightharpoonup> out_inflight_message) \<Rightarrow> 'd out_inflight \<Rightarrow> bool" where
  "oi_inv view w \<longleftrightarrow>
     (\<forall>k m. view (oi_queues w) k = Some m \<longrightarrow> pub_packet_id (oim_publish m) = Some k)"

lemma oi_inv_new: "deque_laws D view \<Longrightarrow> oi_inv view (out_inflight_new D cap retry expiry)"
  by (simp add: oi_inv_def out_inflight_new_def deque_lawsD(1))

lemma oi_push_back_view:
  assumes "deque_laws D view" and "pub_packet_id (oim_publish m) = Some pid"
    and "oi_push_back D m w = (w', old)"
  shows "view (oi_queues w') = (view (oi_queues w))(pid \<mapsto> m)
    \<and> old = Option.bind (view (oi_queues w) pid) (\<lambda>x. pub_packet_id (oim_publish x))"
  using assms(2,3) deque_lawsD(4) [OF assms(1)]
  by (auto simp: oi_push_back_def split: prod.splits)

lemma oi_inv_push_back:
  assumes "deque_laws D view" and "oi_inv view w"
  shows "oi_inv view (fst (oi_push_back D m w))"
proof (cases "pub_packet_id (oim_publish m)")
  case None
  then show ?thesis using assms(2) by (simp add: oi_push_back_def)
next
  case (Some pid)
  obtain w' old where r: "oi_push_back D m w = (w', old)" by fastforce
  from oi_push_back_view [OF assms(1) Some r] Some r assms(2) show ?thesis
    by (simp add: oi_inv_def)
qed

lemma oi_remove_view:
  assumes "deque_laws D view" and "oi_remove D pid w = (w', m)"
  shows "m = view (oi_queues w) pid \<and> view (oi_queues w') = (view (oi_queues w))(pid := None)"
  using assms(2) deque_lawsD(5) [OF assms(1)] by (auto simp: oi_remove_def split: prod.splits)

lemma oi_inv_remove: "deque_laws D view \<Longrightarrow> oi_inv view w \<Longrightarrow> oi_inv view (fst (oi_remove D pid w))"
  using oi_remove_view [of D view pid w "fst (oi_remove D pid w)" "snd (oi_remove D pid w)"]
  by (auto simp: oi_inv_def)

lemma oi_inv_update_status:
  "deque_laws D view \<Longrightarrow> oi_inv view w \<Longrightarrow> oi_inv view (oi_update_status D pid s now w)"
  by (auto simp: oi_inv_def oi_update_status_def deque_lawsD oim_update_status_def split: option.splits)

lemma oi_inv_pop_front: "deque_laws D view \<Longrightarrow> oi_inv view w \<Longrightarrow> oi_inv view (fst (oi_pop_front D w))"
  using deque_lawsD(8) [of D view "oi_queues w"]
  by (auto simp: oi_inv_def oi_pop_front_def split: prod.splits option.splits if_splits)

text \<open>A message is taken for retransmission only when its interval is over.\<close>

lemma oi_pop_front_timeout_due:
  assumes "deque_laws D view" and "oi_pop_front_timeout D now w = (w', Some m)"
  shows "oim_timeout (oi_interval w) now m \<and> (\<exists>k. view (oi_queues w) k = Some m
     \<and> view (oi_queues w') = (view (oi_queues w))(k := None))"
proof -
  have due: "oi_front_timeout D now w" and pop: "oi_pop_front D w = (w', Some m)"
    using assms(2) by (auto simp: oi_pop_front_timeout_def split: if_splits)
  obtain q e where qe: "dq_pop_front D (oi_queues w) = (q, e)" by fastforce
  then obtain k where k: "e = Some (k, m)" and w': "oi_queues w' = q"
    using pop by (auto simp: oi_pop_front_def)
  note laws = deque_lawsD(8) [OF assms(1) qe]
  have "dq_front D (oi_queues w) = Some (k, m)" using laws k by simp
  with due deque_lawsD(7) [OF assms(1) this] laws k w' show ?thesis
    by (auto simp: oi_front_timeout_def split: if_splits)
qed

text \<open>Draining the window takes every message out of it, whatever their number.\<close>

lemma oi_drain_view:
  assumes L: "deque_laws D view"
  shows "card (dom (view (oi_queues w))) \<le> n \<Longrightarrow> oi_drain D n w = (w', ms) \<Longrightarrow>
    view (oi_queues w') = Map.empty \<and> set ms = ran (view (oi_queues w))"
proof (induction n arbitrary: w w' ms)
  case 0
  then show ?case by simp
next
  case (Suc n)
  obtain q e where q: "dq_pop_front D (oi_queues w) = (q, e)" by fastforce
  note laws = deque_lawsD(8) [OF L q]
  show ?case
  proof (cases e)
    case None
    then have "dq_front D (oi_queues w) = None" using laws by simp
    then have "view (oi_queues w) = Map.empty" using deque_lawsD(6) [OF L] by blast
    moreover have "(w', ms) = (w\<lparr>oi_queues := q\<rparr>, [])" using Suc.prems(2) q None by (simp add: oi_pop_front_def)
    ultimately show ?thesis using laws None by simp
  next
    case (Some kx)
    obtain k x where kx: "kx = (k, x)" by fastforce
    have front: "view (oi_queues w) k = Some x" using laws Some kx deque_lawsD(7) [OF L] by metis
    have q': "view q = (view (oi_queues w))(k := None)" using laws Some kx by simp
    have c: "card (dom (view (oi_queues (w\<lparr>oi_queues := q\<rparr>)))) \<le> n"
      using Suc.prems(1) front by (simp add: q' card_Diff_singleton_if domI)
    obtain rest where d: "oi_drain D n (w\<lparr>oi_queues := q\<rparr>) = (w', rest)" and ms: "ms = x # rest"
      using Suc.prems(2) Some kx q by (auto simp: oi_pop_front_def split: prod.splits)
    have "ran (view (oi_queues w)) = insert x (ran (view q))"
      using front by (auto simp: q' ran_def) (metis option.inject)
    with Suc.IH [OF c d] ms show ?thesis by simp
  qed
qed

lemma to_inflight_messages_all:
  "deque_laws D view \<Longrightarrow> to_inflight_messages D w = (w', ms) \<Longrightarrow>
     view (oi_queues w') = Map.empty \<and> set ms = ran (view (oi_queues w))"
  by (auto simp: to_inflight_messages_def deque_lawsD(9) dest: oi_drain_view [OF _ order_refl])

text \<open>The window lets the deliverer go on exactly when it is not at its capacity.\<close>

lemma oi_has_credit_iff:
  assumes "deque_laws D view" and "oi_cap w < 2 ^ 64"
    and "card (dom (view (oi_queues w))) \<le> oi_cap w"
  shows "oi_has_credit D w \<longleftrightarrow> card (dom (view (oi_queues w))) < oi_cap w"
proof -
  let ?n = "card (dom (view (oi_queues w)))"
  have eq: "of_nat (oi_cap w) - of_nat ?n = (of_nat (oi_cap w - ?n) :: u64)"
    using assms(3) by (simp add: of_nat_diff)
  have un: "unat (of_nat (oi_cap w - ?n) :: u64) = oi_cap w - ?n"
    using assms(2) by (simp add: unat_of_nat)
  have "oi_has_credit D w \<longleftrightarrow> (of_nat (oi_cap w - ?n) :: u64) \<noteq> 0"
    unfolding oi_has_credit_def deque_lawsD(9) [OF assms(1)] eq by (simp only: word_neq_0_conv)
  also have "\<dots> \<longleftrightarrow> oi_cap w - ?n \<noteq> 0" using un by (metis unat_0 unat_eq_zero)
  finally show ?thesis by auto
qed

section \<open>The incoming window\<close>

definition ii_inv :: "in_inflight \<Rightarrow> bool" where
  "ii_inv ii \<longleftrightarrow> distinct (ii_cached ii) \<and> length (ii_cached ii) \<le> ii_max_inflight ii"

lemma ii_inv_new: "ii_inv (in_inflight_new m)"
  by (simp add: ii_inv_def in_inflight_new_def)

lemma ii_inv_add: "ii_inv ii \<Longrightarrow> ii_inv (fst (ii_add pid q ii))"
  by (auto simp: ii_inv_def ii_add_def)

lemma ii_inv_remove: "ii_inv ii \<Longrightarrow> ii_inv (fst (ii_remove pid ii))"
  by (auto simp: ii_inv_def ii_remove_def length_remove1)

end
