(* ===== verification/Rmqtt_Session.thy ===== *)
theory Rmqtt_Session
  imports Api_Auth Msg_Store Rmqtt_Router Rmqtt_Queue Rmqtt_Inflight
begin

text \<open>
  The sessions of the embedded broker on one node: \<open>session.rs\<close>, \<open>shared.rs\<close> and \<open>v3.rs\<close> of
  \<open>vendor/rmqtt/src\<close>, with the hooks of \<open>api.rs\<close>, the router and the message store plugged in as
  \<open>main.rs\<close> does. A session has a channel of messages from other sessions, a bounded queue of
  messages to deliver and a window of messages in flight. The build has neither retained nor delayed
  messages nor limited subscriptions, so their branches are absent. What a client publishes has no
  target client. Packet properties and topic aliases are not modelled: a publication here is what
  it is after its alias has been resolved. \<open>QoS::less_value\<close> and the ordered map of the window come from
  other crates and are parameters. The assertion that a session belongs to this node is an error here.
\<close>

section \<open>Model\<close>

subsection \<open>State\<close>

record 'w session_crates =
  sx_less_value :: "qos \<Rightarrow> qos \<Rightarrow> qos"
  sx_deque :: "'w deque_ops"

record last_will =
  lw_retain :: bool
  lw_qos :: qos
  lw_topic :: string
  lw_message :: bytes

record offline_info =
  of_id :: ident
  of_subscriptions :: "(string \<times> subscription_options) list"
  of_offline_messages :: "(from_info \<times> publish) list"
  of_inflight_messages :: "out_inflight_message list"

datatype message =
    Forward from_info publish
  | SessionStateTransfer offline_info bool
  | Subscribes "subscribe list"
  | SendRerelease out_inflight_message

record 'w session =
  ss_id :: ident
  ss_auth_info :: "auth_info option"
  ss_superuser :: bool
  ss_last_will :: "last_will option"
  ss_subscriptions :: "(string \<times> subscription_options) list"
  ss_deliver_queue :: "(from_info \<times> publish) queue"
  ss_out_inflight :: "'w out_inflight"

record 'w entry_item =
  en_s :: "'w session"
  en_tx :: "message list"
  en_closed :: bool

record listen_cfg =
  lc_max_subscriptions :: nat
  lc_max_topic_levels :: nat
  lc_max_qos_allowed :: qos
  lc_max_mqueue_len :: nat
  lc_max_inflight :: nat
  lc_retry_interval :: int
  lc_expiry_interval :: int

text \<open>The message manager is the store of \<open>main.rs\<close> or the default one, which does nothing.\<close>

record ('c, 'd, 'w) broker =
  bk_node_id :: u64
  bk_router :: "'c default_router"
  bk_peers :: "string \<rightharpoonup> 'w entry_item"
  bk_store :: "'d msg_store option"

subsection \<open>Channels\<close>

definition tx_send :: "message \<Rightarrow> 'w entry_item \<Rightarrow> 'w entry_item option" where
  "tx_send m e = (if en_closed e then None else Some (e\<lparr>en_tx := en_tx e @ [m]\<rparr>))"

text \<open>A message to the session of a client; it is lost when there is none or its channel is closed.\<close>

definition entry_send :: "string \<Rightarrow> message \<Rightarrow> ('c, 'd, 'w) broker \<Rightarrow> ('c, 'd, 'w) broker" where
  "entry_send cid m b =
     (case Option.bind (bk_peers b cid) (tx_send m) of
        Some e \<Rightarrow> b\<lparr>bk_peers := (bk_peers b)(cid \<mapsto> e)\<rparr>
      | None \<Rightarrow> b)"

text \<open>\<open>LockEntry::publish\<close> and \<open>SessionState::forward\<close>.\<close>

definition entry_publish :: "string \<Rightarrow> from_info \<Rightarrow> publish \<Rightarrow> ('c, 'd, 'w) broker \<Rightarrow> ('c, 'd, 'w) broker" where
  "entry_publish cid frm p = entry_send cid (Forward frm p)"

subsection \<open>Forwarding\<close>

fun opts_retain_as_published :: "subscription_options \<Rightarrow> bool option" where
  "opts_retain_as_published (OptsV3 _) = None"
| "opts_retain_as_published (OptsV5 o5) = Some (v5_retain_as_published o5)"

definition forward_copy :: "(qos \<Rightarrow> qos \<Rightarrow> qos) \<Rightarrow> subscription_options \<Rightarrow> publish \<Rightarrow> publish" where
  "forward_copy lv opts p =
     p\<lparr>pub_dup := False,
       pub_retain := (case opts_retain_as_published opts of
                        Some rap \<Rightarrow> if rap then pub_retain p else False
                      | None \<Rightarrow> False),
       pub_qos := lv (pub_qos p) (opts_qos opts),
       pub_packet_id := None\<rparr>"

fun forwards_to ::
    "(qos \<Rightarrow> qos \<Rightarrow> qos) \<Rightarrow> from_info \<Rightarrow> publish \<Rightarrow> sub_relation list \<Rightarrow> (string \<rightharpoonup> 'w entry_item)
     \<Rightarrow> (string \<rightharpoonup> 'w entry_item) \<times> (string \<times> publish \<times> string) list" where
  "forwards_to lv frm p [] peers = (peers, [])"
| "forwards_to lv frm p ((tf, cid, opts, ids, grp) # rels) peers =
     (let q = forward_copy lv opts p in
      case peers cid of
        None \<Rightarrow>
          (case forwards_to lv frm p rels peers of
             (peers', errs) \<Rightarrow> (peers', (cid, q, ''the client has disconnected'') # errs))
      | Some e \<Rightarrow>
          (case tx_send (Forward frm q) e of
             None \<Rightarrow>
               (case forwards_to lv frm p rels peers of
                  (peers', errs) \<Rightarrow> (peers', (cid, q, ''Connection Tx is closed'') # errs))
           | Some e' \<Rightarrow> forwards_to lv frm p rels (peers(cid \<mapsto> e'))))"

definition rel_client_ids :: "sub_relation \<Rightarrow> (string \<times> (string \<times> string) option) list" where
  "rel_client_ids = (\<lambda>(tf, cid, _, _, grp).
     case grp of
       Some (g, _, cids) \<Rightarrow> map (\<lambda>c. (c, if c = cid then Some (tf, g) else None)) cids
     | None \<Rightarrow> [(cid, None)])"

definition collect_subscription_client_ids ::
    "(u64 \<times> sub_relation list) list \<Rightarrow> (string \<times> (string \<times> string) option) list option" where
  "collect_subscription_client_ids m =
     (let ids = concat (map (\<lambda>(_, rels). concat (map rel_client_ids rels)) m)
      in if ids = [] then None else Some ids)"

text \<open>
  \<open>DefaultShared::forwards\<close>: only the relations of this node are served; \<open>online\<close> and \<open>rnd\<close> are what
  the choice of a shared subscriber depends on.
\<close>

definition shared_forwards ::
    "'w session_crates \<Rightarrow> (u64 \<Rightarrow> string \<Rightarrow> bool) \<Rightarrow> (string \<Rightarrow> string \<Rightarrow> nat \<Rightarrow> nat) \<Rightarrow> from_info \<Rightarrow> publish
     \<Rightarrow> ('c, 'd, 'w) broker
     \<Rightarrow> ('c, 'd, 'w) broker \<times> ((string \<times> publish \<times> string) list + (string \<times> (string \<times> string) option) list option)" where
  "shared_forwards X online rnd frm p b =
     (let rmap = (case router_matches online rnd (from_id frm) (pub_topic p) (bk_router b) of
                    Inr m \<Rightarrow> m | Inl _ \<Rightarrow> []);
          ids = collect_subscription_client_ids rmap
      in case map_of rmap (bk_node_id b) of
           None \<Rightarrow> (b, Inr ids)
         | Some rels \<Rightarrow>
             (case forwards_to (sx_less_value X) frm p rels (bk_peers b) of
                (peers, errs) \<Rightarrow> (b\<lparr>bk_peers := peers\<rparr>, if errs = [] then Inr ids else Inl errs)))"

text \<open>
  \<open>inner_forwards\<close>: \<open>avail\<close> says whether messages are stored, \<open>expiry\<close> is the expiry interval in
  milliseconds, \<open>now\<close> the time at which the store is called.
\<close>

definition inner_forwards ::
    "'w session_crates \<Rightarrow> (u64 \<Rightarrow> string \<Rightarrow> bool) \<Rightarrow> (string \<Rightarrow> string \<Rightarrow> nat \<Rightarrow> nat) \<Rightarrow> int
     \<Rightarrow> from_info \<Rightarrow> publish \<Rightarrow> bool \<Rightarrow> nat option \<Rightarrow> ('c, 'd, 'w) broker \<Rightarrow> ('c, 'd, 'w) broker" where
  "inner_forwards X online rnd now frm p avail expiry b =
     (let (store1, msg_id) =
            (case bk_store b of
               Some s \<Rightarrow> if avail then (case next_msg_id s of (s', i) \<Rightarrow> (Some s', Some i)) else (Some s, None)
             | None \<Rightarrow> (None, None));
          (b1, res) = shared_forwards X online rnd frm p (b\<lparr>bk_store := store1\<rparr>);
          sub_cids = (case res of Inr ids \<Rightarrow> ids | Inl _ \<Rightarrow> None)
      in case (msg_id, expiry, bk_store b1) of
           (Some i, Some ttl, Some s) \<Rightarrow>
             b1\<lparr>bk_store := Some (store_msg i frm p ttl (map_option (map fst) sub_cids) now s)\<rparr>
         | _ \<Rightarrow> b1)"

subsection \<open>Publishing\<close>

text \<open>\<open>message_publish_check_acl\<close> of the hook manager: superusers are not asked.\<close>

definition publish_acl_result :: "acl_config \<Rightarrow> 'w session \<Rightarrow> publish \<Rightarrow> publish_result" where
  "publish_acl_result acl s p =
     (if ss_superuser s then publish_acl_allow
      else case publish_check_acl acl (ss_auth_info s) p of
        (_, Some (PublishAclResult r)) \<Rightarrow> r
      | _ \<Rightarrow> publish_acl_allow)"

definition session_publish ::
    "'w session_crates \<Rightarrow> acl_config \<Rightarrow> (u64 \<Rightarrow> string \<Rightarrow> bool) \<Rightarrow> (string \<Rightarrow> string \<Rightarrow> nat \<Rightarrow> nat) \<Rightarrow> int \<Rightarrow> nat
     \<Rightarrow> 'w session \<Rightarrow> publish \<Rightarrow> ('c, 'd, 'w) broker \<Rightarrow> ('c, 'd, 'w) broker \<times> publish_result result" where
  "session_publish X acl online rnd now ttl s p b =
     (let r = publish_acl_result acl s p in
      if \<not> publish_acl_is_allow r then
        (b, if pr_disconnect r
            then Inl (OtherError (case pr_reason_string r of Some x \<Rightarrow> x | None \<Rightarrow> [])) else Inr r)
      else
        let avail = (bk_store b \<noteq> None);
            expiry = (if avail then Some ttl else None)
        in (inner_forwards X online rnd now \<lparr>from_typ = Custom, from_id = ss_id s\<rparr> p avail expiry b,
            Inr (publish_result_reason_code PubSuccess None False)))"

text \<open>
  \<open>process_publish\<close>: the identifiers of incoming messages are kept beside the session; \<open>sent\<close> says whether
  the acknowledgement could be sent.
\<close>

definition reason_of :: "in_error \<Rightarrow> error" where
  "reason_of e = (case e of
     InflightWindowFull \<Rightarrow> OtherError ''InflightWindowFull'' | PacketIdInUse _ \<Rightarrow> OtherError ''PacketIdInUse'')"

definition ack_sent :: "bool \<Rightarrow> unit result" where
  "ack_sent sent = (if sent then Inr () else Inl (OtherError ''send''))"

definition process_publish ::
    "'w session_crates \<Rightarrow> acl_config \<Rightarrow> (u64 \<Rightarrow> string \<Rightarrow> bool) \<Rightarrow> (string \<Rightarrow> string \<Rightarrow> nat \<Rightarrow> nat) \<Rightarrow> int \<Rightarrow> nat \<Rightarrow> bool
     \<Rightarrow> 'w session \<Rightarrow> publish \<Rightarrow> in_inflight \<times> ('c, 'd, 'w) broker \<Rightarrow> (in_inflight \<times> ('c, 'd, 'w) broker) \<times> unit result" where
  "process_publish X acl online rnd now ttl sent s p = (\<lambda>(ii, b).
     let publish_it = session_publish X acl online rnd now ttl s p b
     in case (pub_qos p, pub_packet_id p) of
          (AtMostOnce, _) \<Rightarrow> ((ii, fst publish_it), map_sum id (\<lambda>_. ()) (snd publish_it))
        | (_, None) \<Rightarrow> ((ii, b), Inl (OtherError ''packet_id is None''))
        | (AtLeastOnce, Some pid) \<Rightarrow>
            (case ii_add pid AtLeastOnce ii of
               (ii1, Inl e) \<Rightarrow> ((ii1, b), Inl (reason_of e))
             | (ii1, Inr fresh) \<Rightarrow>
                 ((if fresh then fst (ii_remove pid ii1) else ii1, fst publish_it),
                  rbind (snd publish_it) (\<lambda>_. ack_sent sent)))
        | (ExactlyOnce, Some pid) \<Rightarrow>
            (case publish_it of
               (b1, Inl e) \<Rightarrow> ((ii, b1), Inl e)
             | (b1, Inr r) \<Rightarrow>
                 (case if publish_result_is_success r then ii_add pid ExactlyOnce ii else (ii, Inr False) of
                    (ii1, Inl e) \<Rightarrow> ((ii1, b1), Inl (reason_of e))
                  | (ii1, Inr fresh) \<Rightarrow>
                      ((if fresh \<and> \<not> sent then fst (ii_remove pid ii1) else ii1, b1), ack_sent sent))))"

definition publish_of_will :: "last_will \<Rightarrow> publish" where
  "publish_of_will lw =
     \<lparr>pub_dup = False, pub_retain = lw_retain lw, pub_qos = lw_qos lw, pub_topic = lw_topic lw,
      pub_packet_id = None, pub_payload = lw_message lw\<rparr>"

definition process_last_will ::
    "'w session_crates \<Rightarrow> (u64 \<Rightarrow> string \<Rightarrow> bool) \<Rightarrow> (string \<Rightarrow> string \<Rightarrow> nat \<Rightarrow> nat) \<Rightarrow> int \<Rightarrow> nat
     \<Rightarrow> 'w session \<Rightarrow> ('c, 'd, 'w) broker \<Rightarrow> ('c, 'd, 'w) broker" where
  "process_last_will X online rnd now ttl s b =
     (case ss_last_will s of
        None \<Rightarrow> b
      | Some lw \<Rightarrow>
          let avail = (bk_store b \<noteq> None);
              expiry = (if avail then Some ttl else None)
          in inner_forwards X online rnd now \<lparr>from_typ = LastWill, from_id = ss_id s\<rparr>
               (publish_of_will lw) avail expiry b)"

subsection \<open>Stored messages\<close>

type_synonym stored = "u64 \<times> from_info \<times> publish"

text \<open>The replies of the other nodes; the first that is an error makes the load fail.\<close>

fun merge_replies :: "stored list \<Rightarrow> stored list result list \<Rightarrow> stored list result" where
  "merge_replies msgs [] = Inr msgs"
| "merge_replies msgs (reply # replies) =
     (case reply of Inl e \<Rightarrow> Inl e | Inr res \<Rightarrow> merge_replies (msgs @ res) replies)"

definition message_load ::
    "string \<Rightarrow> string \<Rightarrow> int \<Rightarrow> stored list result list \<Rightarrow> ('c, 'd, 'w) broker
     \<Rightarrow> ('c, 'd, 'w) broker \<times> stored list result" where
  "message_load cid filt now replies b =
     (case bk_store b of
        None \<Rightarrow> (b, Inr [])
      | Some s \<Rightarrow>
          (case get_msgs cid filt now s of
             (s', msgs) \<Rightarrow> (b\<lparr>bk_store := Some s'\<rparr>, merge_replies msgs replies)))"

definition stored_copy :: "(qos \<Rightarrow> qos \<Rightarrow> qos) \<Rightarrow> qos \<Rightarrow> publish \<Rightarrow> publish" where
  "stored_copy lv q p =
     p\<lparr>pub_dup := False, pub_retain := False, pub_qos := lv (pub_qos p) q, pub_packet_id := None\<rparr>"

definition send_storaged_messages ::
    "'w session_crates \<Rightarrow> string \<Rightarrow> string \<Rightarrow> qos \<Rightarrow> int \<Rightarrow> stored list result list \<Rightarrow> ('c, 'd, 'w) broker
     \<Rightarrow> ('c, 'd, 'w) broker \<times> unit result" where
  "send_storaged_messages X cid filt q now replies b =
     (case message_load cid filt now replies b of
        (b1, Inl e) \<Rightarrow> (b1, Inl e)
      | (b1, Inr msgs) \<Rightarrow>
          (fold (\<lambda>(_, frm, p). entry_publish cid frm (stored_copy (sx_less_value X) q p)) msgs b1, Inr ()))"

subsection \<open>Subscribing\<close>

definition subscribe_acl_result :: "acl_config \<Rightarrow> 'w session \<Rightarrow> subscribe \<Rightarrow> subscribe_return option" where
  "subscribe_acl_result acl s sub =
     (if ss_superuser s then Some (sub_new_success (opts_qos (sub_opts sub)) None)
      else case subscribe_check_acl acl (ss_auth_info s) sub of
        (_, Some (SubscribeAclResult r)) \<Rightarrow> Some r
      | _ \<Rightarrow> None)"

definition entry_subscribe ::
    "'c counter_ops \<Rightarrow> ident \<Rightarrow> subscribe \<Rightarrow> ('c, 'd, 'w) broker
     \<Rightarrow> ('c, 'd, 'w) broker \<times> subscribe_return result" where
  "entry_subscribe K i sub b =
     (case bk_peers b (id_client_id i) of
        None \<Rightarrow> (b, Inl (OtherError ''session is not exist''))
      | Some e \<Rightarrow>
          if id_node_id (ss_id (en_s e)) \<noteq> bk_node_id b then (b, Inl (OtherError ''session node exception''))
          else
            let tf = sub_topic_filter sub;
                opts = sub_opts sub
            in (case router_add K tf i opts (bk_router b) of
                  (r, Inl err) \<Rightarrow> (b\<lparr>bk_router := r\<rparr>, Inl err)
                | (r, Inr _) \<Rightarrow>
                    let s = en_s e;
                        prev = map_of (ss_subscriptions s) tf;
                        s' = s\<lparr>ss_subscriptions := AList.update tf opts (ss_subscriptions s)\<rparr>
                    in (b\<lparr>bk_router := r, bk_peers := (bk_peers b)(id_client_id i \<mapsto> e\<lparr>en_s := s'\<rparr>)\<rparr>,
                        Inr (sub_new_success (opts_qos opts) prev))))"

text \<open>\<open>_subscribe\<close>, in three parts: the check, the entry with its stored messages, and the limits before them.\<close>

definition checked_sub ::
    "(qos \<Rightarrow> qos \<Rightarrow> qos) \<Rightarrow> acl_config \<Rightarrow> listen_cfg \<Rightarrow> 'w session \<Rightarrow> subscribe \<Rightarrow> subscribe_return + subscribe" where
  "checked_sub lv acl cfg s sub =
     (let sub1 = sub\<lparr>sub_opts := opts_set_qos (lv (opts_qos (sub_opts sub)) (lc_max_qos_allowed cfg)) (sub_opts sub)\<rparr>
      in case subscribe_acl_result acl s sub1 of
           None \<Rightarrow> Inr sub1
         | Some r \<Rightarrow>
             (case sub_success r of
                Some q \<Rightarrow> Inr (sub1\<lparr>sub_opts := opts_set_qos (lv (opts_qos (sub_opts sub1)) q) (sub_opts sub1)\<rparr>)
              | None \<Rightarrow> Inl r))"

definition subscribe_send ::
    "'w session_crates \<Rightarrow> 'c counter_ops \<Rightarrow> int \<Rightarrow> stored list result list \<Rightarrow> ident
     \<Rightarrow> subscribe \<Rightarrow> ('c, 'd, 'w) broker \<Rightarrow> ('c, 'd, 'w) broker \<times> subscribe_return result" where
  "subscribe_send X K now replies i sub b =
     (case entry_subscribe K i sub b of
        (b1, Inl e) \<Rightarrow> (b1, Inl e)
      | (b1, Inr ret) \<Rightarrow>
          (case sub_success ret of
             None \<Rightarrow> (b1, Inr ret)
           | Some q \<Rightarrow>
               if bk_store b1 = None then (b1, Inr ret)
               else (case send_storaged_messages X (id_client_id i) (sub_topic_filter sub) q now replies b1 of
                       (b2, Inl e) \<Rightarrow> (b2, Inl e)
                     | (b2, Inr _) \<Rightarrow> (b2, Inr ret))))"

definition session_subscribe ::
    "'w session_crates \<Rightarrow> 'c counter_ops \<Rightarrow> acl_config \<Rightarrow> listen_cfg \<Rightarrow> int \<Rightarrow> stored list result list \<Rightarrow> 'w session
     \<Rightarrow> subscribe \<Rightarrow> ('c, 'd, 'w) broker \<Rightarrow> ('c, 'd, 'w) broker \<times> subscribe_return result" where
  "session_subscribe X K acl cfg now replies s sub b =
     (let levels = (if lc_max_topic_levels cfg > 0 then map_sum id length (topic_from_str (sub_topic_filter sub))
                    else Inr 0)
      in if lc_max_subscriptions cfg > 0 \<and> length (ss_subscriptions s) \<ge> lc_max_subscriptions cfg
         then (b, Inl (OtherError ''TooManySubscriptions''))
         else case levels of
           Inl e \<Rightarrow> (b, Inl e)
         | Inr n \<Rightarrow>
             if n > lc_max_topic_levels cfg then (b, Inl (OtherError ''TooManyTopicLevels''))
             else case checked_sub (sx_less_value X) acl cfg s sub of
               Inl r \<Rightarrow> (b, Inr r)
             | Inr sub2 \<Rightarrow> subscribe_send X K now replies (ss_id s) sub2 b)"

definition session_unsubscribe ::
    "'c counter_ops \<Rightarrow> 'w session \<Rightarrow> string \<Rightarrow> ('c, 'd, 'w) broker \<Rightarrow> ('c, 'd, 'w) broker \<times> bool result" where
  "session_unsubscribe K s tf b =
     (case bk_peers b (id_client_id (ss_id s)) of
        None \<Rightarrow> (b, Inl (OtherError ''session is not exist''))
      | Some e \<Rightarrow>
          let t = en_s e
          in (b\<lparr>bk_router := fst (router_remove K tf (ss_id s) (bk_router b)),
                bk_peers := (bk_peers b)(id_client_id (ss_id s) \<mapsto>
                  e\<lparr>en_s := t\<lparr>ss_subscriptions := AList.delete tf (ss_subscriptions t)\<rparr>\<rparr>)\<rparr>,
              Inr (map_of (ss_subscriptions t) tf \<noteq> None)))"

subsection \<open>Taking over and ending sessions\<close>

text \<open>\<open>LockEntry::_remove\<close>: \<open>clear\<close> takes the subscriptions of the removed session out of the router.\<close>

definition remove_entry ::
    "'c counter_ops \<Rightarrow> bool \<Rightarrow> string \<Rightarrow> ('c, 'd, 'w) broker \<Rightarrow> ('c, 'd, 'w) broker \<times> 'w session option" where
  "remove_entry K clear cid b =
     (case bk_peers b cid of
        None \<Rightarrow> (b, None)
      | Some e \<Rightarrow>
          let s = en_s e;
              r = (if clear then fold (\<lambda>(tf, _) r. fst (router_remove K tf (ss_id s) r)) (ss_subscriptions s) (bk_router b)
                   else bk_router b)
          in (b\<lparr>bk_router := r, bk_peers := (bk_peers b)(cid := None)\<rparr>, Some s))"

definition to_offline_info :: "'w session_crates \<Rightarrow> 'w session \<Rightarrow> offline_info" where
  "to_offline_info X s =
     \<lparr>of_id = ss_id s, of_subscriptions = ss_subscriptions s,
      of_offline_messages = q_inner (ss_deliver_queue s),
      of_inflight_messages = snd (to_inflight_messages (sx_deque X) (ss_out_inflight s))\<rparr>"

text \<open>
  \<open>LockEntry::kick\<close> after the old session has stopped: its messages stay behind unless the new one
  starts clean.
\<close>

definition kick ::
    "'w session_crates \<Rightarrow> 'c counter_ops \<Rightarrow> bool \<Rightarrow> string \<Rightarrow> ('c, 'd, 'w) broker
     \<Rightarrow> ('c, 'd, 'w) broker \<times> offline_info option" where
  "kick X K clean_start cid b =
     (case remove_entry K clean_start cid b of
        (b1, None) \<Rightarrow> (b1, None)
      | (b1, Some s) \<Rightarrow> (b1, if clean_start then None else Some (to_offline_info X s)))"

text \<open>\<open>client_authenticate\<close> of the hook manager for listeners that admit no anonymous clients.\<close>

definition client_authenticate :: "return_type \<Rightarrow> (bool \<times> auth_info option) option" where
  "client_authenticate ret =
     (case snd ret of
        Some (AuthResult (AuthAllow superuser info)) \<Rightarrow> Some (superuser, info)
      | _ \<Rightarrow> None)"

definition new_session ::
    "'w session_crates \<Rightarrow> listen_cfg \<Rightarrow> ident \<Rightarrow> bool \<Rightarrow> auth_info option \<Rightarrow> last_will option \<Rightarrow> 'w session" where
  "new_session X cfg i superuser info will =
     \<lparr>ss_id = i, ss_auth_info = info, ss_superuser = superuser, ss_last_will = will, ss_subscriptions = [],
      ss_deliver_queue = queue_new (lc_max_mqueue_len cfg),
      ss_out_inflight = out_inflight_new (sx_deque X) (lc_max_inflight cfg) (lc_retry_interval cfg) (lc_expiry_interval cfg)\<rparr>"

text \<open>
  \<open>_handshake\<close> from the authentication on; \<open>auto_subs\<close> is what the automatic subscription answers, if it is
  enabled. When it fails the new session is dropped, which closes its channel but leaves its entry.
\<close>

definition handshake ::
    "'w session_crates \<Rightarrow> 'c counter_ops \<Rightarrow> listen_cfg \<Rightarrow> ident \<Rightarrow> last_will option \<Rightarrow> bool \<Rightarrow> return_type
     \<Rightarrow> subscribe list result option \<Rightarrow> ('c, 'd, 'w) broker \<Rightarrow> ('c, 'd, 'w) broker \<times> unit result" where
  "handshake X K cfg i will clean_session ret auto_subs b =
     (case client_authenticate ret of
        None \<Rightarrow> (b, Inl (OtherError ''Authentication failed''))
      | Some (superuser, info) \<Rightarrow>
          let cid = id_client_id i;
              (b1, off) = kick X K clean_session cid b;
              tx = (case off of Some o_info \<Rightarrow> [SessionStateTransfer o_info clean_session] | None \<Rightarrow> []);
              e = \<lparr>en_s = new_session X cfg i superuser info will, en_tx = tx, en_closed = False\<rparr>
          in (case auto_subs of
                Some (Inl err) \<Rightarrow> (b1\<lparr>bk_peers := (bk_peers b1)(cid \<mapsto> e\<lparr>en_closed := True\<rparr>)\<rparr>, Inl err)
              | Some (Inr subs) \<Rightarrow>
                  (b1\<lparr>bk_peers := (bk_peers b1)(cid \<mapsto> e\<lparr>en_tx := tx @ [Subscribes subs]\<rparr>)\<rparr>, Inr ())
              | None \<Rightarrow> (b1\<lparr>bk_peers := (bk_peers b1)(cid \<mapsto> e)\<rparr>, Inr ())))"

text \<open>
  \<open>transfer_session_state\<close>: the subscriptions of the old session are added for the new one, with the
  stored messages for each; then the unacknowledged messages, the last one first, and the queued ones
  are forwarded. A message whose release is outstanding is skipped.
\<close>

definition transfer_subscription ::
    "'w session_crates \<Rightarrow> 'c counter_ops \<Rightarrow> int \<Rightarrow> ident \<Rightarrow> string \<times> subscription_options
     \<Rightarrow> ('c, 'd, 'w) broker \<Rightarrow> ('c, 'd, 'w) broker" where
  "transfer_subscription X K now i = (\<lambda>(tf, opts) b.
     let b1 = b\<lparr>bk_router := fst (router_add K tf i opts (bk_router b))\<rparr>
     in fst (send_storaged_messages X (id_client_id i) tf (opts_qos opts) now [] b1))"

definition reforward :: "bool \<Rightarrow> string \<Rightarrow> out_inflight_message \<Rightarrow> ('c, 'd, 'w) broker \<Rightarrow> ('c, 'd, 'w) broker" where
  "reforward expired cid m b =
     (case oim_status m of
        UnComplete \<Rightarrow> if expired then b else entry_send cid (SendRerelease m) b
      | _ \<Rightarrow> entry_publish cid (oim_from m) ((oim_publish m)\<lparr>pub_dup := True\<rparr>) b)"

definition extend_subscriptions ::
    "string \<Rightarrow> (string \<times> subscription_options) list \<Rightarrow> ('c, 'd, 'w) broker \<Rightarrow> ('c, 'd, 'w) broker" where
  "extend_subscriptions cid subs b =
     (case bk_peers b cid of
        None \<Rightarrow> b
      | Some e \<Rightarrow>
          let s = en_s e
          in b\<lparr>bk_peers := (bk_peers b)(cid \<mapsto> e\<lparr>en_s := s\<lparr>ss_subscriptions :=
                 fold (\<lambda>(tf, opts). AList.update tf opts) subs (ss_subscriptions s)\<rparr>\<rparr>)\<rparr>)"

definition transfer_session_state ::
    "'w session_crates \<Rightarrow> 'c counter_ops \<Rightarrow> int \<Rightarrow> ident \<Rightarrow> bool \<Rightarrow> offline_info \<Rightarrow> ('c, 'd, 'w) broker
     \<Rightarrow> ('c, 'd, 'w) broker" where
  "transfer_session_state X K now i clear o_info b =
     (let cid = id_client_id i;
          b1 = (if clear then b else fold (transfer_subscription X K now i) (of_subscriptions o_info) b);
          b2 = (if clear then b1 else extend_subscriptions cid (of_subscriptions o_info) b1);
          b3 = fold (\<lambda>m. if oim_status m \<noteq> UnComplete then reforward False cid m else id)
                 (rev (of_inflight_messages o_info)) b2
      in fold (\<lambda>(frm, p). entry_publish cid frm p) (of_offline_messages o_info) b3)"

text \<open>\<open>clean\<close> at the end of a session: its entry is removed when it still is the client's.\<close>

definition session_clean :: "'c counter_ops \<Rightarrow> 'w session \<Rightarrow> ('c, 'd, 'w) broker \<Rightarrow> ('c, 'd, 'w) broker" where
  "session_clean K s b =
     (case bk_peers b (id_client_id (ss_id s)) of
        Some e \<Rightarrow> if ss_id (en_s e) = ss_id s then fst (remove_entry K True (id_client_id (ss_id s)) b) else b
      | None \<Rightarrow> b)"

subsection \<open>The loop of a session\<close>

definition deliver_policy :: "from_info \<times> publish \<Rightarrow> policy" where
  "deliver_policy m = (if pub_qos (snd m) = AtMostOnce then PolicyCurrent else PolicyEarly)"

text \<open>The first message of the channel is processed.\<close>

definition process_message ::
    "'w session_crates \<Rightarrow> 'c counter_ops \<Rightarrow> acl_config \<Rightarrow> listen_cfg \<Rightarrow> int \<Rightarrow> string \<Rightarrow> ('c, 'd, 'w) broker
     \<Rightarrow> ('c, 'd, 'w) broker" where
  "process_message X K acl cfg now cid b =
     (case bk_peers b cid of
        None \<Rightarrow> b
      | Some e \<Rightarrow>
          (case en_tx e of
             [] \<Rightarrow> b
           | m # rest \<Rightarrow>
               let s = en_s e;
                   b1 = b\<lparr>bk_peers := (bk_peers b)(cid \<mapsto> e\<lparr>en_tx := rest\<rparr>)\<rparr>
               in (case m of
                     Forward frm p \<Rightarrow>
                       b1\<lparr>bk_peers := (bk_peers b)(cid \<mapsto> e\<lparr>en_tx := rest, en_s := s\<lparr>ss_deliver_queue :=
                           fst (sender_send deliver_policy (frm, p) (ss_deliver_queue s))\<rparr>\<rparr>)\<rparr>
                   | SessionStateTransfer o_info clean_start \<Rightarrow>
                       transfer_session_state X K now (ss_id s) clean_start o_info b1
                   | Subscribes subs \<Rightarrow>
                       fold (\<lambda>sub b. case bk_peers b cid of
                           Some e' \<Rightarrow> fst (session_subscribe X K acl cfg now [] (en_s e') sub b)
                         | None \<Rightarrow> b) subs b1
                   | SendRerelease x \<Rightarrow>
                       if pub_packet_id (oim_publish x) = None then b1
                       else b1\<lparr>bk_peers := (bk_peers b)(cid \<mapsto> e\<lparr>en_tx := rest, en_s := s\<lparr>ss_out_inflight :=
                           fst (oi_push_back (sx_deque X) (oim_new UnComplete (oim_from x) (oim_publish x) now)
                             (ss_out_inflight s))\<rparr>\<rparr>)\<rparr>)))"

text \<open>
  \<open>deliver\<close> takes the first message of the queue, gives it a packet identifier if it needs one and puts it into
  the window once it is sent; \<open>expired\<close> is the outcome of the expiry check, \<open>sent\<close> whether the connection took
  the packet. The value is what is sent to the client, or the error that ends the session.
\<close>

definition with_packet_id ::
    "'w session_crates \<Rightarrow> publish \<Rightarrow> 'w out_inflight \<Rightarrow> 'w out_inflight \<times> publish result" where
  "with_packet_id X p w =
     (if pub_qos p \<noteq> AtMostOnce \<and> (\<not> pub_dup p \<or> pub_packet_id p = None)
      then (case oi_next_id (sx_deque X) w of
              (w', Inl e) \<Rightarrow> (w', Inl e)
            | (w', Inr pid) \<Rightarrow> (w', Inr (p\<lparr>pub_packet_id := if pid = 0 then None else Some pid\<rparr>)))
      else (w, Inr p))"

definition keep_in_flight ::
    "'w session_crates \<Rightarrow> int \<Rightarrow> from_info \<Rightarrow> publish \<Rightarrow> 'w out_inflight \<Rightarrow> 'w out_inflight" where
  "keep_in_flight X now frm p w =
     (case pub_qos p of
        AtLeastOnce \<Rightarrow> fst (oi_push_back (sx_deque X) (oim_new UnAck frm p now) w)
      | ExactlyOnce \<Rightarrow> fst (oi_push_back (sx_deque X) (oim_new UnReceived frm p now) w)
      | AtMostOnce \<Rightarrow> w)"

definition deliver ::
    "'w session_crates \<Rightarrow> int \<Rightarrow> bool \<Rightarrow> bool \<Rightarrow> 'w session \<Rightarrow> 'w session \<times> publish option result" where
  "deliver X now expired sent s =
     (case queue_pop (ss_deliver_queue s) of
        (q, None) \<Rightarrow> (s, Inr None)
      | (q, Some (frm, p)) \<Rightarrow>
          let s1 = s\<lparr>ss_deliver_queue := q\<rparr>
          in if expired then (s1, Inr None)
             else case with_packet_id X p (ss_out_inflight s) of
               (w1, Inl e) \<Rightarrow> (s1\<lparr>ss_out_inflight := w1\<rparr>, Inl e)
             | (w1, Inr p1) \<Rightarrow>
                 if sent then (s1\<lparr>ss_out_inflight := keep_in_flight X now frm p1 w1\<rparr>, Inr (Some p1))
                 else (s1\<lparr>ss_out_inflight := w1\<rparr>, Inl (OtherError ''send'')))"

text \<open>\<open>deliver_timeout\<close>: a message in flight that was not acknowledged in time is forwarded again.\<close>

definition session_retry ::
    "'w session_crates \<Rightarrow> int \<Rightarrow> bool \<Rightarrow> string \<Rightarrow> ('c, 'd, 'w) broker \<Rightarrow> ('c, 'd, 'w) broker" where
  "session_retry X now expired cid b =
     (case bk_peers b cid of
        None \<Rightarrow> b
      | Some e \<Rightarrow>
          (case oi_pop_front_timeout (sx_deque X) now (ss_out_inflight (en_s e)) of
             (w, m) \<Rightarrow>
               let b1 = b\<lparr>bk_peers := (bk_peers b)(cid \<mapsto> e\<lparr>en_s := (en_s e)\<lparr>ss_out_inflight := w\<rparr>\<rparr>)\<rparr>
               in (case m of None \<Rightarrow> b1 | Some x \<Rightarrow> reforward expired cid x b1)))"

text \<open>The acknowledgements of the client: \<open>PublishAck\<close> and \<open>PublishComplete\<close>, and \<open>PublishReceived\<close>.\<close>

definition session_ack :: "'w session_crates \<Rightarrow> u16 \<Rightarrow> 'w session \<Rightarrow> 'w session" where
  "session_ack X pid s = s\<lparr>ss_out_inflight := fst (oi_remove (sx_deque X) pid (ss_out_inflight s))\<rparr>"

definition session_received :: "'w session_crates \<Rightarrow> u16 \<Rightarrow> int \<Rightarrow> 'w session \<Rightarrow> 'w session" where
  "session_received X pid now s =
     s\<lparr>ss_out_inflight := oi_update_status (sx_deque X) pid UnComplete now (ss_out_inflight s)\<rparr>"

text \<open>The channel of a session whose client is away: only forwarded messages are kept.\<close>

definition offline_message :: "string \<Rightarrow> ('c, 'd, 'w) broker \<Rightarrow> ('c, 'd, 'w) broker" where
  "offline_message cid b =
     (case bk_peers b cid of
        None \<Rightarrow> b
      | Some e \<Rightarrow>
          (case en_tx e of
             [] \<Rightarrow> b
           | Forward frm p # rest \<Rightarrow>
               b\<lparr>bk_peers := (bk_peers b)(cid \<mapsto> e\<lparr>en_tx := rest, en_s := (en_s e)\<lparr>ss_deliver_queue :=
                   fst (sender_send deliver_policy (frm, p) (ss_deliver_queue (en_s e)))\<rparr>\<rparr>)\<rparr>
           | _ # rest \<Rightarrow> b\<lparr>bk_peers := (bk_peers b)(cid \<mapsto> e\<lparr>en_tx := rest\<rparr>)\<rparr>))"

text \<open>
  The end of \<open>run\<close>: the last will, unless the client said goodbye or its session goes on elsewhere or the will
  is delayed; then the session is cleaned up or stays as an offline one.
\<close>

record state_flags =
  sf_kicked :: bool
  sf_by_admin_kick :: bool
  sf_clean_start :: bool
  sf_disconnect_received :: bool

definition last_will_enable :: "state_flags \<Rightarrow> bool \<Rightarrow> bool" where
  "last_will_enable flags clean_session \<longleftrightarrow>
     (let session_present = sf_kicked flags \<and> \<not> sf_clean_start flags \<and> \<not> clean_session
      in \<not> (sf_disconnect_received flags \<or> session_present))"

definition session_end ::
    "'w session_crates \<Rightarrow> 'c counter_ops \<Rightarrow> (u64 \<Rightarrow> string \<Rightarrow> bool) \<Rightarrow> (string \<Rightarrow> string \<Rightarrow> nat \<Rightarrow> nat) \<Rightarrow> int \<Rightarrow> nat
     \<Rightarrow> state_flags \<Rightarrow> bool \<Rightarrow> nat option \<Rightarrow> 'w session \<Rightarrow> ('c, 'd, 'w) broker \<Rightarrow> ('c, 'd, 'w) broker" where
  "session_end X K online rnd now ttl flags clean_session will_delay s b =
     (let b1 = (if last_will_enable flags clean_session \<and> (clean_session \<or> will_delay = None)
                then process_last_will X online rnd now ttl s b else b)
      in if sf_kicked flags then (if sf_by_admin_kick flags then session_clean K s b1 else b1)
         else if clean_session then session_clean K s b1
         else b1)"

end
