(* ===== verification/Msg_Store_Inv.thy ===== *)
theory Msg_Store_Inv
  imports Msg_Store
begin

text \<open>
  The invariant of the message store's memory and that every operation keeps it; the bounds that
  eviction enforces; and what \<open>get\<close> returns. The matcher is reached through the locale
  \<open>topic_matcher\<close>, whose law is what makes the direct index lookup for a filter without
  wildcards the same as a scan of the index.
\<close>

section \<open>The topic index\<close>

locale topic_matcher =
  fixes matches :: "string \<Rightarrow> string \<Rightarrow> bool"
    and wild :: "string \<Rightarrow> bool"
  assumes exact: "\<not> wild filt \<Longrightarrow> matches topic filt \<longleftrightarrow> topic = filt"
begin

lemma scan_is_lookup:
  assumes "distinct (map fst idx)" and "\<not> wild filt"
  shows "concat (map snd (filter (\<lambda>(t, _). matches t filt) idx)) =
     (case map_of idx filt of Some ids \<Rightarrow> ids | None \<Rightarrow> [])"
  using assms(1)
proof (induction idx)
  case (Cons p idx)
  have "t \<notin> fst ` set idx \<Longrightarrow> filter (\<lambda>(u, _). u = t) idx = []" for t
    by (force simp: filter_empty_conv)
  with Cons show ?case by (cases p) (auto simp: exact [OF assms(2)])
qed simp

end

interpretation tmatch: topic_matcher topic_matches has_wildcard
  by unfold_locales (rule topic_matches_exact)

definition ids_at :: "(string \<times> u64 list) list \<Rightarrow> string \<Rightarrow> u64 list" where
  "ids_at idx t = (case map_of idx t of None \<Rightarrow> [] | Some ids \<Rightarrow> ids)"

lemma ids_at_unindex:
  "ids_at (unindex t i idx) u = (if u = t then removeAll i (ids_at idx t) else ids_at idx u)"
  by (auto simp: ids_at_def unindex_def Let_def AList.delete_conv' AList.update_conv' split: option.splits)

lemma ids_at_index_add:
  "ids_at (index_add t i idx) u = (if u = t then List.insert i (ids_at idx t) else ids_at idx u)"
  by (auto simp: ids_at_def index_add_def AList.update_conv' split: option.splits)

lemma distinct_unindex: "distinct (map fst idx) \<Longrightarrow> distinct (map fst (unindex t i idx))"
  by (simp add: unindex_def Let_def AList.distinct_delete AList.distinct_update split: option.splits)

lemma distinct_index_add: "distinct (map fst idx) \<Longrightarrow> distinct (map fst (index_add t i idx))"
  by (simp add: index_add_def AList.distinct_update)

text \<open>The index lists, under every topic, exactly the messages with that topic.\<close>

definition index_ok :: "(string \<times> u64 list) list \<Rightarrow> (u64 \<times> stored_msg) list \<Rightarrow> bool" where
  "index_ok idx msgs \<longleftrightarrow>
     distinct (map fst idx)
     \<and> (\<forall>t i. i \<in> set (ids_at idx t) \<longleftrightarrow> (\<exists>m. map_of msgs i = Some m \<and> sm_topic m = t))"

lemma index_ok_unindex:
  assumes "index_ok idx msgs" and "map_of msgs i = Some m"
  shows "index_ok (unindex (sm_topic m) i idx) (AList.delete i msgs)"
  using assms by (auto simp: index_ok_def distinct_unindex ids_at_unindex AList.delete_conv')

text \<open>Overwriting a message keeps the index right only when the topic stays the same.\<close>

lemma index_ok_add:
  assumes "index_ok idx msgs" and "\<And>old. map_of msgs i = Some old \<Longrightarrow> sm_topic old = sm_topic m"
  shows "index_ok (index_add (sm_topic m) i idx) (AList.update i m msgs)"
  using assms by (auto simp: index_ok_def distinct_index_add ids_at_index_add AList.update_conv')

lemma index_ok_same_topics:
  assumes "index_ok idx msgs" and "map_of msgs i = Some m" and "sm_topic m' = sm_topic m"
  shows "index_ok idx (AList.update i m' msgs)"
  using assms by (auto simp: index_ok_def AList.update_conv')

lemma candidates_set:
  assumes "index_ok (ms_by_topic st) (ms_msgs st)"
  shows "i \<in> set (candidates filt st) \<longleftrightarrow>
     (\<exists>m. map_of (ms_msgs st) i = Some m \<and> topic_matches (sm_topic m) filt)"
proof -
  let ?idx = "ms_by_topic st"
  have d: "distinct (map fst ?idx)" using assms by (simp add: index_ok_def)
  have "candidates filt st = concat (map snd (filter (\<lambda>(t, _). topic_matches t filt) ?idx))"
    using tmatch.scan_is_lookup [OF d, of filt] by (simp add: candidates_def)
  moreover have "i \<in> set (concat (map snd (filter (\<lambda>(t, _). topic_matches t filt) ?idx))) \<longleftrightarrow>
      (\<exists>t. topic_matches t filt \<and> i \<in> set (ids_at ?idx t))"
    using d by (force simp: ids_at_def map_of_eq_Some_iff split: option.splits)
  ultimately show ?thesis using assms by (auto simp: index_ok_def)
qed

section \<open>Sizes\<close>

definition total :: "(u64 \<times> stored_msg) list \<Rightarrow> nat" where
  "total msgs = sum_list (map (\<lambda>(_, m). approx_size m) msgs)"

lemma total_delete:
  "distinct (map fst msgs) \<Longrightarrow> map_of msgs i = Some m \<Longrightarrow>
   total (AList.delete i msgs) + approx_size m = total msgs"
proof (induction msgs)
  case (Cons p msgs)
  show ?case
  proof (cases "fst p = i")
    case True
    with Cons.prems have "i \<notin> fst ` set msgs" by (cases p) auto
    then have "AList.delete i msgs = msgs" by simp
    with True Cons.prems show ?thesis by (cases p) (simp add: total_def)
  next
    case False
    with Cons show ?thesis by (cases p) (auto simp: total_def)
  qed
qed simp

lemma total_update_new: "map_of msgs i = None \<Longrightarrow> total (AList.update i m msgs) = total msgs + approx_size m"
  by (induction msgs) (auto simp: total_def split: if_splits)

lemma total_update_old:
  "map_of msgs i = Some old \<Longrightarrow> total (AList.update i m msgs) + approx_size old = total msgs + approx_size m"
  by (induction msgs) (auto simp: total_def split: if_splits)

section \<open>The invariant\<close>

definition ms_inv :: "mem_state \<Rightarrow> bool" where
  "ms_inv st \<longleftrightarrow>
     distinct (map fst (ms_msgs st)) \<and> distinct (ms_order st)
     \<and> set (ms_order st) = fst ` set (ms_msgs st)
     \<and> ms_bytes st = total (ms_msgs st)
     \<and> set (ms_dirty st) \<subseteq> fst ` set (ms_msgs st)
     \<and> set (ms_removed st) \<inter> fst ` set (ms_msgs st) = {}
     \<and> index_ok (ms_by_topic st) (ms_msgs st)"

lemma ms_invD:
  assumes "ms_inv st"
  shows "distinct (map fst (ms_msgs st))" "distinct (ms_order st)"
    "set (ms_order st) = fst ` set (ms_msgs st)" "ms_bytes st = total (ms_msgs st)"
    "set (ms_dirty st) \<subseteq> fst ` set (ms_msgs st)"
    "set (ms_removed st) \<inter> fst ` set (ms_msgs st) = {}"
    "index_ok (ms_by_topic st) (ms_msgs st)"
  using assms by (simp_all add: ms_inv_def)

lemma keys_delete: "fst ` set (AList.delete i msgs) = fst ` set msgs - {i}"
  using arg_cong [OF AList.delete_keys, of set i msgs] by simp

lemma keys_update: "fst ` set (AList.update i m msgs) = insert i (fst ` set msgs)"
  by (simp add: AList.dom_update)

lemma evict_front_Some:
  assumes "map_of (ms_msgs st) i = Some m"
  shows "evict_front i st = st\<lparr>ms_order := tl (ms_order st),
     ms_msgs := AList.delete i (ms_msgs st),
     ms_bytes := ms_bytes st - approx_size m, ms_dirty := removeAll i (ms_dirty st),
     ms_removed := List.insert i (ms_removed st),
     ms_by_topic := unindex (sm_topic m) i (ms_by_topic st)\<rparr>"
  using assms by (simp add: evict_front_def Let_def saturating_sub_def)

lemma front_present:
  assumes "ms_inv st" and "ms_order st = i # rest"
  shows "\<exists>m. map_of (ms_msgs st) i = Some m"
  using ms_invD(3) [OF assms(1)] assms(2)
  by (metis list.set_intros(1) map_of_eq_None_iff not_Some_eq)

lemma evict_front_inv:
  assumes I: "ms_inv st" and o: "ms_order st = i # rest"
  shows "ms_inv (evict_front i st)"
proof -
  obtain m where m: "map_of (ms_msgs st) i = Some m" using front_present [OF assms] by blast
  note D = ms_invD [OF I]
  have "set rest = fst ` set (ms_msgs st) - {i}" using D(2,3) o by auto
  moreover have "total (AList.delete i (ms_msgs st)) = ms_bytes st - approx_size m"
    using total_delete [OF D(1) m] D(4) by simp
  ultimately show ?thesis
    using D o index_ok_unindex [OF D(7) m]
    by (auto simp: ms_inv_def evict_front_Some [OF m] keys_delete AList.distinct_delete)
qed

lemma evict_inv: "ms_inv st \<Longrightarrow> ms_inv (evict now mm mb st)"
proof (induction now mm mb st rule: evict.induct)
  case (1 now mm mb st)
  show ?case
  proof (cases "ms_order st")
    case Nil
    then show ?thesis using 1 by (simp add: evict.simps [of now mm mb st])
  next
    case (Cons i rest)
    then show ?thesis
      using 1 evict_front_inv [OF 1(2) Cons] by (simp add: evict.simps [of now mm mb st])
  qed
qed

text \<open>Only the front of the arrival order is ever dropped, so what stays is a suffix.\<close>

lemma evict_suffix: "\<exists>dropped. ms_order st = dropped @ ms_order (evict now mm mb st)"
proof (induction now mm mb st rule: evict.induct)
  case (1 now mm mb st)
  show ?case
  proof (cases "ms_order st")
    case (Cons i rest)
    show ?thesis
    proof (cases "\<not> over_cap mm mb st \<and> \<not> front_expired now i st")
      case False
      then obtain dropped where "tl (ms_order st) = dropped @ ms_order (evict now mm mb (evict_front i st))"
        using 1 [OF Cons False] by auto
      then show ?thesis using Cons False
        by (intro exI [of _ "i # dropped"]) (simp add: evict.simps [of now mm mb st])
    qed (use Cons in \<open>simp add: evict.simps [of now mm mb st]\<close>)
  qed (simp add: evict.simps [of now mm mb st])
qed

text \<open>After eviction the front has not expired and the caps hold.\<close>

lemma evict_done:
  "ms_order (evict now mm mb st) = [] \<or>
   (\<not> over_cap mm mb (evict now mm mb st)
    \<and> \<not> front_expired now (hd (ms_order (evict now mm mb st))) (evict now mm mb st))"
proof (induction now mm mb st rule: evict.induct)
  case (1 now mm mb st)
  show ?case
  proof (cases "ms_order st")
    case (Cons i rest)
    then show ?thesis using 1 by (auto simp: evict.simps [of now mm mb st])
  qed (simp add: evict.simps [of now mm mb st])
qed

lemma evict_caps:
  assumes "ms_inv st"
  shows "(mm > 0 \<longrightarrow> length (ms_msgs (evict now mm mb st)) \<le> mm)
     \<and> (mb > 0 \<longrightarrow> ms_bytes (evict now mm mb st) \<le> mb)"
proof -
  let ?st = "evict now mm mb st"
  have I: "ms_inv ?st" by (rule evict_inv [OF assms])
  consider "ms_order ?st = []" | "\<not> over_cap mm mb ?st" using evict_done by blast
  then show ?thesis
  proof cases
    case 1
    then have "ms_msgs ?st = []" using ms_invD(3) [OF I] by simp
    then show ?thesis using ms_invD(4) [OF I] by (simp add: total_def)
  next
    case 2
    then show ?thesis by (auto simp: over_cap_def)
  qed
qed

text \<open>A message that stays is unchanged.\<close>

lemma evict_front_msgs: "map_of (ms_msgs (evict_front i st)) k = Some m \<Longrightarrow> map_of (ms_msgs st) k = Some m"
  by (auto simp: evict_front_def Let_def AList.delete_conv' split: option.splits if_splits)

lemma evict_msgs: "map_of (ms_msgs (evict now mm mb st)) k = Some m \<Longrightarrow> map_of (ms_msgs st) k = Some m"
proof (induction now mm mb st rule: evict.induct)
  case (1 now mm mb st)
  then show ?case
    by (cases "ms_order st") (auto simp: evict.simps [of now mm mb st] split: if_splits dest: evict_front_msgs)
qed

text \<open>
  Without caps, eviction loses no message that has not expired: the loop stops at the first one.
\<close>

lemma evict_keeps_unexpired:
  assumes "map_of (ms_msgs st) k = Some m" and "sm_expiry_at m > now"
  shows "map_of (ms_msgs (evict now 0 0 st)) k = Some m"
  using assms
proof (induction now "0::nat" "0::nat" st rule: evict.induct)
  case (1 now st)
  show ?case
  proof (cases "ms_order st")
    case (Cons i rest)
    show ?thesis
    proof (cases "front_expired now i st")
      case True
      then have "k \<noteq> i" using 1(2,3) by (auto simp: front_expired_def)
      then have "map_of (ms_msgs (evict_front i st)) k = Some m"
        using 1(2) by (auto simp: evict_front_def Let_def AList.delete_conv' split: option.splits)
      then show ?thesis using 1(1) [OF Cons _ _ 1(3)] Cons True by (simp add: evict.simps [of now 0 0 st])
    qed (use Cons 1 in \<open>simp add: evict.simps [of now 0 0 st] over_cap_def\<close>)
  qed (use 1 in \<open>simp add: evict.simps [of now 0 0 st]\<close>)
qed

section \<open>Insertion\<close>

lemma insert_msg_inv:
  assumes I: "ms_inv st"
    and same: "\<And>old. map_of (ms_msgs st) key = Some old \<Longrightarrow> sm_topic old = sm_topic m"
    and room: "total (ms_msgs st) + approx_size m \<le> usize_max"
  shows "ms_inv (insert_msg key m st)"
proof -
  note D = ms_invD [OF I]
  have ix: "index_ok (index_add (sm_topic m) key (ms_by_topic st)) (AList.update key m (ms_msgs st))"
    by (rule index_ok_add [OF D(7) same])
  show ?thesis
  proof (cases "map_of (ms_msgs st) key")
    case None
    then have "key \<notin> fst ` set (ms_msgs st)" by (simp add: map_of_eq_None_iff)
    then show ?thesis
      using D ix None room total_update_new [OF None, of m]
      by (auto simp: ms_inv_def insert_msg_def Let_def keys_update AList.distinct_update
          saturating_add_small)
  next
    case (Some old)
    then have k: "key \<in> fst ` set (ms_msgs st)" by (metis fst_conv image_eqI map_of_SomeD)
    have "ms_bytes st - approx_size old + approx_size m = total (AList.update key m (ms_msgs st))"
      using total_update_old [OF Some, of m] total_delete [OF D(1) Some] D(4) by simp
    moreover have "ms_bytes st - approx_size old + approx_size m \<le> usize_max"
      using room D(4) by simp
    ultimately show ?thesis
      using D ix Some k
      by (auto simp: ms_inv_def insert_msg_def Let_def keys_update AList.distinct_update
          saturating_add_small saturating_sub_def insert_absorb)
  qed
qed

lemma insert_msg_lookup: "map_of (ms_msgs (insert_msg key m st)) = (map_of (ms_msgs st))(key \<mapsto> m)"
  by (auto simp: insert_msg_def Let_def AList.update_conv' split: option.splits)

lemma recv_msg_inv:
  assumes "ms_inv st" and "\<And>old. map_of (ms_msgs st) key = Some old \<Longrightarrow> sm_topic old = sm_topic m"
    and "total (ms_msgs st) + approx_size m \<le> usize_max"
  shows "ms_inv (recv_msg now mm mb (key, m) st)"
  unfolding recv_msg_def using evict_inv [OF insert_msg_inv [OF assms]] by simp

section \<open>Retrieval\<close>

text \<open>Marking a message as delivered.\<close>

definition mark :: "string \<Rightarrow> stored_msg \<Rightarrow> stored_msg" where
  "mark client m = m\<lparr>sm_delivered_to := List.insert client (sm_delivered_to m)\<rparr>"

lemma mark_simps [simp]:
  "sm_from (mark c m) = sm_from m" "sm_publish (mark c m) = sm_publish m"
  "sm_expiry_at (mark c m) = sm_expiry_at m" "approx_size (mark c m) = approx_size m"
  "set (sm_delivered_to (mark c m)) = insert c (set (sm_delivered_to m))"
  "mark c (mark c m) = mark c m"
  by (simp_all add: mark_def approx_size_def)

lemma touch_Some:
  "map_of (ms_msgs st) i = Some m \<Longrightarrow>
   touch c i st = st\<lparr>ms_msgs := AList.update i (mark c m) (ms_msgs st),
                     ms_dirty := List.insert i (ms_dirty st)\<rparr>"
  by (simp add: touch_def mark_def)

lemma touch_inv:
  assumes I: "ms_inv st" and m: "map_of (ms_msgs st) i = Some m"
  shows "ms_inv (touch c i st)"
proof -
  note D = ms_invD [OF I]
  have k: "i \<in> fst ` set (ms_msgs st)" using m by (metis fst_conv image_eqI map_of_SomeD)
  have "total (AList.update i (mark c m) (ms_msgs st)) = total (ms_msgs st)"
    using total_update_old [OF m, of "mark c m"] by simp
  then show ?thesis
    using D k index_ok_same_topics [OF D(7) m, of "mark c m"]
    by (auto simp: ms_inv_def touch_Some [OF m] keys_update AList.distinct_update insert_absorb)
qed

lemma touch_all:
  assumes "ms_inv st" and "\<forall>i \<in> set is. map_of (ms_msgs st) i \<noteq> None"
  shows "ms_inv (fold (touch c) is st)
     \<and> map_of (ms_msgs (fold (touch c) is st)) k =
        (if k \<in> set is then map_option (mark c) (map_of (ms_msgs st) k) else map_of (ms_msgs st) k)"
  using assms
proof (induction "is" arbitrary: st)
  case (Cons i "is")
  then obtain m where m: "map_of (ms_msgs st) i = Some m" by auto
  have l: "map_of (ms_msgs (touch c i st)) = (map_of (ms_msgs st))(i \<mapsto> mark c m)"
    by (simp add: touch_Some [OF m] AList.update_conv')
  have "ms_inv (touch c i st)" by (rule touch_inv [OF Cons.prems(1) m])
  moreover have "\<forall>j \<in> set is. map_of (ms_msgs (touch c i st)) j \<noteq> None"
    using Cons.prems(2) by (simp add: l)
  ultimately show ?case using Cons.IH [of "touch c i st"] l m by auto
qed simp

text \<open>
  What \<open>get\<close> returns, read off the state before it: exactly the messages that survive eviction,
  match the filter, have not expired and were not delivered to this client, each of which is
  then marked as delivered to the client.
\<close>

lemma get_msgs_result:
  assumes I: "ms_inv (mst_state s)" and g: "get_msgs client filt now s = (s', out)"
  defines "st \<equiv> evict now (mst_max_msgs s) (mst_max_bytes s) (mst_state s)"
  shows "set out = {(i, sm_from m, sm_publish m) | i m. map_of (ms_msgs st) i = Some m
        \<and> topic_matches (sm_topic m) filt \<and> sm_expiry_at m > now \<and> client \<notin> set (sm_delivered_to m)}"
    and "ms_inv (mst_state s')"
    and "map_of (ms_msgs (mst_state s')) k =
       (if k \<in> fst ` set out then map_option (mark client) (map_of (ms_msgs st) k)
        else map_of (ms_msgs st) k)"
    and "mst_max_msgs s' = mst_max_msgs s" "mst_max_bytes s' = mst_max_bytes s"
proof -
  have Is: "ms_inv st" unfolding st_def by (rule evict_inv [OF I])
  let ?touched = "filter (deliverable client now st) (candidates filt st)"
  have s': "mst_state s' = fold (touch client) ?touched st"
    and out: "out = map (\<lambda>i. let m = the (map_of (ms_msgs st) i) in (i, sm_from m, sm_publish m)) ?touched"
    using g by (auto simp: get_msgs_def Let_def st_def)
  have t: "i \<in> set ?touched \<longleftrightarrow> (\<exists>m. map_of (ms_msgs st) i = Some m \<and> topic_matches (sm_topic m) filt
      \<and> sm_expiry_at m > now \<and> client \<notin> set (sm_delivered_to m))" for i
    using candidates_set [OF ms_invD(7) [OF Is], of i filt]
    by (auto simp: deliverable_def split: option.splits)
  show "set out = {(i, sm_from m, sm_publish m) | i m. map_of (ms_msgs st) i = Some m
        \<and> topic_matches (sm_topic m) filt \<and> sm_expiry_at m > now \<and> client \<notin> set (sm_delivered_to m)}"
    unfolding out set_map Let_def using t by (auto simp: image_iff)
  have ks: "fst ` set out = set ?touched" by (force simp: out Let_def)
  have "\<forall>i \<in> set ?touched. map_of (ms_msgs st) i \<noteq> None" using t by auto
  from touch_all [OF Is this, of client] show "ms_inv (mst_state s')"
    and "map_of (ms_msgs (mst_state s')) k =
       (if k \<in> fst ` set out then map_option (mark client) (map_of (ms_msgs st) k)
        else map_of (ms_msgs st) k)"
    unfolding s' ks by blast+
  show "mst_max_msgs s' = mst_max_msgs s" "mst_max_bytes s' = mst_max_bytes s"
    using g by (auto simp: get_msgs_def Let_def)
qed

text \<open>A client does not get a message twice, whatever filters it asks with and at whatever times.\<close>

lemma get_msgs_once:
  assumes I: "ms_inv (mst_state s)" and g: "get_msgs client filt now s = (s1, out1)"
    and g': "get_msgs client filt' now' s1 = (s2, out2)"
  shows "fst ` set out1 \<inter> fst ` set out2 = {}"
proof -
  note R1 = get_msgs_result [OF I g] and R2 = get_msgs_result [OF get_msgs_result(2) [OF I g] g']
  have False if k1: "k \<in> fst ` set out1" and k2: "k \<in> fst ` set out2" for k
  proof -
    obtain m where m: "map_of (ms_msgs (evict now' (mst_max_msgs s1) (mst_max_bytes s1) (mst_state s1))) k = Some m"
      "client \<notin> set (sm_delivered_to m)"
      using k2 unfolding R2(1) by auto
    from evict_msgs [OF m(1)] R1(3) [of k] k1 have "\<exists>m0. m = mark client m0" by auto
    with m(2) show False by auto
  qed
  then show ?thesis by blast
qed

end
