(* ===== verification/Msg_Store_Disk.thy ===== *)
theory Msg_Store_Disk
  imports Msg_Store_Inv User_Store "HOL-Library.Multiset"
begin

text \<open>
  The message store and its database: what \<open>open\<close> reads, what \<open>flush\<close> writes, the relation
  between the table on disk and the memory that a flush keeps, and from it that a restart
  after a successful flush restores the messages. Also the identifiers that \<open>next_msg_id\<close> hands
  out and the counter that \<open>open\<close> resumes from.
\<close>

section \<open>Opening\<close>

lemma index_ok_cong: "map_of msgs = map_of msgs' \<Longrightarrow> index_ok idx msgs \<Longrightarrow> index_ok idx msgs'"
  by (simp add: index_ok_def)

lemma index_fold_ok:
  assumes "index_ok idx base" and "distinct (map fst msgs)" and "fst ` set msgs \<inter> fst ` set base = {}"
  shows "index_ok (fold (\<lambda>(i, m) idx. index_add (sm_topic m) i idx) msgs idx) (rev msgs @ base)"
  using assms
proof (induction msgs arbitrary: idx base)
  case (Cons p msgs)
  obtain i m where p: "p = (i, m)" by fastforce
  have "map_of base i = None" using Cons.prems(3) p by (simp add: map_of_eq_None_iff)
  then have "index_ok (index_add (sm_topic m) i idx) (AList.update i m base)"
    using index_ok_add [OF Cons.prems(1), of i m] by simp
  then have "index_ok (index_add (sm_topic m) i idx) ((i, m) # base)"
    by (rule index_ok_cong [rotated]) (simp add: AList.update_conv')
  from Cons.IH [OF this] Cons.prems(2,3) p show ?case by auto
qed simp

lemma index_all_ok:
  assumes "distinct (map fst msgs)"
  shows "index_ok (index_all msgs) msgs"
proof -
  have "index_ok (index_all msgs) (rev msgs @ [])"
    unfolding index_all_def
    by (rule index_fold_ok) (use assms in \<open>simp_all add: index_ok_def ids_at_def\<close>)
  then show ?thesis
    by (rule index_ok_cong [rotated])
       (use assms in \<open>simp add: map_of_inject_set distinct_map rev_map [symmetric]\<close>)
qed

lemma mem_state_of_inv:
  assumes "distinct (map fst msgs)"
  shows "ms_inv (mem_state_of msgs)"
proof -
  let ?es = "map (\<lambda>(i, m). (sm_expiry_at m, i)) msgs"
  have s: "map snd ?es = map fst msgs" by (auto simp: case_prod_unfold)
  have "mset (map snd (sort_key fst (sort_key snd ?es))) = mset (map snd ?es)"
    by (simp only: mset_map mset_sort)
  then have m: "mset (ms_order (mem_state_of msgs)) = mset (map fst msgs)"
    unfolding s by (simp add: mem_state_of_def)
  have "distinct (ms_order (mem_state_of msgs))"
    using mset_eq_imp_distinct_iff [OF m] assms by blast
  moreover have "set (ms_order (mem_state_of msgs)) = fst ` set msgs"
    using mset_eq_setD [OF m] by simp
  ultimately show ?thesis
    using assms index_all_ok [OF assms] by (simp add: ms_inv_def mem_state_of_def total_def)
qed

text \<open>What one stored entry contributes to the table of messages.\<close>

definition live :: "(bytes \<Rightarrow> stored_msg result) \<Rightarrow> int \<Rightarrow> bytes \<Rightarrow> stored_msg option" where
  "live dec now b = (case dec b of Inr m \<Rightarrow> if sm_expiry_at m > now then Some m else None | Inl _ \<Rightarrow> None)"

lemma live_Some: "live dec now b = Some m \<longleftrightarrow> dec b = Inr m \<and> sm_expiry_at m > now"
  by (auto simp: live_def split: sum.splits)

lemma live_None: "live dec now b = None \<longleftrightarrow> (\<forall>m. dec b = Inr m \<longrightarrow> sm_expiry_at m \<le> now)"
  by (auto simp: live_def split: sum.splits)

lemma open_scan_Cons:
  "open_scan dec node now ((i, v) # items) (msgs, start) =
     open_scan dec node now items
       (case live dec now v of Some m \<Rightarrow> AList.update i m msgs | None \<Rightarrow> msgs,
        if drop_bit 48 i = node \<and> and i counter_mask + 1 > start then and i counter_mask + 1 else start)"
  by (simp add: live_def Let_def split: sum.splits)

declare open_scan.simps(2) [simp del]

lemma open_scan_msgs:
  assumes "distinct (map fst items)" and "distinct (map fst msgs)"
    and "fst ` set items \<inter> fst ` set msgs = {}"
    and "open_scan dec node now items (msgs, start) = (msgs', start')"
  shows "distinct (map fst msgs') \<and>
     map_of msgs' i = (case map_of items i of Some b \<Rightarrow> live dec now b | None \<Rightarrow> map_of msgs i)"
  using assms
proof (induction items arbitrary: msgs start)
  case (Cons p items)
  obtain k v where p: "p = (k, v)" by fastforce
  have kn: "map_of items k = None" "map_of msgs k = None" "k \<notin> fst ` set items"
    using Cons.prems(1,3) p by (auto simp: map_of_eq_None_iff)
  let ?msgs = "case live dec now v of Some m \<Rightarrow> AList.update k m msgs | None \<Rightarrow> msgs"
  have l: "map_of ?msgs j = (if j = k then live dec now v else map_of msgs j)" for j
    using kn(2) by (auto simp: AList.update_conv' split: option.splits)
  have "distinct (map fst ?msgs)" and "fst ` set items \<inter> fst ` set ?msgs = {}"
    using Cons.prems(2,3) p kn(3)
    by (auto simp: AList.distinct_update keys_update split: option.splits)
  moreover have "distinct (map fst items)" using Cons.prems(1) by simp
  ultimately have "distinct (map fst msgs') \<and>
      map_of msgs' i = (case map_of items i of Some b \<Rightarrow> live dec now b | None \<Rightarrow> map_of ?msgs i)"
    using Cons.IH Cons.prems(4) unfolding p open_scan_Cons by blast
  then show ?case using p kn(1) by (auto simp: l split: option.splits)
qed simp

text \<open>The counter resumes above every stored identifier of this node.\<close>

lemma counter_succ: "(and i counter_mask :: u64) < and i counter_mask + 1"
proof -
  have "(and i counter_mask :: u64) \<le> counter_mask"
    by (simp add: word_and_le1)
  also have "counter_mask < - 1"
    by (simp add: counter_mask_def word_less_def unsigned_minus_1_eq_mask mask_eq_exp_minus_1)
  finally have "(and i counter_mask :: u64) \<noteq> - 1" by simp
  then show ?thesis by (simp add: not_le [symmetric] inc_less_eq_self_iff_eq)
qed

lemma open_scan_start:
  assumes "open_scan dec node now items (msgs, start) = (msgs', start')"
  shows "start \<le> start' \<and> (\<forall>i \<in> fst ` set items. drop_bit 48 i = node \<longrightarrow> and i counter_mask < start')"
  using assms
proof (induction items arbitrary: msgs start)
  case (Cons p items)
  obtain k v where p: "p = (k, v)" by fastforce
  let ?s = "if drop_bit 48 k = node \<and> and k counter_mask + 1 > start then and k counter_mask + 1 else start"
  from Cons.prems have IH: "?s \<le> start' \<and> (\<forall>i \<in> fst ` set items. drop_bit 48 i = node \<longrightarrow> and i counter_mask < start')"
    unfolding p open_scan_Cons by (rule Cons.IH)
  have "start \<le> ?s" by auto
  moreover have "drop_bit 48 k = node \<Longrightarrow> and k counter_mask < ?s"
    using counter_succ [of k] by (auto simp: not_less intro: less_le_trans)
  ultimately show ?case using IH p by (auto intro: order_trans less_le_trans)
qed simp

section \<open>Flushing\<close>

lemma encode_batch_iff:
  "(i, b) \<in> set (encode_batch enc msgs is) \<longleftrightarrow>
     i \<in> set is \<and> (\<exists>m. map_of msgs i = Some m \<and> enc m = Inr b)"
  by (induction "is") (auto split: option.splits sum.splits)

lemma fold_upd_functional:
  assumes "\<forall>(i, b) \<in> set ibs. f i = b"
  shows "fold (\<lambda>(i, b) V. V(i \<mapsto> b)) ibs V k =
     (if k \<in> fst ` set ibs then Some (f k) else V k)"
  using assms by (induction ibs arbitrary: V) auto

lemma remove_loop_view:
  assumes L: "redb_laws R view"
  shows "remove_loop R is w = Inr w' \<Longrightarrow>
     view w' messages_table k = (if k \<in> set is then None else view w messages_table k)"
proof (induction "is" arbitrary: w)
  case (Cons i "is")
  then obtain w1 v where "tbl_remove R messages_table i w = Inr (w1, v)" "remove_loop R is w1 = Inr w'"
    by auto
  with Cons.IH [of w1] redb_lawsD(6) [OF L, of messages_table i w w1 v] show ?case by simp
qed simp

lemma insert_loop_view:
  assumes L: "redb_laws R view"
  shows "insert_loop R ibs w = Inr w' \<Longrightarrow>
     view w' messages_table = fold (\<lambda>(i, b) V. V(i \<mapsto> b)) ibs (view w messages_table)"
proof (induction ibs arbitrary: w)
  case (Cons p ibs)
  obtain i b where p: "p = (i, b)" by fastforce
  with Cons.prems obtain w1 where 1: "tbl_insert R messages_table i b w = Inr w1"
    "insert_loop R ibs w1 = Inr w'" by auto
  have "view w1 messages_table = (view w messages_table)(i \<mapsto> b)"
    using redb_lawsD(5) [OF L 1(1)] by simp
  with Cons.IH [OF 1(2)] p show ?case by simp
qed simp

text \<open>What a successful write transaction of \<open>flush\<close> leaves in the table.\<close>

lemma flush_write_view:
  assumes L: "redb_laws R view" and "flush_write R batch removed d = (d', Inr u)"
  shows "view d' messages_table = fold (\<lambda>(i, b) V. V(i \<mapsto> b)) batch
     (\<lambda>k. if k \<in> set removed then None else view d messages_table k)"
proof (cases "batch = [] \<and> removed = []")
  case True
  with assms(2) show ?thesis by (simp add: flush_write_def)
next
  case False
  then have "write_txn R
        (\<lambda>w. rbind (open_table R messages_table w)
          (\<lambda>w. rbind (remove_loop R removed w)
            (\<lambda>w. rbind (insert_loop R batch w) (\<lambda>w. Inr (w, ()))))) d = (d', Inr u)"
    using assms(2) unfolding flush_write_def by (simp only: if_False)
  from write_txn_Inr [OF L this] obtain w w1 w2 w3 where
    w: "view w = view d" "open_table R messages_table w = Inr w1"
       "remove_loop R removed w1 = Inr w2" "insert_loop R batch w2 = Inr w3" "view d' = view w3"
    by auto
  have "view w1 = view d" using redb_lawsD(3) [OF L w(2)] w(1) by simp
  then have "view w2 messages_table = (\<lambda>k. if k \<in> set removed then None else view d messages_table k)"
    using remove_loop_view [OF L w(3)] by (simp add: fun_eq_iff)
  with insert_loop_view [OF L w(4)] w(5) show ?thesis by simp
qed

lemma flush_write_err:
  assumes "redb_laws R view" and "flush_write R batch removed d = (d', Inl e)"
  shows "view d' = view d"
proof -
  have "batch \<noteq> [] \<or> removed \<noteq> []" using assms(2) by (auto simp: flush_write_def split: if_splits)
  with assms(2) show ?thesis
    using write_txn_err_view [OF assms(1)] by (auto simp: flush_write_def split: if_splits)
qed

section \<open>Disk and memory\<close>

text \<open>
  The table \<open>V\<close> on disk and the memory: a message that is not marked dirty is on disk as it is in
  memory, and an entry on disk that memory neither holds nor has listed for removal had expired
  by the time \<open>H\<close> of the last \<open>open\<close>.
\<close>

definition disk_ok ::
    "(bytes \<Rightarrow> stored_msg result) \<Rightarrow> int \<Rightarrow> (u64 \<rightharpoonup> bytes) \<Rightarrow> mem_state \<Rightarrow> bool" where
  "disk_ok dec H V st \<longleftrightarrow>
     (\<forall>i m. map_of (ms_msgs st) i = Some m \<longrightarrow> i \<notin> set (ms_dirty st)
        \<longrightarrow> (\<exists>b. V i = Some b \<and> dec b = Inr m))
     \<and> (\<forall>i b m. V i = Some b \<longrightarrow> dec b = Inr m \<longrightarrow> map_of (ms_msgs st) i = None
        \<longrightarrow> i \<notin> set (ms_removed st) \<longrightarrow> sm_expiry_at m \<le> H)"

lemma disk_ok_insert: "disk_ok dec H V st \<Longrightarrow> disk_ok dec H V (insert_msg key m st)"
  unfolding disk_ok_def insert_msg_lookup
  by (auto simp: insert_msg_def Let_def split: option.splits)

lemma disk_ok_touch: "disk_ok dec H V st \<Longrightarrow> disk_ok dec H V (touch c i st)"
  unfolding disk_ok_def
  by (cases "map_of (ms_msgs st) i") (auto simp: touch_def AList.update_conv' split: if_splits)

lemma disk_ok_evict_front: "disk_ok dec H V st \<Longrightarrow> disk_ok dec H V (evict_front i st)"
  unfolding disk_ok_def
  by (cases "map_of (ms_msgs st) i")
     (auto simp: evict_front_def Let_def AList.delete_conv' split: if_splits)

lemma disk_ok_evict: "disk_ok dec H V st \<Longrightarrow> disk_ok dec H V (evict now mm mb st)"
proof (induction now mm mb st rule: evict.induct)
  case (1 now mm mb st)
  then show ?case
    by (cases "ms_order st") (auto simp: evict.simps [of now mm mb st] disk_ok_evict_front)
qed

text \<open>What the transaction of a flush makes of a table.\<close>

definition written_view :: "(u64 \<times> bytes) list \<Rightarrow> u64 list \<Rightarrow> (u64 \<rightharpoonup> bytes) \<Rightarrow> (u64 \<rightharpoonup> bytes)" where
  "written_view batch removed V =
     fold (\<lambda>(i, b) V. V(i \<mapsto> b)) batch (\<lambda>k. if k \<in> set removed then None else V k)"

lemma flush_drain_state:
  assumes "flush_drain enc now s = (s1, batch, removed)"
  shows "mst_db s1 = mst_db s"
    "mst_state s1 = (evict now (mst_max_msgs s) (mst_max_bytes s) (mst_state s))\<lparr>ms_dirty := [], ms_removed := []\<rparr>"
  using assms by (auto simp: flush_drain_def Let_def)

text \<open>
  The part of a flush under the lock hands over exactly what the table lacks: once it is written, the
  relation holds with nothing left to write.
\<close>

lemma disk_ok_drain:
  assumes C: "codec_laws enc dec" and T: "\<forall>i m. map_of (ms_msgs (mst_state s)) i = Some m \<longrightarrow> (\<exists>b. enc m = Inr b)"
    and I: "ms_inv (mst_state s)" and D: "disk_ok dec H V (mst_state s)"
    and F: "flush_drain enc now s = (s1, batch, removed)"
  shows "disk_ok dec H (written_view batch removed V) (mst_state s1)"
proof -
  define st where "st = evict now (mst_max_msgs s) (mst_max_bytes s) (mst_state s)"
  let ?V' = "written_view batch removed V"
  let ?f = "\<lambda>i. projr (enc (the (map_of (ms_msgs st) i)))"
  have batch: "batch = encode_batch enc (ms_msgs st) (ms_dirty st)" and rem: "removed = ms_removed st"
    and s1: "mst_state s1 = st\<lparr>ms_dirty := [], ms_removed := []\<rparr>"
    using F by (auto simp: flush_drain_def Let_def st_def)
  have fn: "\<forall>(i, b) \<in> set batch. ?f i = b" by (auto simp: batch encode_batch_iff)
  have V': "?V' k = (if k \<in> fst ` set batch then Some (?f k)
      else if k \<in> set (ms_removed st) then None else V k)" for k
    unfolding written_view_def fold_upd_functional [OF fn] rem by simp
  have Ist: "ms_inv st" and Dst: "disk_ok dec H V st"
    using evict_inv [OF I] disk_ok_evict [OF D] by (simp_all add: st_def)
  have dk: "k \<in> set (ms_dirty st) \<Longrightarrow> \<exists>m. map_of (ms_msgs st) k = Some m" for k
    using ms_invD(5) [OF Ist] by (metis map_of_eq_None_iff not_Some_eq subsetD)
  have enc: "\<exists>b. enc m = Inr b" if "map_of (ms_msgs st) k = Some m" for k m
    using T evict_msgs that unfolding st_def by blast
  have kb: "k \<in> fst ` set batch \<longleftrightarrow> k \<in> set (ms_dirty st)" for k
  proof -
    have "k \<in> fst ` set batch \<longleftrightarrow> (\<exists>b. (k, b) \<in> set batch)" by force
    also have "\<dots> \<longleftrightarrow> k \<in> set (ms_dirty st)"
      unfolding batch encode_batch_iff using dk [of k] enc [of k] by blast
    finally show ?thesis .
  qed
  have rk: "k \<in> set (ms_removed st) \<Longrightarrow> map_of (ms_msgs st) k = None" for k
    using ms_invD(6) [OF Ist] by (auto simp: map_of_eq_None_iff)
  have "\<exists>b. ?V' i = Some b \<and> dec b = Inr m" if im: "map_of (ms_msgs st) i = Some m" for i m
  proof (cases "i \<in> set (ms_dirty st)")
    case True
    obtain b where b: "enc m = Inr b" using enc [OF im] by blast
    then have "dec b = Inr m" using C by (auto simp: codec_laws_def)
    with True b im show ?thesis by (simp add: V' kb)
  next
    case False
    moreover have "i \<notin> set (ms_removed st)" using rk im by force
    ultimately show ?thesis using Dst im by (simp add: V' kb disk_ok_def)
  qed
  moreover have "sm_expiry_at m \<le> H"
    if "?V' i = Some b" "dec b = Inr m" "map_of (ms_msgs st) i = None" for i b m
  proof -
    have "i \<notin> set (ms_dirty st)" using dk that(3) by force
    then have "i \<notin> set (ms_removed st)" and "V i = Some b" using that(1) by (auto simp: V' kb split: if_splits)
    with Dst that show ?thesis by (simp add: disk_ok_def)
  qed
  ultimately show ?thesis by (auto simp: s1 disk_ok_def)
qed

lemma disk_ok_flush:
  assumes L: "redb_laws R view" and C: "codec_laws enc dec" and T: "\<forall>i m. map_of (ms_msgs (mst_state s)) i = Some m \<longrightarrow> (\<exists>b. enc m = Inr b)"
    and I: "ms_inv (mst_state s)" and D: "disk_ok dec H (view (mst_db s) messages_table) (mst_state s)"
    and F: "flush R enc now s = (s', Inr u)"
  shows "disk_ok dec H (view (mst_db s') messages_table) (mst_state s')"
    and "mst_state s' = (evict now (mst_max_msgs s) (mst_max_bytes s) (mst_state s))
           \<lparr>ms_dirty := [], ms_removed := []\<rparr>"
proof -
  obtain s1 batch removed where d: "flush_drain enc now s = (s1, batch, removed)" by (metis prod_cases3)
  with F have w: "flush_write R batch removed (mst_db s) = (mst_db s', Inr u)" and st: "mst_state s' = mst_state s1"
    using flush_drain_state(1) [OF d] by (auto simp: flush_def split: prod.splits)
  show "disk_ok dec H (view (mst_db s') messages_table) (mst_state s')"
    using disk_ok_drain [OF C T I D d] flush_write_view [OF L w] by (simp add: st written_view_def)
  show "mst_state s' = (evict now (mst_max_msgs s) (mst_max_bytes s) (mst_state s))
           \<lparr>ms_dirty := [], ms_removed := []\<rparr>" using st flush_drain_state(2) [OF d] by simp
qed

section \<open>Restart\<close>

lemma msg_store_open_result:
  assumes L: "redb_laws R view" and "msg_store_open R dec env node now d = (d', Inr s)"
  shows "mst_db s = d'" and "view d' = view d" and "ms_inv (mst_state s)"
    and "map_of (ms_msgs (mst_state s)) i = Option.bind (view d messages_table i) (live dec now)"
    and "disk_ok dec now (view d' messages_table) (mst_state s)"
    and "mst_node_id s = node"
    and "view d messages_table i \<noteq> None \<Longrightarrow> drop_bit 48 i = node \<Longrightarrow> and i counter_mask < mst_counter s"
proof -
  let ?txn = "write_txn R (\<lambda>w. rbind (open_table R messages_table w) (\<lambda>w. Inr (w, ()))) d"
  obtain d1 res where t0: "?txn = (d1, res)" by fastforce
  have "res = Inr ()" using assms(2) t0 unfolding msg_store_open_def by (cases res) simp_all
  with t0 have t: "?txn = (d1, Inr ())" by simp
  obtain rd rd2 items where r: "begin_read R d1 = Inr rd"
    "open_table R messages_table rd = Inr rd2" "tbl_iter R messages_table rd2 = Inr items"
    and mk: "d1 = d'" "store_of_items dec env node now d1 items = s"
    using assms(2) unfolding msg_store_open_def t
    by (simp only: prod.case sum.case prod.inject rbind_eq_Inr sum.inject) blast
  obtain msgs start where sc: "open_scan dec node now items ([], 0) = (msgs, start)" by fastforce
  have s: "d' = d1" "mst_db s = d1" "mst_node_id s = node" "mst_counter s = start"
      "mst_state s = mem_state_of msgs"
    using mk(1) mk(2) [symmetric] sc by (simp_all add: store_of_items_def)
  obtain w w1 where "view w = view d" "open_table R messages_table w = Inr w1" "view d1 = view w1"
    using write_txn_Inr [OF L t] by auto
  then have v1: "view d1 = view d" using redb_lawsD(3) [OF L] by metis
  have "view rd2 = view d"
    using redb_lawsD(3) [OF L r(2)] redb_lawsD(2) [OF L r(1)] v1 by simp
  then have it: "distinct (map fst items)" "map_of items = view d messages_table"
    using redb_lawsD(7) [OF L r(3)] by simp_all
  have sm: "distinct (map fst msgs)"
    "map_of msgs k = (case map_of items k of Some b \<Rightarrow> live dec now b | None \<Rightarrow> None)" for k
    using open_scan_msgs [OF it(1) _ _ sc, of k] by (auto split: option.splits)
  show "mst_db s = d'" "view d' = view d" "mst_node_id s = node" using s v1 by simp_all
  show "ms_inv (mst_state s)" using mem_state_of_inv [OF sm(1)] s by simp
  have ml: "map_of (ms_msgs (mst_state s)) k = Option.bind (view d messages_table k) (live dec now)" for k
    using sm(2) [of k] s it(2) by (auto simp: mem_state_of_def split: option.splits)
  then show "map_of (ms_msgs (mst_state s)) i = Option.bind (view d messages_table i) (live dec now)" .
  have "ms_dirty (mst_state s) = []" "ms_removed (mst_state s) = []"
    using s by (simp_all add: mem_state_of_def)
  with ml v1 s(1) show "disk_ok dec now (view d' messages_table) (mst_state s)"
    by (auto simp: disk_ok_def live_Some live_None Option.bind_eq_Some_conv Option.bind_eq_None_conv)
  show "view d messages_table i \<noteq> None \<Longrightarrow> drop_bit 48 i = node \<Longrightarrow> and i counter_mask < mst_counter s"
    using open_scan_start [OF sc] it(2) s(4) by (metis map_of_eq_None_iff)
qed

text \<open>
  A restart when nothing is left to write restores exactly the messages that have not expired, with
  their delivery marks.
\<close>

lemma restart_clean:
  assumes "redb_laws R view" and d: "disk_ok dec H (view (mst_db s) messages_table) (mst_state s)"
    and cl: "ms_dirty (mst_state s) = []" "ms_removed (mst_state s) = []"
    and "msg_store_open R dec env node now (mst_db s) = (d', Inr s')" and H: "H \<le> now"
  shows "map_of (ms_msgs (mst_state s')) i = Some m \<longleftrightarrow>
     map_of (ms_msgs (mst_state s)) i = Some m \<and> sm_expiry_at m > now"
proof -
  let ?V = "view (mst_db s) messages_table"
  have "map_of (ms_msgs (mst_state s')) i = Some m \<longleftrightarrow>
      (\<exists>b. ?V i = Some b \<and> dec b = Inr m \<and> sm_expiry_at m > now)"
    using msg_store_open_result(4) [OF assms(1,5), of i]
    by (auto simp: live_Some Option.bind_eq_Some_conv)
  also have "\<dots> \<longleftrightarrow> map_of (ms_msgs (mst_state s)) i = Some m \<and> sm_expiry_at m > now"
  proof (cases "map_of (ms_msgs (mst_state s)) i")
    case None
    with d cl H show ?thesis by (fastforce simp: disk_ok_def)
  next
    case (Some m1)
    then obtain b where "?V i = Some b" "dec b = Inr m1"
      using d cl unfolding disk_ok_def by force
    with Some show ?thesis by auto
  qed
  finally show ?thesis .
qed

lemma restart_restores:
  assumes L: "redb_laws R view" and C: "codec_laws enc dec" and T: "\<forall>i m. map_of (ms_msgs (mst_state s)) i = Some m \<longrightarrow> (\<exists>b. enc m = Inr b)"
    and I: "ms_inv (mst_state s)" and D: "disk_ok dec H (view (mst_db s) messages_table) (mst_state s)"
    and F: "flush R enc now s = (s1, Inr u)"
    and O: "msg_store_open R dec env node now' (mst_db s1) = (d2, Inr s2)" and H: "H \<le> now'"
  shows "map_of (ms_msgs (mst_state s2)) i = Some m \<longleftrightarrow>
     map_of (ms_msgs (mst_state s1)) i = Some m \<and> sm_expiry_at m > now'"
  by (rule restart_clean [OF L _ _ _ O H]) (use disk_ok_flush [OF L C T I D F] in simp_all)

section \<open>Message identifiers\<close>

text \<open>
  An identifier carries the node in its upper 16 bits and the counter in its lower 48 bits, as
  long as the node number fits in 16 bits.
\<close>

lemma counter_mask_eq: "counter_mask = mask 48"
  by (simp add: counter_mask_def mask_eq_exp_minus_1)

lemma msg_id_counter: "and (snd (next_msg_id s)) counter_mask = and (mst_counter s) counter_mask"
  by (rule bit_word_eqI) (auto simp: next_msg_id_def counter_mask_eq bit_simps)

lemma take_bit_16_self: "w < 2 ^ 16 \<Longrightarrow> take_bit 16 w = w" for w :: u64
  by (rule unsigned_word_eqI [where ?'a = nat])
     (simp add: unsigned_take_bit_eq word_less_nat_alt take_bit_nat_eq_self)

lemma msg_id_node:
  assumes "mst_node_id s < 2 ^ 16"
  shows "drop_bit 48 (snd (next_msg_id s)) = mst_node_id s"
proof (rule bit_word_eqI)
  fix n
  assume n: "n < LENGTH(64)"
  have "bit (mst_node_id s) n \<Longrightarrow> n < 16"
    using take_bit_16_self [OF assms] by (metis bit_take_bit_iff)
  with n show "bit (drop_bit 48 (snd (next_msg_id s))) n = bit (mst_node_id s) n"
    by (auto simp: next_msg_id_def counter_mask_eq bit_simps)
qed

text \<open>The state after \<open>n\<close> identifiers have been handed out.\<close>

fun after_ids :: "nat \<Rightarrow> 'd msg_store \<Rightarrow> 'd msg_store" where
  "after_ids 0 s = s"
| "after_ids (Suc n) s = after_ids n (fst (next_msg_id s))"

lemma after_ids_counter:
  "mst_counter (after_ids n s) = mst_counter s + of_nat n" "mst_node_id (after_ids n s) = mst_node_id s"
  by (induction n arbitrary: s) (simp_all add: next_msg_id_def)

lemma masked_counter_inj:
  fixes c :: u64
  assumes "and (c + of_nat i) counter_mask = and (c + of_nat j) counter_mask"
    and "i < 2 ^ 48" and "j < 2 ^ 48"
  shows "i = j"
proof -
  have "take_bit 48 (c + of_nat i) = take_bit 48 (c + of_nat j)"
    using assms(1) by (simp add: counter_mask_eq take_bit_eq_mask)
  moreover have "uint (take_bit 48 (c + of_nat k)) = take_bit 48 (uint c + int k)" for k
  proof -
    have "c + of_nat k = word_of_int (uint c + int k)" by simp
    then show ?thesis by (simp only: unsigned_take_bit_eq unsigned_of_int take_bit_take_bit) simp
  qed
  ultimately have "take_bit 48 (uint c + int i) = take_bit 48 (uint c + int j)" by metis
  then have "take_bit 48 (int i) = take_bit 48 (int j)"
    using take_bit_diff [of 48 "uint c + int i" "uint c"] take_bit_diff [of 48 "uint c + int j" "uint c"]
    by simp
  with assms(2,3) show ?thesis by (simp add: take_bit_int_eq_self)
qed

text \<open>No identifier repeats within \<open>2\<^sup>4\<^sup>8\<close> calls on a node, and none is shared between nodes.\<close>

lemma msg_ids_distinct:
  assumes "i < 2 ^ 48" and "j < 2 ^ 48" and "i \<noteq> j"
  shows "snd (next_msg_id (after_ids i s)) \<noteq> snd (next_msg_id (after_ids j s))"
proof
  assume "snd (next_msg_id (after_ids i s)) = snd (next_msg_id (after_ids j s))"
  then have "and (mst_counter (after_ids i s)) counter_mask = and (mst_counter (after_ids j s)) counter_mask"
    using msg_id_counter by metis
  with masked_counter_inj [of "mst_counter s" i j] assms show False by (simp add: after_ids_counter)
qed

lemma msg_ids_nodes_disjoint:
  assumes "mst_node_id s < 2 ^ 16" and "mst_node_id t < 2 ^ 16" and "mst_node_id s \<noteq> mst_node_id t"
  shows "snd (next_msg_id s) \<noteq> snd (next_msg_id t)"
  using msg_id_node [OF assms(1)] msg_id_node [OF assms(2)] assms(3) by metis

text \<open>
  The first identifier after a restart is none of those in the table, unless all \<open>2\<^sup>4\<^sup>8\<close> counter
  values have been used.
\<close>

lemma msg_id_fresh_after_open:
  assumes L: "redb_laws R view" and O: "msg_store_open R dec env node now d = (d', Inr s)"
    and n: "node < 2 ^ 16" and c: "mst_counter s \<le> counter_mask"
  shows "view d messages_table (snd (next_msg_id s)) = None"
proof (rule ccontr)
  let ?i = "snd (next_msg_id s)"
  assume "view d messages_table ?i \<noteq> None"
  moreover have "drop_bit 48 ?i = node"
    using msg_id_node n msg_store_open_result(6) [OF L O] by metis
  ultimately have "and ?i counter_mask < mst_counter s"
    by (rule msg_store_open_result(7) [OF L O])
  moreover have "and (mst_counter s) counter_mask = mst_counter s"
  proof -
    have "mst_counter s < 2 ^ 48"
      using c by (simp add: counter_mask_def word_le_nat_alt word_less_nat_alt)
    then have "take_bit 48 (mst_counter s) = mst_counter s"
      by (intro unsigned_word_eqI [where ?'a = nat])
         (simp add: unsigned_take_bit_eq word_less_nat_alt take_bit_nat_eq_self)
    then show ?thesis by (simp add: counter_mask_eq take_bit_eq_mask)
  qed
  ultimately show False by (simp add: msg_id_counter)
qed

end
