(* ===== verification/Msg_Store_Flush.thy ===== *)
theory Msg_Store_Flush
  imports Msg_Store_Disk
begin

text \<open>
  The running message store. A flush has two parts: under the lock it takes the changes, and later a
  transaction on another thread writes them, while the receiving task and the readers go on. A
  state is the store with the list of flushes that were taken but not yet written, oldest first.
  While they are written in this order, the table that will result from them stands in the right
  relation to the memory. The periodic flush of \<open>main.rs\<close> waits for its transaction, but the flush at
  shutdown does not wait for the periodic one; what happens when it overtakes it is shown in
  \<open>Msg_Store_Race\<close>.
\<close>

section \<open>Steps\<close>

text \<open>
  The steps in memory: identifiers, \<open>store\<close>, the receiving task and \<open>get\<close>. A message that is
  received under an identifier still in memory has the topic of the one it replaces, which holds
  when identifiers are fresh, and the byte count stays within \<open>usize\<close>.
\<close>

inductive mem_step :: "'d msg_store \<Rightarrow> 'd msg_store \<Rightarrow> bool" where
  mem_next_id: "mem_step s (fst (next_msg_id s))"
| mem_store: "mem_step s (store_msg i frm p ttl subs now s)"
| mem_recv: "mst_queue s = (k, m) # rest \<Longrightarrow>
    (\<And>old. map_of (ms_msgs (mst_state s)) k = Some old \<Longrightarrow> sm_topic old = sm_topic m) \<Longrightarrow>
    total (ms_msgs (mst_state s)) + approx_size m \<le> usize_max \<Longrightarrow> mem_step s (recv_step now s)"
| mem_get: "get_msgs client filt now s = (s', out) \<Longrightarrow> mem_step s s'"

type_synonym pending = "((u64 \<times> bytes) list \<times> u64 list) list"

text \<open>
  The steps of the store with flushes under way: a transaction commits the oldest one; the messages
  in memory can be encoded.
\<close>

inductive ms_step ::
    "(u64, 'd) redb \<Rightarrow> (stored_msg \<Rightarrow> bytes result) \<Rightarrow> 'd msg_store \<times> pending \<Rightarrow> 'd msg_store \<times> pending \<Rightarrow> bool"
  for R :: "(u64, 'd) redb" and enc :: "stored_msg \<Rightarrow> bytes result" where
  ms_mem: "mem_step s s' \<Longrightarrow> ms_step R enc (s, ps) (s', ps)"
| ms_drain: "\<forall>i m. map_of (ms_msgs (mst_state s)) i = Some m \<longrightarrow> (\<exists>b. enc m = Inr b) \<Longrightarrow>
    flush_drain enc now s = (s', batch, removed) \<Longrightarrow> ms_step R enc (s, ps) (s', ps @ [(batch, removed)])"
| ms_write: "flush_write R batch removed (mst_db s) = (d', Inr u) \<Longrightarrow>
    ms_step R enc (s, (batch, removed) # ps) (s\<lparr>mst_db := d'\<rparr>, ps)"

text \<open>A whole flush is a drain and a write.\<close>

lemma flush_steps:
  assumes "\<forall>i m. map_of (ms_msgs (mst_state s)) i = Some m \<longrightarrow> (\<exists>b. enc m = Inr b)"
    and "flush R enc now s = (s', Inr u)"
  shows "(ms_step R enc)\<^sup>*\<^sup>* (s, []) (s', [])"
proof -
  obtain s1 batch removed where d: "flush_drain enc now s = (s1, batch, removed)" by (metis prod_cases3)
  with assms(2) obtain d' where w: "flush_write R batch removed (mst_db s1) = (d', Inr u)"
    and s': "s' = s1\<lparr>mst_db := d'\<rparr>" by (auto simp: flush_def split: prod.splits)
  have "ms_step R enc (s, []) (s1, [(batch, removed)])" using ms_drain [OF assms(1) d, of R "[]"] by simp
  moreover have "ms_step R enc (s1, [(batch, removed)]) (s', [])" unfolding s' by (rule ms_write [OF w])
  ultimately show ?thesis by (meson converse_rtranclp_into_rtranclp r_into_rtranclp)
qed

section \<open>The invariant\<close>

text \<open>The table after the pending flushes.\<close>

definition pending_view :: "pending \<Rightarrow> (u64 \<rightharpoonup> bytes) \<Rightarrow> (u64 \<rightharpoonup> bytes)" where
  "pending_view ps V = fold (\<lambda>(batch, removed). written_view batch removed) ps V"

lemma pending_view_simps [simp]:
  "pending_view [] V = V"
  "pending_view ((batch, removed) # ps) V = pending_view ps (written_view batch removed V)"
  "pending_view (ps @ [(batch, removed)]) V = written_view batch removed (pending_view ps V)"
  by (simp_all add: pending_view_def)

definition store_inv ::
    "(bytes \<Rightarrow> stored_msg result) \<Rightarrow> (u64, 'd) table_view \<Rightarrow> int \<Rightarrow> 'd msg_store \<times> pending \<Rightarrow> bool" where
  "store_inv dec view H c \<longleftrightarrow>
     ms_inv (mst_state (fst c))
     \<and> disk_ok dec H (pending_view (snd c) (view (mst_db (fst c)) messages_table)) (mst_state (fst c))"

lemma get_msgs_state:
  assumes "get_msgs client filt now s = (s', out)"
  shows "mst_db s' = mst_db s" and "\<exists>is. mst_state s' =
     fold (touch client) is (evict now (mst_max_msgs s) (mst_max_bytes s) (mst_state s))"
  using assms by (auto simp: get_msgs_def Let_def)

lemma disk_ok_touches: "disk_ok dec H V st \<Longrightarrow> disk_ok dec H V (fold (touch c) is st)"
  by (induction "is" arbitrary: st) (simp_all add: disk_ok_touch)

lemma ms_inv_clean: "ms_inv st \<Longrightarrow> ms_inv (st\<lparr>ms_dirty := [], ms_removed := []\<rparr>)"
  by (simp add: ms_inv_def)

text \<open>A step in memory keeps the relation to any table and does not touch the database.\<close>

lemma mem_step_keeps:
  assumes "mem_step s s'" and "ms_inv (mst_state s)" and "disk_ok dec H V (mst_state s)"
  shows "mst_db s' = mst_db s \<and> ms_inv (mst_state s') \<and> disk_ok dec H V (mst_state s')"
  using assms
proof (cases rule: mem_step.cases)
  case (mem_recv k m rest now)
  with assms show ?thesis
    using recv_msg_inv [of "mst_state s" k m now "mst_max_msgs s" "mst_max_bytes s"]
    by (simp add: recv_step_def recv_msg_def disk_ok_evict disk_ok_insert)
next
  case (mem_get client filt now out)
  with assms show ?thesis
    using get_msgs_result(2) [of s] get_msgs_state [OF mem_get]
    by (auto simp: disk_ok_touches disk_ok_evict)
qed (simp_all add: next_msg_id_def store_msg_def Let_def)

lemma store_inv_step:
  assumes L: "redb_laws R view" and C: "codec_laws enc dec"
    and "ms_step R enc c c'" and "store_inv dec view H c"
  shows "store_inv dec view H c'"
  using assms(3,4)
proof (cases rule: ms_step.cases)
  case (ms_mem s s' ps)
  with mem_step_keeps assms(4) show ?thesis by (fastforce simp: store_inv_def)
next
  case (ms_drain s now s' batch removed ps)
  let ?V = "pending_view ps (view (mst_db s) messages_table)"
  have I: "ms_inv (mst_state s)" and D: "disk_ok dec H ?V (mst_state s)"
    using assms(4) ms_drain(1) by (simp_all add: store_inv_def)
  have "ms_inv (mst_state s')"
    unfolding flush_drain_state(2) [OF ms_drain(4)] by (rule ms_inv_clean [OF evict_inv [OF I]])
  with disk_ok_drain [OF C ms_drain(3) I D ms_drain(4)] show ?thesis
    by (simp add: ms_drain(2) store_inv_def flush_drain_state(1) [OF ms_drain(4)])
next
  case (ms_write batch removed s d' u ps)
  with flush_write_view [OF L ms_write(3)] assms(4) show ?thesis
    by (simp add: store_inv_def written_view_def)
qed

lemma store_inv_run:
  assumes "redb_laws R view" and "codec_laws enc dec"
    and "(ms_step R enc)\<^sup>*\<^sup>* c c'" and "store_inv dec view H c"
  shows "store_inv dec view H c'"
  using assms(3,4) by (induction rule: rtranclp_induct) (auto intro: store_inv_step [OF assms(1,2)])

lemma store_inv_open:
  assumes "redb_laws R view" and "msg_store_open R dec env node now d = (d', Inr s)"
  shows "store_inv dec view now (s, [])"
  using msg_store_open_result [OF assms] by (simp add: store_inv_def)

end
