(* ===== verification/Rmqtt_Isolation.thy ===== *)
theory Rmqtt_Isolation
  imports Rmqtt_Session Msg_Store_Flush
begin

text \<open>
  Isolation of users from end to end. The invariant of a broker says that the subscriptions, the
  channel, the queue and the window of every session hold only what its user may receive. Every
  operation of \<open>Rmqtt_Session\<close> keeps it, whoever publishes what, as long as a client identifier belongs
  to one user.
\<close>

section \<open>What a user may receive\<close>

text \<open>The string form of \<open>confined\<close>.\<close>

definition confined_name :: "user_record \<Rightarrow> acl_config \<Rightarrow> string \<Rightarrow> bool" where
  "confined_name r acl s \<longleftrightarrow>
     (\<exists>a rest. split_on (CHR ''/'') s = a # ur_userid r # rest)
     \<or> (\<exists>p \<in> user_prefixes r acl. \<exists>rest. split_on (CHR ''/'') s = split_on (CHR ''/'') p @ rest)"

text \<open>A published string that parses has no wildcards.\<close>

definition named :: "string \<Rightarrow> bool" where
  "named s \<longleftrightarrow> (\<forall>t. topic_from_str s = Inr t \<longrightarrow> topic_name t)"

definition filter_ok :: "acl_config \<Rightarrow> user_record \<Rightarrow> string \<Rightarrow> bool" where
  "filter_ok acl r tf \<longleftrightarrow> (\<exists>f. topic_from_str tf = Inr f) \<and> (ur_superuser r \<or> confined_name r acl tf)"

definition topic_ok :: "acl_config \<Rightarrow> user_record \<Rightarrow> string \<Rightarrow> bool" where
  "topic_ok acl r s \<longleftrightarrow> (named s \<longrightarrow> ur_superuser r \<or> confined_name r acl s)"

text \<open>The configuration: rules are enabled, the configured prefixes and the user ids are plain.\<close>

definition rules_ok :: "acl_config \<Rightarrow> (string \<Rightarrow> user_record) \<Rightarrow> bool" where
  "rules_ok acl owner \<longleftrightarrow> acl_enabled acl
     \<and> (\<forall>c. valid_segment (ur_userid (owner c)) \<and> (\<forall>p \<in> user_prefixes (owner c) acl. plain p))"

text \<open>A granted subscription.\<close>

lemma granted_filter:
  assumes "acl_enabled acl" and "valid_segment (ur_userid r)" and "\<forall>p \<in> user_prefixes r acl. plain p"
    and "ss_auth_info s = Some (build_auth_info r acl ci)" and "ss_superuser s = ur_superuser r"
    and "subscribe_acl_result acl s sub = Some ret" and "sub_success ret \<noteq> None"
  shows "ur_superuser r \<or> confined_name r acl (sub_topic_filter sub)"
proof (cases "ur_superuser r")
  case False
  have "\<exists>g \<in> set (acl_filters r acl). \<exists>t. acl_topic_try_from g ci = Inr t
      \<and> acl_topic_is_match t (sub_topic_filter sub)"
    using assms(4-7) False subscribe_check_build [OF assms(1) False, of ci sub]
    by (auto simp: subscribe_acl_result_def split: if_splits)
  then show ?thesis using acl_filters_match [OF assms(2,3)] by (force simp: confined_name_def)
qed simp

lemma subscribe_acl_answers:
  assumes "acl_enabled acl" and "ss_auth_info s = Some (build_auth_info r acl ci)" and "ss_superuser s = ur_superuser r"
  shows "subscribe_acl_result acl s sub \<noteq> None"
  using assms subscribe_check_build [OF assms(1), of r ci sub]
  by (auto simp: subscribe_acl_result_def)

text \<open>A topic that the router matches with an admissible filter.\<close>

lemma matched_topic:
  assumes "filter_ok acl r tf" and "topic_from_str tf = Inr f" and "mqtt_match f t" and "topic_from_str s = Inr t"
    and uid: "valid_segment (ur_userid r)" and pre: "\<forall>p \<in> user_prefixes r acl. plain p"
  shows "topic_ok acl r s"
proof (cases "ur_superuser r")
  case False
  have lm: "level_match f t" using assms(3) by (simp add: mqtt_match_def)
  have seg: "map level_to_string t = split_on (CHR ''/'') s" by (rule topic_from_str_segments [OF assms(4)])
  from False assms(1) consider a rest where "split_on (CHR ''/'') tf = a # ur_userid r # rest"
    | p rest where "p \<in> user_prefixes r acl" "split_on (CHR ''/'') tf = split_on (CHR ''/'') p @ rest"
    unfolding filter_ok_def confined_name_def by blast
  then have "confined_name r acl s"
  proof cases
    case 1
    obtain b us where "t = b # Normal (ur_userid r) # us"
      using level_match_second [OF lm assms(2) 1 uid] by blast
    with seg have "split_on (CHR ''/'') s = level_to_string b # ur_userid r # map level_to_string us" by simp
    then show ?thesis unfolding confined_name_def by blast
  next
    case (2 p rest)
    have "\<forall>q \<in> set (split_on (CHR ''/'') p). q \<noteq> ''+'' \<and> q \<noteq> ''#''"
      using plain_segment(3,4) 2 pre by blast
    moreover have "map level_to_string f = split_on (CHR ''/'') p @ rest"
      using topic_from_str_segments [OF assms(2)] 2(2) by simp
    ultimately have "\<exists>us. map level_to_string t = split_on (CHR ''/'') p @ us"
      using level_match_prefix [OF lm] topic_from_str_parsed [OF assms(2)] by blast
    with seg 2(1) show ?thesis by (auto simp: confined_name_def)
  qed
  then show ?thesis by (simp add: topic_ok_def)
qed (simp add: topic_ok_def)

text \<open>A topic that the message store matches with an admissible filter.\<close>

lemma match_segments_prefix:
  "match_segments (ps @ rest) ts \<Longrightarrow> \<forall>p \<in> set ps. p \<noteq> ''+'' \<and> p \<noteq> ''#'' \<Longrightarrow> \<exists>us. ts = ps @ us"
proof (induction ps arbitrary: ts)
  case (Cons p ps)
  then obtain u us where "ts = u # us" "seg_ok p u" "match_segments (ps @ rest) us"
    using match_segments_Cons [of p "ps @ rest" ts] by auto
  with Cons show ?case by (auto simp: seg_ok_def)
qed simp

lemma stored_topic:
  assumes "filter_ok acl r tf" and "topic_matches s tf"
    and uid: "valid_segment (ur_userid r)" and pre: "\<forall>p \<in> user_prefixes r acl. plain p"
  shows "topic_ok acl r s"
proof (cases "ur_superuser r")
  case False
  obtain f where f: "topic_from_str tf = Inr f" using assms(1) by (auto simp: filter_ok_def)
  have m: "match_segments (split_on (CHR ''/'') tf) (split_on (CHR ''/'') s)"
    using assms(2) by (simp add: topic_matches_def)
  from False assms(1) consider a rest where "split_on (CHR ''/'') tf = a # ur_userid r # rest"
    | p rest where "p \<in> user_prefixes r acl" "split_on (CHR ''/'') tf = split_on (CHR ''/'') p @ rest"
    unfolding filter_ok_def confined_name_def by blast
  then have "confined_name r acl s"
  proof cases
    case 1
    have "a \<noteq> ''#''"
    proof
      assume "a = ''#''"
      then have "hd f = MultiWildcard" "tl f \<noteq> []" "topic_is_valid f"
        using f 1 by (auto simp: topic_from_str_Inr list_all2_Cons1 level_from_str_def split: if_splits)
      moreover have "f \<noteq> []" using topic_from_str_ne [OF f] .
      ultimately show False using multi_only_last [of "hd f" "tl f"] by simp
    qed
    then obtain u us where u: "split_on (CHR ''/'') s = u # us"
      "match_segments (ur_userid r # rest) us"
      using m 1 match_segments_Cons [of a "ur_userid r # rest"] by auto
    have "ur_userid r \<noteq> ''+'' \<and> ur_userid r \<noteq> ''#''"
      using plain_segment(3,4) [OF valid_segment_plain [OF uid], of "ur_userid r"] valid_segment_chars [OF uid]
      by (metis split_on_no_sep list.set_intros(1))
    with match_segments_prefix [of "[ur_userid r]" rest us] u show ?thesis by (auto simp: confined_name_def)
  next
    case (2 p rest)
    have "\<forall>q \<in> set (split_on (CHR ''/'') p). q \<noteq> ''+'' \<and> q \<noteq> ''#''"
      using plain_segment(3,4) 2 pre by blast
    then obtain us where "split_on (CHR ''/'') s = split_on (CHR ''/'') p @ us"
      using match_segments_prefix [of "split_on (CHR ''/'') p" rest] m 2(2) by force
    with 2(1) show ?thesis unfolding confined_name_def by blast
  qed
  then show ?thesis by (simp add: topic_ok_def)
qed (simp add: topic_ok_def)

section \<open>The invariant\<close>

definition offline_ok :: "acl_config \<Rightarrow> user_record \<Rightarrow> offline_info \<Rightarrow> bool" where
  "offline_ok acl r o_info \<longleftrightarrow>
     (\<forall>tf \<in> fst ` set (of_subscriptions o_info). filter_ok acl r tf)
     \<and> (\<forall>m \<in> set (of_offline_messages o_info). topic_ok acl r (pub_topic (snd m)))
     \<and> (\<forall>m \<in> set (of_inflight_messages o_info). topic_ok acl r (pub_topic (oim_publish m)))"

fun message_ok :: "acl_config \<Rightarrow> user_record \<Rightarrow> message \<Rightarrow> bool" where
  "message_ok acl r (Forward frm p) \<longleftrightarrow> topic_ok acl r (pub_topic p)"
| "message_ok acl r (SessionStateTransfer o_info c) \<longleftrightarrow> offline_ok acl r o_info"
| "message_ok acl r (Subscribes subs) \<longleftrightarrow> True"
| "message_ok acl r (SendRerelease m) \<longleftrightarrow> topic_ok acl r (pub_topic (oim_publish m))"

text \<open>A session of a user: its rights are those of the record, and it holds only admissible data.\<close>

definition session_ok ::
    "acl_config \<Rightarrow> ('w \<Rightarrow> u16 \<rightharpoonup> out_inflight_message) \<Rightarrow> user_record \<Rightarrow> 'w session \<Rightarrow> bool" where
  "session_ok acl view r s \<longleftrightarrow>
     (\<exists>ci. ss_auth_info s = Some (build_auth_info r acl ci)) \<and> ss_superuser s = ur_superuser r
     \<and> (\<forall>tf \<in> fst ` set (ss_subscriptions s). filter_ok acl r tf)
     \<and> (\<forall>m \<in> set (q_inner (ss_deliver_queue s)). topic_ok acl r (pub_topic (snd m)))
     \<and> (\<forall>m \<in> ran (view (oi_queues (ss_out_inflight s))). topic_ok acl r (pub_topic (oim_publish m)))"

definition entry_ok ::
    "acl_config \<Rightarrow> ('w \<Rightarrow> u16 \<rightharpoonup> out_inflight_message) \<Rightarrow> user_record \<Rightarrow> string \<Rightarrow> 'w entry_item \<Rightarrow> bool" where
  "entry_ok acl view r cid e \<longleftrightarrow> id_client_id (ss_id (en_s e)) = cid
     \<and> session_ok acl view r (en_s e) \<and> (\<forall>m \<in> set (en_tx e). message_ok acl r m)"

definition peers_ok ::
    "acl_config \<Rightarrow> ('w \<Rightarrow> u16 \<rightharpoonup> out_inflight_message) \<Rightarrow> (string \<Rightarrow> user_record) \<Rightarrow> (string \<rightharpoonup> 'w entry_item) \<Rightarrow> bool" where
  "peers_ok acl view owner peers \<longleftrightarrow> (\<forall>cid e. peers cid = Some e \<longrightarrow> entry_ok acl view (owner cid) cid e)"

definition router_ok :: "acl_config \<Rightarrow> (string \<Rightarrow> user_record) \<Rightarrow> 'c default_router \<Rightarrow> bool" where
  "router_ok acl owner r \<longleftrightarrow> router_inv r
     \<and> (\<forall>tf cid i opts. subscription r tf cid = Some (i, opts) \<longrightarrow> filter_ok acl (owner cid) tf)"

definition store_ok :: "'d msg_store option \<Rightarrow> bool" where
  "store_ok st \<longleftrightarrow> (\<forall>s. st = Some s \<longrightarrow> ms_inv (mst_state s))"

definition broker_ok ::
    "acl_config \<Rightarrow> ('w \<Rightarrow> u16 \<rightharpoonup> out_inflight_message) \<Rightarrow> (string \<Rightarrow> user_record) \<Rightarrow> ('c, 'd, 'w) broker \<Rightarrow> bool" where
  "broker_ok acl view owner b \<longleftrightarrow> router_ok acl owner (bk_router b)
     \<and> peers_ok acl view owner (bk_peers b) \<and> store_ok (bk_store b)"

lemma rules_okD:
  assumes "rules_ok acl owner"
  shows "acl_enabled acl" "valid_segment (ur_userid (owner c))" "\<forall>p \<in> user_prefixes (owner c) acl. plain p"
  using assms by (auto simp: rules_ok_def)

lemma peers_ok_upd:
  "peers_ok acl view owner peers \<Longrightarrow> entry_ok acl view (owner cid) cid e \<Longrightarrow> peers_ok acl view owner (peers(cid \<mapsto> e))"
  by (simp add: peers_ok_def)

lemma peers_ok_del: "peers_ok acl view owner peers \<Longrightarrow> peers_ok acl view owner (peers(cid := None))"
  by (simp add: peers_ok_def)

lemma broker_ok_entry:
  "broker_ok acl view owner b \<Longrightarrow> bk_peers b cid = Some e \<Longrightarrow> entry_ok acl view (owner cid) cid e"
  by (simp add: broker_ok_def peers_ok_def)

lemma broker_ok_upd:
  "broker_ok acl view owner b \<Longrightarrow> entry_ok acl view (owner cid) cid e \<Longrightarrow>
     broker_ok acl view owner (b\<lparr>bk_peers := (bk_peers b)(cid \<mapsto> e)\<rparr>)"
  by (simp add: broker_ok_def peers_ok_upd)

lemma tx_send_ok:
  "entry_ok acl view r cid e \<Longrightarrow> message_ok acl r m \<Longrightarrow> tx_send m e = Some e' \<Longrightarrow> entry_ok acl view r cid e'"
  by (auto simp: tx_send_def entry_ok_def split: if_splits)

lemma entry_send_ok:
  assumes "broker_ok acl view owner b" and "message_ok acl (owner cid) m"
  shows "broker_ok acl view owner (entry_send cid m b)"
  using assms broker_ok_entry [OF assms(1), of cid] tx_send_ok broker_ok_upd
  by (fastforce simp: entry_send_def Option.bind_eq_Some_conv split: option.splits)

lemma fold_ok:
  assumes "\<And>x b. x \<in> set xs \<Longrightarrow> P b \<Longrightarrow> P (f x b)" and "P b"
  shows "P (fold f xs b)"
  using assms by (induction xs arbitrary: b) auto

section \<open>Forwarding\<close>

lemma forward_copy_topic [simp]: "pub_topic (forward_copy lv opts p) = pub_topic p"
  by (simp add: forward_copy_def)

lemma stored_copy_topic [simp]: "pub_topic (stored_copy lv q p) = pub_topic p"
  by (simp add: stored_copy_def)

lemma forwards_to_ok:
  assumes "peers_ok acl view owner peers"
    and "\<forall>(tf, cid, rest) \<in> set rels. topic_ok acl (owner cid) (pub_topic p)"
  shows "peers_ok acl view owner (fst (forwards_to lv frm p rels peers))"
  using assms
proof (induction lv frm p rels peers rule: forwards_to.induct)
  case (2 lv frm p tf cid opts ids grp rels peers)
  show ?case
  proof (cases "Option.bind (peers cid) (tx_send (Forward frm (forward_copy lv opts p)))")
    case None
    with 2 show ?thesis by (auto simp: Let_def split: option.splits prod.splits)
  next
    case (Some e')
    then obtain e where e: "peers cid = Some e" "tx_send (Forward frm (forward_copy lv opts p)) e = Some e'"
      by (auto simp: Option.bind_eq_Some_conv)
    have "entry_ok acl view (owner cid) cid e'"
      by (rule tx_send_ok [OF _ _ e(2)]) (use 2(4,5) e(1) in \<open>auto simp: peers_ok_def\<close>)
    then have "peers_ok acl view owner (peers(cid \<mapsto> e'))" by (rule peers_ok_upd [OF 2(4)])
    then have "peers_ok acl view owner (fst (forwards_to lv frm p rels (peers(cid \<mapsto> e'))))"
      by (rule 2(3) [OF refl e]) (use 2(5) in auto)
    with e show ?thesis by (simp add: Let_def)
  qed
qed simp

lemma matched_relations:
  assumes R: "rules_ok acl owner" and "router_ok acl owner r"
    and "router_matches online rnd this_id s r = Inr m" and "map_of m n = Some rels"
  shows "\<forall>(tf, cid, rest) \<in> set rels. topic_ok acl (owner cid) s"
proof (cases "\<exists>t. topic_from_str s = Inr t \<and> topic_name t")
  case True
  then obtain t where t: "topic_from_str s = Inr t" "topic_name t" by blast
  have inv: "router_inv r" using assms(2) by (simp add: router_ok_def)
  obtain cm where cm: "router_matches online rnd this_id s r = Inr (match_result cm)"
    and sound: "\<And>n tf cid opts g. cm_entry cm n (tf, cid, opts, g) \<Longrightarrow>
      \<exists>i f. subscription r tf cid = Some (i, opts) \<and> topic_from_str tf = Inr f \<and> mqtt_match f t"
    by (rule router_matches_cm [OF inv t, of online rnd this_id]) blast
  have "topic_ok acl (owner cid) s" if "(tf, cid, opts, ids, g) \<in> set rels" for tf cid opts ids g
  proof -
    have "cm_entry cm n (tf, cid, opts, g)"
      using that assms(3,4) cm by (fastforce simp: map_of_match_result cm_entry_def)
    from sound [OF this] obtain i f where f: "subscription r tf cid = Some (i, opts)"
      "topic_from_str tf = Inr f" "mqtt_match f t" by blast
    then have "filter_ok acl (owner cid) tf" using assms(2) by (simp add: router_ok_def)
    from matched_topic [OF this f(2,3) t(1) rules_okD(2,3) [OF R]] show ?thesis .
  qed
  then show ?thesis by auto
next
  case False
  moreover have "\<exists>t. topic_from_str s = Inr t" using assms(3) by (auto simp: router_matches_def)
  ultimately show ?thesis by (auto simp: topic_ok_def named_def)
qed

lemma shared_forwards_ok:
  assumes "rules_ok acl owner" and "broker_ok acl view owner b"
  shows "broker_ok acl view owner (fst (shared_forwards X online rnd frm p b))"
proof (cases "router_matches online rnd (from_id frm) (pub_topic p) (bk_router b)")
  case (Inl e)
  then show ?thesis using assms(2) by (simp add: shared_forwards_def)
next
  case (Inr m)
  show ?thesis
  proof (cases "map_of m (bk_node_id b)")
    case None
    with Inr assms(2) show ?thesis by (simp add: shared_forwards_def)
  next
    case (Some rels)
    have "router_ok acl owner (bk_router b)" using assms(2) by (simp add: broker_ok_def)
    from forwards_to_ok [OF _ matched_relations [OF assms(1) this Inr Some], of view "bk_peers b" "sx_less_value X" frm]
    show ?thesis using Inr Some assms(2) by (simp add: shared_forwards_def broker_ok_def case_prod_beta)
  qed
qed

lemma inner_forwards_ok:
  assumes "rules_ok acl owner" and "broker_ok acl view owner b"
  shows "broker_ok acl view owner (inner_forwards X online rnd now frm p avail expiry b)"
proof -
  define b0 where "b0 = b\<lparr>bk_store := (case bk_store b of
      Some s \<Rightarrow> Some (if avail then fst (next_msg_id s) else s) | None \<Rightarrow> None)\<rparr>"
  have "broker_ok acl view owner b0"
    using assms(2) by (auto simp: b0_def broker_ok_def store_ok_def next_msg_id_def split: option.splits)
  then have f: "broker_ok acl view owner (fst (shared_forwards X online rnd frm p b0))"
    by (rule shared_forwards_ok [OF assms(1)])
  let ?b1 = "fst (shared_forwards X online rnd frm p b0)"
  have "inner_forwards X online rnd now frm p avail expiry b = ?b1
    \<or> (\<exists>s i ttl cs. bk_store ?b1 = Some s
         \<and> inner_forwards X online rnd now frm p avail expiry b = ?b1\<lparr>bk_store := Some (store_msg i frm p ttl cs now s)\<rparr>)"
    by (cases "bk_store b"; cases avail; cases expiry; cases "bk_store ?b1")
       ((auto simp: inner_forwards_def b0_def Let_def split: prod.splits)[1]; blast?)+
  with f show ?thesis by (auto simp: broker_ok_def store_ok_def store_msg_def)
qed

lemma session_publish_ok:
  "rules_ok acl owner \<Longrightarrow> broker_ok acl view owner b \<Longrightarrow>
     broker_ok acl view owner (fst (session_publish X acl' online rnd now ttl s p b))"
  by (simp add: session_publish_def Let_def inner_forwards_ok)

lemma process_last_will_ok:
  "rules_ok acl owner \<Longrightarrow> broker_ok acl view owner b \<Longrightarrow>
     broker_ok acl view owner (process_last_will X online rnd now ttl s b)"
  by (simp add: process_last_will_def Let_def inner_forwards_ok split: option.splits)

section \<open>Stored messages\<close>

text \<open>The answers of the other nodes to a load hold messages that match its filter.\<close>

definition replies_match :: "string \<Rightarrow> stored list result list \<Rightarrow> bool" where
  "replies_match filt replies \<longleftrightarrow>
     (\<forall>ms. Inr ms \<in> set replies \<longrightarrow> (\<forall>(i, frm, p) \<in> set ms. topic_matches (pub_topic p) filt))"

lemma merge_replies_match:
  "merge_replies msgs replies = Inr ms \<Longrightarrow> replies_match filt replies \<Longrightarrow>
     \<forall>(i, frm, p) \<in> set msgs. topic_matches (pub_topic p) filt \<Longrightarrow>
     \<forall>(i, frm, p) \<in> set ms. topic_matches (pub_topic p) filt"
proof (induction msgs replies rule: merge_replies.induct)
  case (2 msgs reply replies)
  then show ?case by (cases reply) (fastforce simp: replies_match_def)+
qed simp

lemma message_load_ok:
  assumes "broker_ok acl view owner b" and "message_load cid filt now replies b = (b', res)"
    and "replies_match filt replies"
  shows "broker_ok acl view owner b' \<and> bk_peers b' = bk_peers b"
    and "res = Inr ms \<Longrightarrow> \<forall>(i, frm, p) \<in> set ms. topic_matches (pub_topic p) filt"
proof -
  have "(broker_ok acl view owner b' \<and> bk_peers b' = bk_peers b)
    \<and> (res = Inr ms \<longrightarrow> (\<forall>(i, frm, p) \<in> set ms. topic_matches (pub_topic p) filt))"
  proof (cases "bk_store b")
    case None
    then show ?thesis using assms(1,2) by (auto simp: message_load_def)
  next
    case (Some s)
    obtain s' msgs where g: "get_msgs cid filt now s = (s', msgs)" by fastforce
    have "ms_inv (mst_state s)" using assms(1) Some by (simp add: broker_ok_def store_ok_def)
    note G = get_msgs_result [OF this g]
    have "b' = b\<lparr>bk_store := Some s'\<rparr>" and res: "res = merge_replies msgs replies"
      using assms(2) Some g by (simp_all add: message_load_def)
    moreover have "\<forall>(i, frm, p) \<in> set msgs. topic_matches (pub_topic p) filt"
      by (auto simp: G(1))
    ultimately show ?thesis
      using assms(1) G(2) merge_replies_match [OF _ assms(3)] by (auto simp: broker_ok_def store_ok_def)
  qed
  then show "broker_ok acl view owner b' \<and> bk_peers b' = bk_peers b"
    and "res = Inr ms \<Longrightarrow> \<forall>(i, frm, p) \<in> set ms. topic_matches (pub_topic p) filt" by blast+
qed

lemma entry_publish_ok:
  "broker_ok acl view owner b \<Longrightarrow> topic_ok acl (owner cid) (pub_topic p) \<Longrightarrow>
     broker_ok acl view owner (entry_publish cid frm p b)"
  by (simp add: entry_publish_def entry_send_ok)

lemma send_storaged_messages_ok:
  assumes R: "rules_ok acl owner" and "broker_ok acl view owner b"
    and "filter_ok acl (owner cid) filt" and "replies_match filt replies"
  shows "broker_ok acl view owner (fst (send_storaged_messages X cid filt q now replies b))"
proof -
  obtain b1 res where l: "message_load cid filt now replies b = (b1, res)" by fastforce
  note L = message_load_ok [OF assms(2) l assms(4)]
  show ?thesis
  proof (cases res)
    case (Inl e)
    then show ?thesis using L(1) l by (simp add: send_storaged_messages_def)
  next
    case (Inr msgs)
    have "topic_ok acl (owner cid) (pub_topic p)" if "(i, frm, p) \<in> set msgs" for i frm p
      using that L(2) [OF Inr] stored_topic [OF assms(3) _ rules_okD(2,3) [OF R]] by auto
    then have "broker_ok acl view owner
        (fold (\<lambda>(_, frm, p). entry_publish cid frm (stored_copy (sx_less_value X) q p)) msgs b1)"
      using L(1) by (intro fold_ok [where P = "broker_ok acl view owner"]) (auto intro!: entry_publish_ok)
    then show ?thesis using Inr l by (simp add: send_storaged_messages_def)
  qed
qed

section \<open>Subscribing\<close>

lemma router_ok_add:
  assumes "router_ok acl owner r" and "ur_superuser (owner (id_client_id i)) \<or> confined_name (owner (id_client_id i)) acl tf"
  shows "router_ok acl owner (fst (router_add K tf i opts r))"
proof (cases "topic_from_str tf")
  case (Inl e)
  then show ?thesis using assms(1) by (simp add: router_add_def)
next
  case (Inr f)
  then have "filter_ok acl (owner (id_client_id i)) tf" using assms(2) by (simp add: filter_ok_def)
  with assms(1) show ?thesis
    by (simp add: router_ok_def router_add_inv subscription_add [OF Inr])
qed

lemma router_ok_remove:
  assumes "router_ok acl owner r"
  shows "router_ok acl owner (fst (router_remove K tf i r))"
proof (cases "\<exists>opts. subscription r tf (id_client_id i) = Some (i, opts)")
  case True
  have inv: "router_inv r" using assms by (simp add: router_ok_def)
  from True obtain opts where "subscription r tf (id_client_id i) = Some (i, opts)" by blast
  note sub = router_remove_owner(2) [OF inv this]
  show ?thesis using assms router_remove_inv [OF inv] by (simp add: router_ok_def sub)
next
  case False
  then show ?thesis using router_remove_other [OF False] assms by simp
qed

lemma keys_fold_update:
  "fst ` set (fold (\<lambda>(k, v). AList.update k v) xs al) = fst ` set xs \<union> fst ` set al"
proof (induction xs arbitrary: al)
  case (Cons x xs)
  have "fst ` set (AList.update (fst x) (snd x) al) = insert (fst x) (fst ` set al)"
    using dom_update [of "fst x" "snd x" al] by (simp add: dom_map_of_conv_image_fst)
  with Cons show ?case by (auto simp: case_prod_beta)
qed simp

lemma keys_update_list: "fst ` set (AList.update k v al) = insert k (fst ` set al)"
  using keys_fold_update [of "[(k, v)]" al] by simp

lemma entry_ok_subscriptions:
  "entry_ok acl view r cid e \<Longrightarrow> \<forall>tf \<in> fst ` set subs. filter_ok acl r tf \<Longrightarrow>
     entry_ok acl view r cid (e\<lparr>en_s := (en_s e)\<lparr>ss_subscriptions := subs\<rparr>\<rparr>)"
  by (simp add: entry_ok_def session_ok_def)

lemma session_okD:
  assumes "session_ok acl view r s"
  shows "\<exists>ci. ss_auth_info s = Some (build_auth_info r acl ci)" "ss_superuser s = ur_superuser r"
    "tf \<in> fst ` set (ss_subscriptions s) \<Longrightarrow> filter_ok acl r tf"
  using assms by (auto simp: session_ok_def)

lemma entry_okD:
  assumes "entry_ok acl view r cid e"
  shows "id_client_id (ss_id (en_s e)) = cid" "session_ok acl view r (en_s e)"
  using assms by (auto simp: entry_ok_def)

lemma entry_subscribe_ok:
  assumes "broker_ok acl view owner b"
    and "ur_superuser (owner (id_client_id i)) \<or> confined_name (owner (id_client_id i)) acl (sub_topic_filter sub)"
    and "entry_subscribe K i sub b = (b', res)"
  shows "broker_ok acl view owner b' \<and> (res = Inr ret \<longrightarrow> filter_ok acl (owner (id_client_id i)) (sub_topic_filter sub))"
proof (cases "bk_peers b (id_client_id i)")
  case None
  then show ?thesis using assms(1,3) by (auto simp: entry_subscribe_def)
next
  case (Some e)
  let ?tf = "sub_topic_filter sub"
  note E = broker_ok_entry [OF assms(1) Some]
  obtain r res' where a: "router_add K ?tf i (sub_opts sub) (bk_router b) = (r, res')" by fastforce
  have r: "router_ok acl owner r"
    using router_ok_add [of acl owner "bk_router b" i ?tf K "sub_opts sub"] assms(1,2) a by (simp add: broker_ok_def)
  have f: "filter_ok acl (owner (id_client_id i)) ?tf" if "res' = Inr u" for u
    using a assms(2) that by (cases "topic_from_str ?tf") (auto simp: router_add_def filter_ok_def)
  show ?thesis
  proof (cases "id_node_id (ss_id (en_s e)) = bk_node_id b \<and> (\<exists>u. res' = Inr u)")
    case True
    then have F: "filter_ok acl (owner (id_client_id i)) ?tf" using f by blast
    let ?e = "e\<lparr>en_s := (en_s e)\<lparr>ss_subscriptions := AList.update ?tf (sub_opts sub) (ss_subscriptions (en_s e))\<rparr>\<rparr>"
    have "entry_ok acl view (owner (id_client_id i)) (id_client_id i) ?e"
      by (rule entry_ok_subscriptions [OF E])
         (use session_okD(3) [OF entry_okD(2) [OF E]] F in \<open>simp add: keys_update_list\<close>)
    moreover have "b' = b\<lparr>bk_router := r, bk_peers := (bk_peers b)(id_client_id i \<mapsto> ?e)\<rparr>"
      using True assms(3) Some a by (auto simp: entry_subscribe_def Let_def)
    ultimately show ?thesis using F r assms(1) by (simp add: broker_ok_def peers_ok_upd)
  next
    case False
    then have "(b' = b \<or> b' = b\<lparr>bk_router := r\<rparr>) \<and> (\<nexists>ret. res = Inr ret)"
      using assms(3) Some a by (cases res') (auto simp: entry_subscribe_def Let_def split: if_splits)
    then show ?thesis using r assms(1) by (auto simp: broker_ok_def)
  qed
qed

text \<open>A subscription that the check of the hook lets through.\<close>

lemma checked_sub_ok:
  assumes R: "rules_ok acl owner" and S: "session_ok acl view (owner cid) s"
    and "checked_sub lv acl cfg s sub = Inr sub2"
  shows "sub_topic_filter sub2 = sub_topic_filter sub"
    and "ur_superuser (owner cid) \<or> confined_name (owner cid) acl (sub_topic_filter sub)"
proof -
  obtain ci where ci: "ss_auth_info s = Some (build_auth_info (owner cid) acl ci)" using session_okD(1) [OF S] by blast
  note su = session_okD(2) [OF S]
  let ?sub1 = "sub\<lparr>sub_opts := opts_set_qos (lv (opts_qos (sub_opts sub)) (lc_max_qos_allowed cfg)) (sub_opts sub)\<rparr>"
  obtain r where r: "subscribe_acl_result acl s ?sub1 = Some r"
    using subscribe_acl_answers [OF rules_okD(1) [OF R] ci su] by blast
  then have ok: "sub_success r \<noteq> None" and same: "sub_topic_filter sub2 = sub_topic_filter sub"
    using assms(3) by (auto simp: checked_sub_def Let_def split: option.splits)
  show "sub_topic_filter sub2 = sub_topic_filter sub" by (rule same)
  show "ur_superuser (owner cid) \<or> confined_name (owner cid) acl (sub_topic_filter sub)"
    using granted_filter [OF rules_okD [OF R] ci su r ok] by simp
qed

lemma subscribe_send_ok:
  assumes R: "rules_ok acl owner" and B: "broker_ok acl view owner b"
    and C: "ur_superuser (owner (id_client_id i)) \<or> confined_name (owner (id_client_id i)) acl (sub_topic_filter sub)"
    and "replies_match (sub_topic_filter sub) replies"
  shows "broker_ok acl view owner (fst (subscribe_send X K now replies i sub b))"
proof -
  obtain b1 res where es: "entry_subscribe K i sub b = (b1, res)" by fastforce
  note E = entry_subscribe_ok [OF B C es]
  have "fst (subscribe_send X K now replies i sub b) = b1
      \<or> ((\<exists>ret. res = Inr ret) \<and> (\<exists>q. fst (subscribe_send X K now replies i sub b)
            = fst (send_storaged_messages X (id_client_id i) (sub_topic_filter sub) q now replies b1)))"
    by (cases res) (auto simp: subscribe_send_def es case_prod_beta split: option.splits sum.splits)
  with E show ?thesis using send_storaged_messages_ok [OF R _ _ assms(4)] by metis
qed

lemma session_subscribe_ok:
  assumes R: "rules_ok acl owner" and B: "broker_ok acl view owner b"
    and S: "session_ok acl view (owner (id_client_id (ss_id s))) s" and "replies_match (sub_topic_filter sub) replies"
  shows "broker_ok acl view owner (fst (session_subscribe X K acl cfg now replies s sub b))"
proof -
  have "fst (session_subscribe X K acl cfg now replies s sub b) = b
    \<or> (\<exists>sub2. checked_sub (sx_less_value X) acl cfg s sub = Inr sub2
        \<and> fst (session_subscribe X K acl cfg now replies s sub b) = fst (subscribe_send X K now replies (ss_id s) sub2 b))"
    by (simp add: session_subscribe_def Let_def split: sum.split)
  moreover have "broker_ok acl view owner (fst (subscribe_send X K now replies (ss_id s) sub2 b))"
    if c: "checked_sub (sx_less_value X) acl cfg s sub = Inr sub2" for sub2
    by (rule subscribe_send_ok [OF R B]) (use checked_sub_ok [OF R S c] assms(4) in simp_all)
  ultimately show ?thesis using B by auto
qed

lemma session_unsubscribe_ok:
  assumes B: "broker_ok acl view owner b"
  shows "broker_ok acl view owner (fst (session_unsubscribe K s tf b))"
proof (cases "bk_peers b (id_client_id (ss_id s))")
  case (Some e)
  note E = broker_ok_entry [OF B Some]
  have "\<forall>g \<in> fst ` set (AList.delete tf (ss_subscriptions (en_s e))). filter_ok acl (owner (id_client_id (ss_id s))) g"
    using session_okD(3) [OF entry_okD(2) [OF E]] by (auto dest: set_delete_alist)
  from entry_ok_subscriptions [OF E this] B show ?thesis
    by (simp add: session_unsubscribe_def Some Let_def broker_ok_def peers_ok_upd router_ok_remove)
qed (simp add: session_unsubscribe_def B)

section \<open>Taking over and ending sessions\<close>

lemma remove_entry_ok:
  assumes B: "broker_ok acl view owner b" and "remove_entry K clear cid b = (b', res)"
  shows "broker_ok acl view owner b' \<and> (\<forall>s. res = Some s \<longrightarrow> session_ok acl view (owner cid) s)"
proof (cases "bk_peers b cid")
  case (Some e)
  have "router_ok acl owner (fold (\<lambda>(tf, _) r. fst (router_remove K tf (ss_id (en_s e)) r))
      (ss_subscriptions (en_s e)) (bk_router b))"
    using B by (intro fold_ok [where P = "router_ok acl owner"]) (auto simp: broker_ok_def router_ok_remove)
  then show ?thesis
    using assms Some entry_okD(2) [OF broker_ok_entry [OF B Some]]
    by (auto simp: remove_entry_def Let_def broker_ok_def peers_ok_del)
qed (use assms in \<open>auto simp: remove_entry_def\<close>)

lemma to_offline_info_ok:
  assumes "deque_laws (sx_deque X) view" and "session_ok acl view r s"
  shows "offline_ok acl r (to_offline_info X s)"
  using assms(2) conjunct2 [OF to_inflight_messages_all [OF assms(1) surjective_pairing, of "ss_out_inflight s"]]
  by (simp add: offline_ok_def to_offline_info_def session_ok_def)

lemma kick_ok:
  assumes L: "deque_laws (sx_deque X) view" and B: "broker_ok acl view owner b" and "kick X K clean cid b = (b', off)"
  shows "broker_ok acl view owner b' \<and> (\<forall>x. off = Some x \<longrightarrow> offline_ok acl (owner cid) x)"
proof -
  obtain b1 res where r: "remove_entry K clean cid b = (b1, res)" by fastforce
  from remove_entry_ok [OF B r] to_offline_info_ok [OF L] assms(3) r show ?thesis
    by (auto simp: kick_def split: option.splits if_splits)
qed

text \<open>The hook authenticates a client as its owner.\<close>

definition authenticates :: "acl_config \<Rightarrow> user_record \<Rightarrow> return_type \<Rightarrow> bool" where
  "authenticates acl r ret \<longleftrightarrow> (\<forall>superuser info. client_authenticate ret = Some (superuser, info) \<longrightarrow>
     superuser = ur_superuser r \<and> (\<exists>ci. info = Some (build_auth_info r acl ci)))"

lemma new_session_ok:
  assumes "deque_laws (sx_deque X) view"
  shows "session_ok acl view r (new_session X cfg i (ur_superuser r) (Some (build_auth_info r acl ci)) will)"
  using deque_lawsD(1) [OF assms] by (auto simp: session_ok_def new_session_def queue_new_def out_inflight_new_def)

lemma handshake_ok:
  assumes L: "deque_laws (sx_deque X) view" and B: "broker_ok acl view owner b"
    and A: "authenticates acl (owner (id_client_id i)) ret"
  shows "broker_ok acl view owner (fst (handshake X K cfg i will clean ret auto_subs b))"
proof (cases "client_authenticate ret")
  case None
  then show ?thesis using B by (simp add: handshake_def)
next
  case (Some si)
  let ?r = "owner (id_client_id i)"
  obtain ci where si: "si = (ur_superuser ?r, Some (build_auth_info ?r acl ci))"
    using A Some by (cases si) (auto simp: authenticates_def)
  obtain b1 off where k: "kick X K clean (id_client_id i) b = (b1, off)" by fastforce
  note K = kick_ok [OF L B k]
  have "entry_ok acl view ?r (id_client_id i)
      \<lparr>en_s = new_session X cfg i (ur_superuser ?r) (Some (build_auth_info ?r acl ci)) will, en_tx = tx, en_closed = c\<rparr>"
    if "\<forall>m \<in> set tx. message_ok acl ?r m" for tx c
    using that new_session_ok [OF L] by (simp add: entry_ok_def) (simp add: new_session_def)
  then show ?thesis
    using K si Some k
    by (auto simp: handshake_def Let_def intro!: broker_ok_upd split: option.splits sum.splits)
qed

lemma transfer_subscription_ok:
  assumes R: "rules_ok acl owner" and B: "broker_ok acl view owner b"
    and F: "filter_ok acl (owner (id_client_id i)) (fst sub)"
  shows "broker_ok acl view owner (transfer_subscription X K now i sub b)"
proof -
  let ?b1 = "b\<lparr>bk_router := fst (router_add K (fst sub) i (snd sub) (bk_router b))\<rparr>"
  have "broker_ok acl view owner ?b1"
    using B F router_ok_add [of acl owner "bk_router b" i "fst sub"] by (simp add: broker_ok_def filter_ok_def)
  from send_storaged_messages_ok [OF R this F, of "[]"] show ?thesis
    by (simp add: transfer_subscription_def case_prod_beta Let_def replies_match_def)
qed

lemma reforward_ok:
  assumes "broker_ok acl view owner b" and "topic_ok acl (owner cid) (pub_topic (oim_publish m))"
  shows "broker_ok acl view owner (reforward expired cid m b)"
  using assms by (auto simp: reforward_def intro!: entry_send_ok entry_publish_ok split: moment_status.split)

lemma extend_subscriptions_ok:
  assumes B: "broker_ok acl view owner b" and "\<forall>tf \<in> fst ` set subs. filter_ok acl (owner cid) tf"
  shows "broker_ok acl view owner (extend_subscriptions cid subs b)"
proof (cases "bk_peers b cid")
  case (Some e)
  note E = broker_ok_entry [OF B Some]
  let ?subs = "fold (\<lambda>(tf, opts). AList.update tf opts) subs (ss_subscriptions (en_s e))"
  have "entry_ok acl view (owner cid) cid (e\<lparr>en_s := (en_s e)\<lparr>ss_subscriptions := ?subs\<rparr>\<rparr>)"
    using assms(2) session_okD(3) [OF entry_okD(2) [OF E]]
    by (intro entry_ok_subscriptions [OF E]) (auto simp: keys_fold_update)
  from broker_ok_upd [OF B this] Some show ?thesis by (simp add: extend_subscriptions_def Let_def)
qed (simp add: extend_subscriptions_def B)

lemma transfer_session_state_ok:
  assumes R: "rules_ok acl owner" and B: "broker_ok acl view owner b"
    and O: "offline_ok acl (owner (id_client_id i)) x"
  shows "broker_ok acl view owner (transfer_session_state X K now i clear x b)"
proof -
  let ?P = "broker_ok acl view owner" and ?cid = "id_client_id i"
  have 1: "?P (fold (transfer_subscription X K now i) (of_subscriptions x) b)"
    by (rule fold_ok [where P = ?P, OF transfer_subscription_ok [OF R] B]) (use O in \<open>auto simp: offline_ok_def\<close>)
  have 2: "?P (extend_subscriptions ?cid (of_subscriptions x) b1)" if "?P b1" for b1
    by (rule extend_subscriptions_ok [OF that]) (use O in \<open>auto simp: offline_ok_def\<close>)
  have 3: "?P (fold (\<lambda>m. if oim_status m \<noteq> UnComplete then reforward False ?cid m else id) (rev (of_inflight_messages x)) b2)"
    if "?P b2" for b2
    by (rule fold_ok [where P = ?P, OF _ that]) (use O in \<open>auto simp: offline_ok_def intro!: reforward_ok\<close>)
  have 4: "?P (fold (\<lambda>(frm, p). entry_publish ?cid frm p) (of_offline_messages x) b3)" if "?P b3" for b3
    by (rule fold_ok [where P = ?P, OF _ that]) (use O in \<open>auto simp: offline_ok_def intro!: entry_publish_ok\<close>)
  show ?thesis unfolding transfer_session_state_def Let_def by (intro 4 3) (use B 1 2 in auto)
qed

lemma session_clean_ok:
  assumes "broker_ok acl view owner b"
  shows "broker_ok acl view owner (session_clean K s b)"
  using assms remove_entry_ok [OF assms, of K True "id_client_id (ss_id s)"]
  by (auto simp: session_clean_def split: option.splits) (metis fst_conv surj_pair)

section \<open>The loop of a session\<close>

lemma sender_send_items: "set (q_inner (fst (sender_send pol v q))) \<subseteq> insert v (set (q_inner q))"
  by (auto simp: sender_send_def queue_push_def queue_pop_def Let_def
      split: prod.splits sum.splits policy.splits list.splits if_splits option.splits)

lemma session_ok_window:
  "session_ok acl view r s \<Longrightarrow> ran (view (oi_queues w)) \<subseteq> M \<Longrightarrow>
     \<forall>m \<in> M. topic_ok acl r (pub_topic (oim_publish m)) \<Longrightarrow> session_ok acl view r (s\<lparr>ss_out_inflight := w\<rparr>)"
  by (auto simp: session_ok_def)

lemma window_push:
  assumes "deque_laws D view"
  shows "ran (view (oi_queues (fst (oi_push_back D m w)))) \<subseteq> insert m (ran (view (oi_queues w)))"
proof (cases "pub_packet_id (oim_publish m)")
  case (Some pid)
  from oi_push_back_view [OF assms Some surjective_pairing, of w] show ?thesis
    by (auto simp: ran_def)
qed (auto simp: oi_push_back_def)

lemma session_okW:
  "session_ok acl view r s \<Longrightarrow> \<forall>m \<in> ran (view (oi_queues (ss_out_inflight s))). topic_ok acl r (pub_topic (oim_publish m))"
  by (simp add: session_ok_def)

lemma push_back_ok:
  assumes L: "deque_laws D view" and S: "session_ok acl view r s" and "topic_ok acl r (pub_topic (oim_publish m))"
    and "oi_queues w = oi_queues (ss_out_inflight s)"
  shows "session_ok acl view r (s\<lparr>ss_out_inflight := fst (oi_push_back D m w)\<rparr>)"
  by (rule session_ok_window [OF S window_push [OF L]]) (use session_okW [OF S] assms(3,4) in simp)

lemma process_message_ok:
  assumes R: "rules_ok acl owner" and L: "deque_laws (sx_deque X) view" and B: "broker_ok acl view owner b"
  shows "broker_ok acl view owner (process_message X K acl cfg now cid b)"
proof (cases "\<exists>e m rest. bk_peers b cid = Some e \<and> en_tx e = m # rest")
  case True
  then obtain e m rest where e: "bk_peers b cid = Some e" "en_tx e = m # rest" by blast
  let ?r = "owner cid" and ?e = "e\<lparr>en_tx := rest\<rparr>" and ?b1 = "b\<lparr>bk_peers := (bk_peers b)(cid \<mapsto> e\<lparr>en_tx := rest\<rparr>)\<rparr>"
  note E = broker_ok_entry [OF B e(1)]
  note S = entry_okD(2) [OF E] and I = entry_okD(1) [OF E]
  have M: "message_ok acl ?r m" using E e(2) by (simp add: entry_ok_def)
  have E1: "entry_ok acl view ?r cid (e\<lparr>en_tx := rest, en_s := s\<rparr>)"
    if "session_ok acl view ?r s" "ss_id s = ss_id (en_s e)" for s
    using E e(2) that by (simp add: entry_ok_def)
  have B1: "broker_ok acl view owner ?b1"
    using broker_ok_upd [OF B E1 [OF S refl]] by simp
  show ?thesis
  proof (cases m)
    case (Forward frm p)
    let ?s = "(en_s e)\<lparr>ss_deliver_queue := fst (sender_send deliver_policy (frm, p) (ss_deliver_queue (en_s e)))\<rparr>"
    have "session_ok acl view ?r ?s"
      using S M Forward sender_send_items [of deliver_policy "(frm, p)" "ss_deliver_queue (en_s e)"]
      by (auto simp: session_ok_def)
    from broker_ok_upd [OF B E1 [OF this]] Forward e show ?thesis by (simp add: process_message_def Let_def)
  next
    case (SessionStateTransfer x c)
    then show ?thesis
      using transfer_session_state_ok [OF R B1, of "ss_id (en_s e)" x] M I e
      by (simp add: process_message_def Let_def)
  next
    case (Subscribes subs)
    have "broker_ok acl view owner (case bk_peers b' cid of
        Some e' \<Rightarrow> fst (session_subscribe X K acl cfg now [] (en_s e') sub b') | None \<Rightarrow> b')"
      if "broker_ok acl view owner b'" for sub b'
      using that session_subscribe_ok [OF R that] entry_okD broker_ok_entry [OF that]
      by (fastforce simp: replies_match_def split: option.splits)
    then have "broker_ok acl view owner (fold (\<lambda>sub b'. case bk_peers b' cid of
        Some e' \<Rightarrow> fst (session_subscribe X K acl cfg now [] (en_s e') sub b') | None \<Rightarrow> b') subs ?b1)"
      using B1 by (intro fold_ok [where P = "broker_ok acl view owner"])
    then show ?thesis using Subscribes e by (simp add: process_message_def Let_def)
  next
    case (SendRerelease x)
    let ?m = "oim_new UnComplete (oim_from x) (oim_publish x) now"
    have "session_ok acl view ?r ((en_s e)\<lparr>ss_out_inflight := fst (oi_push_back (sx_deque X) ?m (ss_out_inflight (en_s e)))\<rparr>)"
      by (rule push_back_ok [OF L S]) (use M SendRerelease in \<open>simp_all add: oim_new_def\<close>)
    from broker_ok_upd [OF B E1 [OF this]] SendRerelease e B1 show ?thesis by (simp add: process_message_def Let_def)
  qed
next
  case False
  then show ?thesis using B by (auto simp: process_message_def split: option.splits list.splits)
qed

lemma offline_message_ok:
  assumes B: "broker_ok acl view owner b"
  shows "broker_ok acl view owner (offline_message cid b)"
proof (cases "\<exists>e m rest. bk_peers b cid = Some e \<and> en_tx e = m # rest")
  case True
  then obtain e m rest where e: "bk_peers b cid = Some e" "en_tx e = m # rest" by blast
  note E = broker_ok_entry [OF B e(1)]
  have E1: "entry_ok acl view (owner cid) cid (e\<lparr>en_tx := rest\<rparr>)" using E e(2) by (simp add: entry_ok_def)
  show ?thesis
  proof (cases m)
    case (Forward frm p)
    have "topic_ok acl (owner cid) (pub_topic p)" using E e(2) Forward by (simp add: entry_ok_def)
    then have "entry_ok acl view (owner cid) cid (e\<lparr>en_tx := rest, en_s := (en_s e)\<lparr>ss_deliver_queue :=
        fst (sender_send deliver_policy (frm, p) (ss_deliver_queue (en_s e)))\<rparr>\<rparr>)"
      using E e(2) sender_send_items [of deliver_policy "(frm, p)" "ss_deliver_queue (en_s e)"]
      by (auto simp: entry_ok_def session_ok_def)
    from broker_ok_upd [OF B this] Forward e show ?thesis by (simp add: offline_message_def)
  qed (use broker_ok_upd [OF B E1] e in \<open>simp_all add: offline_message_def\<close>)
next
  case False
  then show ?thesis using B by (auto simp: offline_message_def split: option.splits list.splits)
qed

text \<open>The delivery to the client.\<close>

lemma oi_next_id_queues: "oi_next_id D w = (w', res) \<Longrightarrow> oi_queues w' = oi_queues w"
  by (auto simp: oi_next_id_def split: prod.splits)

lemma with_packet_id_ok:
  assumes "with_packet_id X p w = (w1, res)"
  shows "oi_queues w1 = oi_queues w" and "res = Inr p1 \<Longrightarrow> pub_topic p1 = pub_topic p"
  using assms oi_next_id_queues [of "sx_deque X" w]
  by (auto simp: with_packet_id_def split: if_splits prod.splits sum.splits)

lemma keep_in_flight_ok:
  assumes L: "deque_laws (sx_deque X) view" and S: "session_ok acl view r s" and "topic_ok acl r (pub_topic p)"
    and "oi_queues w = oi_queues (ss_out_inflight s)"
  shows "session_ok acl view r (s\<lparr>ss_out_inflight := keep_in_flight X now frm p w\<rparr>)"
proof (cases "pub_qos p")
  case AtMostOnce
  have "session_ok acl view r (s\<lparr>ss_out_inflight := w\<rparr>)"
    by (rule session_ok_window [OF S order_refl]) (use session_okW [OF S] assms(4) in simp)
  then show ?thesis using AtMostOnce by (simp add: keep_in_flight_def)
qed (use push_back_ok [OF L S _ assms(4)] assms(3) in \<open>simp_all add: keep_in_flight_def oim_new_def\<close>)

lemma deliver_ok:
  assumes L: "deque_laws (sx_deque X) view" and S: "session_ok acl view r s" and D: "deliver X now expired sent s = (s', res)"
  shows "session_ok acl view r s' \<and> ss_id s' = ss_id s \<and> (res = Inr (Some p) \<longrightarrow> topic_ok acl r (pub_topic p))"
proof (cases "q_inner (ss_deliver_queue s)")
  case Nil
  then show ?thesis using S D by (auto simp: deliver_def queue_pop_def)
next
  case (Cons m ms)
  obtain frm p0 where m: "m = (frm, p0)" by fastforce
  let ?s1 = "s\<lparr>ss_deliver_queue := (ss_deliver_queue s)\<lparr>q_inner := ms\<rparr>\<rparr>"
  have S1: "session_ok acl view r ?s1" and T: "topic_ok acl r (pub_topic p0)"
    using S Cons m by (auto simp: session_ok_def)
  obtain w1 res1 where n: "with_packet_id X p0 (ss_out_inflight s) = (w1, res1)" by fastforce
  note N = with_packet_id_ok [OF n]
  have W: "session_ok acl view r (?s1\<lparr>ss_out_inflight := w1\<rparr>)"
    by (rule session_ok_window [OF S1 order_refl]) (use session_okW [OF S] N(1) in simp)
  have P: "session_ok acl view r (?s1\<lparr>ss_out_inflight := keep_in_flight X now frm p1 w1\<rparr>)" if "res1 = Inr p1" for p1
    by (rule keep_in_flight_ok [OF L S1]) (use N(1) N(2) [OF that] T in simp_all)
  have d: "deliver X now expired sent s =
      (if expired then (?s1, Inr None)
       else case res1 of
         Inl e \<Rightarrow> (?s1\<lparr>ss_out_inflight := w1\<rparr>, Inl e)
       | Inr p1 \<Rightarrow> if sent then (?s1\<lparr>ss_out_inflight := keep_in_flight X now frm p1 w1\<rparr>, Inr (Some p1))
           else (?s1\<lparr>ss_out_inflight := w1\<rparr>, Inl (OtherError ''send'')))"
    using n by (simp add: deliver_def queue_pop_def Cons m Let_def)
  show ?thesis
  proof (cases "expired \<or> \<not> sent \<or> (\<exists>e. res1 = Inl e)")
    case True
    then show ?thesis using D d S1 W by (cases res1) (auto split: if_splits)
  next
    case False
    then obtain p1 where "res1 = Inr p1" by (cases res1) auto
    then show ?thesis using D d P N(2) T False by auto
  qed
qed

lemma session_upd_ok:
  assumes B: "broker_ok acl view owner b" and "bk_peers b cid = Some e"
    and "session_ok acl view (owner cid) s" and "ss_id s = ss_id (en_s e)"
  shows "broker_ok acl view owner (b\<lparr>bk_peers := (bk_peers b)(cid \<mapsto> e\<lparr>en_s := s\<rparr>)\<rparr>)"
  using broker_ok_entry [OF assms(1,2)] assms(3,4) by (intro broker_ok_upd [OF B]) (simp add: entry_ok_def)

lemma session_ack_ok:
  assumes L: "deque_laws (sx_deque X) view" and S: "session_ok acl view r s"
  shows "session_ok acl view r (session_ack X pid s)"
proof -
  have "ran (view (oi_queues (fst (oi_remove (sx_deque X) pid (ss_out_inflight s))))) \<subseteq> ran (view (oi_queues (ss_out_inflight s)))"
    using oi_remove_view [OF L surjective_pairing, of pid "ss_out_inflight s"] by (auto simp: ran_def)
  from session_ok_window [OF S this session_okW [OF S]] show ?thesis by (simp add: session_ack_def)
qed

lemma session_received_ok:
  assumes L: "deque_laws (sx_deque X) view" and S: "session_ok acl view r s"
  shows "session_ok acl view r (session_received X pid now s)"
proof -
  let ?w = "ss_out_inflight s"
  have "\<forall>m \<in> ran (view (oi_queues (oi_update_status (sx_deque X) pid UnComplete now ?w))). topic_ok acl r (pub_topic (oim_publish m))"
  proof (cases "view (oi_queues ?w) pid")
    case (Some m)
    with session_okW [OF S] deque_lawsD(2,3) [OF L] show ?thesis
      by (auto simp: oi_update_status_def oim_update_status_def ran_def split: if_splits)
  next
    case None
    then show ?thesis using session_okW [OF S] deque_lawsD(2) [OF L] by (simp add: oi_update_status_def)
  qed
  from session_ok_window [OF S order_refl this] show ?thesis by (simp add: session_received_def)
qed

lemma session_retry_ok:
  assumes L: "deque_laws (sx_deque X) view" and B: "broker_ok acl view owner b"
  shows "broker_ok acl view owner (session_retry X now expired cid b)"
proof (cases "bk_peers b cid")
  case (Some e)
  obtain w m where w: "oi_pop_front_timeout (sx_deque X) now (ss_out_inflight (en_s e)) = (w, m)" by fastforce
  note S = entry_okD(2) [OF broker_ok_entry [OF B Some]]
  show ?thesis
  proof (cases m)
    case None
    have "ran (view (oi_queues w)) \<subseteq> ran (view (oi_queues (ss_out_inflight (en_s e))))"
      using w None deque_lawsD(8) [OF L, of "oi_queues (ss_out_inflight (en_s e))"]
      by (auto simp: oi_pop_front_timeout_def oi_pop_front_def split: if_splits prod.splits)
    from session_upd_ok [OF B Some session_ok_window [OF S this session_okW [OF S]]] show ?thesis
      using w None Some by (simp add: session_retry_def Let_def)
  next
    case (Some x)
    from oi_pop_front_timeout_due [OF L w [unfolded Some]] obtain k
      where k: "view (oi_queues (ss_out_inflight (en_s e))) k = Some x"
        "view (oi_queues w) = (view (oi_queues (ss_out_inflight (en_s e))))(k := None)" by blast
    have "ran (view (oi_queues w)) \<subseteq> ran (view (oi_queues (ss_out_inflight (en_s e))))" by (auto simp: k(2) ran_def)
    from session_upd_ok [OF B \<open>bk_peers b cid = Some e\<close> session_ok_window [OF S this session_okW [OF S]]]
    have "broker_ok acl view owner (b\<lparr>bk_peers := (bk_peers b)(cid \<mapsto> e\<lparr>en_s := (en_s e)\<lparr>ss_out_inflight := w\<rparr>\<rparr>)\<rparr>)" by simp
    moreover have "topic_ok acl (owner cid) (pub_topic (oim_publish x))" using session_okW [OF S] k(1) by (auto intro: ranI)
    ultimately show ?thesis using reforward_ok w Some \<open>bk_peers b cid = Some e\<close> by (simp add: session_retry_def Let_def)
  qed
qed (simp add: session_retry_def B)

lemma process_publish_ok:
  assumes "rules_ok acl owner" and "broker_ok acl view owner b"
  shows "broker_ok acl view owner (snd (fst (process_publish X acl' online rnd now ttl sent s p (ii, b))))"
  using assms session_publish_ok [OF assms, of X acl' online rnd now ttl s p]
  by (auto simp: process_publish_def Let_def split: qos.splits option.splits prod.splits sum.splits)

lemma session_end_ok:
  "rules_ok acl owner \<Longrightarrow> broker_ok acl view owner b \<Longrightarrow>
     broker_ok acl view owner (session_end X K online rnd now ttl flags clean delay s b)"
  by (simp add: session_end_def Let_def process_last_will_ok session_clean_ok)

end
