(* ===== verification/Rmqtt_Forwarding.thy ===== *)
theory Rmqtt_Forwarding
  imports Rmqtt_Session Msg_Store_Inv
begin

text \<open>
  What a publication and a take-over do to the broker: which channels get the message, what the store is
  given, and how the state of a session passes to the one that replaces it.
\<close>

section \<open>Forwarding\<close>

definition in_channel :: "message \<Rightarrow> string \<Rightarrow> ('c, 'd, 'w) broker \<Rightarrow> bool" where
  "in_channel m cid b \<longleftrightarrow> (\<exists>e. bk_peers b cid = Some e \<and> m \<in> set (en_tx e))"

lemma forwards_to_keeps:
  "peers cid = Some e \<Longrightarrow>
     \<exists>e'. fst (forwards_to lv frm p rels peers) cid = Some e' \<and> set (en_tx e) \<subseteq> set (en_tx e') \<and> en_closed e' = en_closed e"
proof (induction lv frm p rels peers arbitrary: e rule: forwards_to.induct)
  case (2 lv frm p tf c opts ids grp rels peers)
  show ?case
  proof (cases "Option.bind (peers c) (tx_send (Forward frm (forward_copy lv opts p)))")
    case None
    with 2 show ?thesis by (auto simp: Let_def case_prod_beta split: option.splits)
  next
    case (Some e1)
    then obtain e0 where e0: "peers c = Some e0" "tx_send (Forward frm (forward_copy lv opts p)) e0 = Some e1"
      by (auto simp: Option.bind_eq_Some_conv)
    obtain e2 where e2: "(peers(c \<mapsto> e1)) cid = Some e2" "set (en_tx e) \<subseteq> set (en_tx e2)" "en_closed e2 = en_closed e"
      using 2(4) e0 by (cases "cid = c"; force simp: tx_send_def split: if_splits)
    have "\<exists>e'. fst (forwards_to lv frm p rels (peers(c \<mapsto> e1))) cid = Some e' \<and> set (en_tx e2) \<subseteq> set (en_tx e')
        \<and> en_closed e' = en_closed e2"
      by (rule 2(3) [OF refl e0 e2(1)])
    with e2 e0 show ?thesis by (auto simp: Let_def)
  qed
qed simp

lemma forwards_to_reaches:
  "(tf, cid, opts, ids, g) \<in> set rels \<Longrightarrow> peers cid = Some e \<Longrightarrow> \<not> en_closed e \<Longrightarrow>
     \<exists>e'. fst (forwards_to lv frm p rels peers) cid = Some e' \<and> Forward frm (forward_copy lv opts p) \<in> set (en_tx e')"
proof (induction lv frm p rels peers arbitrary: e rule: forwards_to.induct)
  case (2 lv frm p tf' c opts' ids' grp rels peers)
  show ?case
  proof (cases "(tf, cid, opts, ids, g) = (tf', c, opts', ids', grp)")
    case True
    let ?e1 = "e\<lparr>en_tx := en_tx e @ [Forward frm (forward_copy lv opts p)]\<rparr>"
    from forwards_to_keeps [of "peers(cid \<mapsto> ?e1)" cid ?e1 lv frm p rels] obtain e' where
      "fst (forwards_to lv frm p rels (peers(cid \<mapsto> ?e1))) cid = Some e'" "set (en_tx ?e1) \<subseteq> set (en_tx e')" by auto
    with True 2(5,6) show ?thesis by (auto simp: Let_def tx_send_def)
  next
    case False
    then have i: "(tf, cid, opts, ids, g) \<in> set rels" using 2(4) by auto
    show ?thesis
    proof (cases "Option.bind (peers c) (tx_send (Forward frm (forward_copy lv opts' p)))")
      case None
      with 2(1,2,5,6) i show ?thesis by (auto simp: Let_def case_prod_beta split: option.splits)
    next
      case (Some e1)
      then obtain e0 where e0: "peers c = Some e0" "tx_send (Forward frm (forward_copy lv opts' p)) e0 = Some e1"
        by (auto simp: Option.bind_eq_Some_conv)
      obtain e2 where e2: "(peers(c \<mapsto> e1)) cid = Some e2" "\<not> en_closed e2"
        using 2(5,6) e0 by (cases "cid = c") (auto simp: tx_send_def split: if_splits)
      have "\<exists>e'. fst (forwards_to lv frm p rels (peers(c \<mapsto> e1))) cid = Some e'
          \<and> Forward frm (forward_copy lv opts p) \<in> set (en_tx e')"
        by (rule 2(3) [OF refl e0 i e2])
      with e0 show ?thesis by (auto simp: Let_def)
    qed
  qed
qed simp

lemma router_reaches:
  assumes inv: "router_inv r" and t: "topic_from_str s = Inr t" "topic_name t"
    and sub: "subscription r tf cid = Some (i, opts)" and el: "eligible this_id i opts" "opts_shared_group opts = None"
    and f: "topic_from_str tf = Inr f" "mqtt_match f t"
  shows "\<exists>res. router_matches online rnd this_id s r = Inr res \<and> delivers res (id_node_id i) cid"
proof -
  obtain cm where cm: "router_matches online rnd this_id s r = Inr (match_result cm)"
    and complete: "\<And>tf f rels. map_of (rtr_relations r) tf = Some rels \<Longrightarrow> topic_from_str tf = Inr f \<Longrightarrow>
      mqtt_match f t \<Longrightarrow> reached this_id rels cm"
    using router_matches_cm [OF inv t] by metis
  obtain rels where m: "map_of (rtr_relations r) tf = Some rels"
    using sub by (auto simp: subscription_def bind_eq_Some_conv)
  have "(cid, i, opts) \<in> set rels \<and> eligible this_id i opts"
    using sub el(1) subscription_rels [OF inv m] by simp
  from reachedD(1) [OF complete [OF m f] this el(2)] cm show ?thesis by (simp add: delivers_match_result)
qed

text \<open>A subscriber of this node whose channel is open.\<close>

definition subscriber :: "ident \<Rightarrow> string \<Rightarrow> string \<Rightarrow> ('c, 'd, 'w) broker \<Rightarrow> bool" where
  "subscriber this_id topic cid b \<longleftrightarrow>
     (\<exists>tf f t i opts e. subscription (bk_router b) tf cid = Some (i, opts) \<and> eligible this_id i opts
        \<and> opts_shared_group opts = None \<and> id_node_id i = bk_node_id b
        \<and> topic_from_str topic = Inr t \<and> topic_name t \<and> topic_from_str tf = Inr f \<and> mqtt_match f t
        \<and> bk_peers b cid = Some e \<and> \<not> en_closed e)"

lemma shared_forwards_reaches:
  assumes "router_inv (bk_router b)" and "subscriber (from_id frm) (pub_topic p) cid b"
  shows "\<exists>opts. in_channel (Forward frm (forward_copy (sx_less_value X) opts p)) cid
     (fst (shared_forwards X online rnd frm p b))"
proof -
  obtain tf f t i opts e where s: "subscription (bk_router b) tf cid = Some (i, opts)" "eligible (from_id frm) i opts"
    "opts_shared_group opts = None" "id_node_id i = bk_node_id b" "topic_from_str (pub_topic p) = Inr t" "topic_name t"
    "topic_from_str tf = Inr f" "mqtt_match f t" "bk_peers b cid = Some e" "\<not> en_closed e"
    using assms(2) unfolding subscriber_def by blast
  obtain res where res: "router_matches online rnd (from_id frm) (pub_topic p) (bk_router b) = Inr res"
    and "delivers res (bk_node_id b) cid"
    using router_reaches [OF assms(1) s(5,6,1,2,3,7,8)] s(4) by metis
  then obtain rels tf' opts' ids g where m: "map_of res (bk_node_id b) = Some rels" "(tf', cid, opts', ids, g) \<in> set rels"
    unfolding delivers_def by blast
  from forwards_to_reaches [where peers = "bk_peers b", OF m(2) s(9,10), of "sx_less_value X" frm p] res m(1) show ?thesis
    by (auto simp: shared_forwards_def in_channel_def case_prod_beta)
qed

text \<open>The store is given the message under a new identifier, whatever became of the forwarding.\<close>

lemma inner_forwards_peers:
  "bk_peers (inner_forwards X online rnd now frm p avail expiry b) = bk_peers (fst (shared_forwards X online rnd frm p b))"
proof -
  have *: "bk_peers (fst (shared_forwards X online rnd frm p (b\<lparr>bk_store := st\<rparr>)))
      = bk_peers (fst (shared_forwards X online rnd frm p b))" for st
    by (simp add: shared_forwards_def Let_def case_prod_beta split: option.split)
  show ?thesis
    by (cases "bk_store b"; cases avail)
       (simp_all add: inner_forwards_def Let_def case_prod_beta * split: option.split)
qed

lemma inner_forwards_channel:
  assumes "router_inv (bk_router b)" and "subscriber (from_id frm) (pub_topic p) cid b"
  shows "\<exists>q. pub_topic q = pub_topic p \<and> pub_payload q = pub_payload p
    \<and> in_channel (Forward frm q) cid (inner_forwards X online rnd now frm p avail expiry b)"
proof -
  obtain opts where "in_channel (Forward frm (forward_copy (sx_less_value X) opts p)) cid (fst (shared_forwards X online rnd frm p b))"
    using shared_forwards_reaches [OF assms] by blast
  then have "in_channel (Forward frm (forward_copy (sx_less_value X) opts p)) cid
      (inner_forwards X online rnd now frm p avail expiry b)"
    by (simp add: in_channel_def inner_forwards_peers)
  then show ?thesis by (intro exI [of _ "forward_copy (sx_less_value X) opts p"]) (simp add: forward_copy_def)
qed

lemma shared_forwards_store [simp]: "bk_store (fst (shared_forwards X online rnd frm p b)) = bk_store b"
  by (simp add: shared_forwards_def Let_def case_prod_beta split: option.split)

lemma inner_forwards_store:
  assumes "bk_store b = Some s"
  shows "\<exists>cs. bk_store (inner_forwards X online rnd now frm p True (Some ttl) b) =
     Some (store_msg (snd (next_msg_id s)) frm p ttl cs now (fst (next_msg_id s)))"
  using assms by (auto simp: inner_forwards_def Let_def case_prod_beta)

section \<open>Taking over a session\<close>

definition open_for :: "string \<Rightarrow> ('c, 'd, 'w) broker \<Rightarrow> bool" where
  "open_for cid b \<longleftrightarrow> (\<exists>e. bk_peers b cid = Some e \<and> \<not> en_closed e)"

lemma entry_send_simps [simp]:
  "bk_router (entry_send cid m b) = bk_router b"
  "open_for c (entry_send cid m b) \<longleftrightarrow> open_for c b"
  by (auto simp: entry_send_def open_for_def tx_send_def Option.bind_eq_Some_conv split: option.splits if_splits)

lemma entry_send_channel:
  "open_for cid b \<Longrightarrow> in_channel m cid (entry_send cid m b)"
  "in_channel m' c b \<Longrightarrow> in_channel m' c (entry_send cid m b)"
  by (auto simp: entry_send_def open_for_def in_channel_def tx_send_def Option.bind_eq_Some_conv
      split: option.splits if_splits)

lemma fold_keeps:
  assumes "\<And>x b. x \<in> set xs \<Longrightarrow> P (f x b) = P b"
  shows "P (fold f xs b) = P b"
  using assms by (induction xs arbitrary: b) simp_all

lemma send_storaged_simps [simp]:
  "bk_router (fst (send_storaged_messages X cid filt q now replies b)) = bk_router b"
  "open_for c (fst (send_storaged_messages X cid filt q now replies b)) = open_for c b"
proof -
  obtain b1 res where l: "message_load cid filt now replies b = (b1, res)" by fastforce
  then have 1: "bk_router b1 = bk_router b" "open_for c b1 = open_for c b"
    by (auto simp: message_load_def open_for_def split: option.splits prod.splits)
  have 2: "bk_router (fold (\<lambda>(_, frm, p). entry_publish cid frm (g p)) msgs b1) = bk_router b1"
    "open_for c (fold (\<lambda>(_, frm, p). entry_publish cid frm (g p)) msgs b1) = open_for c b1" for msgs :: "stored list" and g
    by (auto intro!: fold_keeps simp: entry_publish_def)
  show "bk_router (fst (send_storaged_messages X cid filt q now replies b)) = bk_router b"
    "open_for c (fst (send_storaged_messages X cid filt q now replies b)) = open_for c b"
    using 1 2 by (cases res; simp add: send_storaged_messages_def l)+
qed

lemma transfer_subscription_simps:
  "bk_router (transfer_subscription X K now i sub b) = fst (router_add K (fst sub) i (snd sub) (bk_router b))"
  "open_for c (transfer_subscription X K now i sub b) = open_for c b"
  by (simp_all add: transfer_subscription_def case_prod_beta Let_def) (simp add: open_for_def)

lemma transfer_subscriptions:
  assumes "\<forall>tf \<in> fst ` set subs. \<exists>f. topic_from_str tf = Inr f" and "distinct (map fst subs)"
  shows "subscription (bk_router (fold (transfer_subscription X K now i) subs b)) tf (id_client_id i) =
    (case map_of subs tf of Some opts \<Rightarrow> Some (i, opts) | None \<Rightarrow> subscription (bk_router b) tf (id_client_id i))"
  using assms
proof (induction subs arbitrary: b)
  case (Cons sub subs)
  obtain g os where sub: "sub = (g, os)" by fastforce
  obtain f where f: "topic_from_str g = Inr f" using Cons.prems(1) sub by auto
  have "map_of subs g = None" using Cons.prems(2) sub by (simp add: map_of_eq_None_iff)
  with Cons sub show ?case
    by (auto simp: transfer_subscription_simps subscription_add [OF f] split: option.splits)
qed simp

lemma extend_subscriptions_simps [simp]:
  "bk_router (extend_subscriptions cid subs b) = bk_router b"
  "open_for c (extend_subscriptions cid subs b) = open_for c b"
  by (auto simp: extend_subscriptions_def open_for_def Let_def split: option.splits)

lemma reforward_simps [simp]:
  "bk_router (reforward expired cid m b) = bk_router b"
  "open_for c (reforward expired cid m b) = open_for c b"
  by (auto simp: reforward_def entry_publish_def split: moment_status.splits)

lemma publish_all_channel:
  "open_for cid b \<Longrightarrow> (frm, p) \<in> set ms \<or> in_channel (Forward frm p) cid b \<Longrightarrow>
     in_channel (Forward frm p) cid (fold (\<lambda>(frm, p). entry_publish cid frm p) ms b)"
proof (induction ms arbitrary: b)
  case (Cons m ms)
  have "open_for cid (entry_publish cid (fst m) (snd m) b)" using Cons.prems(1) by (simp add: entry_publish_def)
  from Cons.IH [OF this] Cons.prems show ?case
    by (auto simp: entry_publish_def entry_send_channel case_prod_beta)
qed simp

text \<open>What the new session gets: the subscriptions of the old one and its queued messages.\<close>

lemma transfer_session_state_result:
  assumes "\<forall>tf \<in> fst ` set (of_subscriptions x). \<exists>f. topic_from_str tf = Inr f" and "distinct (map fst (of_subscriptions x))"
    and "open_for (id_client_id i) b"
  shows "(tf, opts) \<in> set (of_subscriptions x) \<Longrightarrow>
      subscription (bk_router (transfer_session_state X K now i False x b)) tf (id_client_id i) = Some (i, opts)"
    and "(frm, p) \<in> set (of_offline_messages x) \<Longrightarrow>
      in_channel (Forward frm p) (id_client_id i) (transfer_session_state X K now i False x b)"
proof -
  let ?cid = "id_client_id i" and ?resend = "\<lambda>m. if oim_status m \<noteq> UnComplete then reforward False (id_client_id i) m else id"
  let ?b1 = "fold (transfer_subscription X K now i) (of_subscriptions x) b"
  let ?b3 = "fold ?resend (rev (of_inflight_messages x)) (extend_subscriptions ?cid (of_subscriptions x) ?b1)"
  have T: "transfer_session_state X K now i False x b = fold (\<lambda>(frm, p). entry_publish ?cid frm p) (of_offline_messages x) ?b3"
    by (simp add: transfer_session_state_def Let_def)
  have o1: "open_for ?cid ?b1 = open_for ?cid b" by (rule fold_keeps) (rule transfer_subscription_simps)
  have o3: "open_for ?cid ?b3 = open_for ?cid (extend_subscriptions ?cid (of_subscriptions x) ?b1)" by (rule fold_keeps) simp
  have r3: "bk_router ?b3 = bk_router (extend_subscriptions ?cid (of_subscriptions x) ?b1)" by (rule fold_keeps) simp
  have r: "bk_router (fold (\<lambda>(frm, p). entry_publish ?cid frm p) (of_offline_messages x) ?b3) = bk_router ?b3"
    by (rule fold_keeps) (simp add: entry_publish_def case_prod_beta)
  show "(tf, opts) \<in> set (of_subscriptions x) \<Longrightarrow>
      subscription (bk_router (transfer_session_state X K now i False x b)) tf ?cid = Some (i, opts)"
    unfolding T r r3 using transfer_subscriptions [OF assms(1,2), of X K now i b tf] assms(2) by simp
  show "(frm, p) \<in> set (of_offline_messages x) \<Longrightarrow>
      in_channel (Forward frm p) ?cid (transfer_session_state X K now i False x b)"
    unfolding T by (rule publish_all_channel) (use o1 o3 assms(3) in simp_all)
qed

lemma handshake_takes_over:
  assumes "bk_peers b (id_client_id i) = Some e" and "client_authenticate ret = Some (su, info)"
  shows "process_message X K acl cfg now (id_client_id i) (fst (handshake X K cfg i will False ret None b)) =
    transfer_session_state X K now i False (to_offline_info X (en_s e))
      (b\<lparr>bk_peers := (bk_peers b)(id_client_id i \<mapsto>
         \<lparr>en_s = new_session X cfg i su info will, en_tx = [], en_closed = False\<rparr>)\<rparr>)"
  using assms by (simp add: handshake_def kick_def remove_entry_def Let_def process_message_def new_session_def)

section \<open>Duplicates and lost messages\<close>

text \<open>
  A message of quality of service 2 that is sent again is forwarded again before its identifier is found to be in
  use.
\<close>

lemma exactly_once_twice:
  assumes "pub_qos p = ExactlyOnce" and "pub_packet_id p = Some pid" and "pid \<in> set (ii_cached ii)"
    and "length (ii_cached ii) < ii_max_inflight ii" and "publish_acl_is_allow (publish_acl_result acl s p)"
  shows "process_publish X acl online rnd now ttl sent s p (ii, b) =
    ((ii, fst (session_publish X acl online rnd now ttl s p b)), Inl (OtherError ''PacketIdInUse''))"
  using assms
  by (simp add: process_publish_def Let_def session_publish_def ii_add_def reason_of_def
      publish_result_is_success_def publish_result_reason_code_def)

text \<open>A reply of another node that is an error loses the messages of this node: they are marked as delivered.\<close>

lemma merge_replies_fails: "Inl e \<in> set replies \<Longrightarrow> \<exists>e'. merge_replies msgs replies = Inl e'"
  by (induction msgs replies rule: merge_replies.induct) (auto split: sum.splits)

lemma message_load_loses:
  assumes "bk_store b = Some s" and "ms_inv (mst_state s)" and g: "get_msgs cid filt now s = (s', out)"
    and "Inl e \<in> set replies"
  shows "\<exists>e'. message_load cid filt now replies b = (b\<lparr>bk_store := Some s'\<rparr>, Inl e')"
    and "get_msgs cid filt' now' s' = (s'', out') \<Longrightarrow> fst ` set out \<inter> fst ` set out' = {}"
  using assms merge_replies_fails [OF assms(4), of out] get_msgs_once [OF assms(2) g]
  by (auto simp: message_load_def)

end
