(* ===== verification/Api_Login.thy ===== *)
theory Api_Login
  imports Api_Auth
begin

text \<open>
  Runs of the management API and the authentication hook. A step is one whole call of a handler,
  a cache sweep or a token refresh; the relation also carries the set of credentials that were
  checked against the user's verifier or password hash since the caches were last purged. Two
  invariants hold in every reachable state: a cached credential is one of that set, and a cached
  user record is the one in the store. The start-up snapshot is not among the steps, because it
  breaks the second invariant, as the last lemma shows. Handlers run one after the other here;
  \<open>Api_Tasks\<close> and the theories after it interleave them at their suspension points.
\<close>

section \<open>One login\<close>

text \<open>
  The checks that \<open>authenticate\<close> makes when the cache does not decide.
\<close>

definition credential_ok ::
    "'s user_store \<Rightarrow> ('p, 'h, 'j) externals \<Rightarrow> bool \<Rightarrow> 's app_state \<Rightarrow> user_record
     \<Rightarrow> string \<Rightarrow> string \<Rightarrow> bool" where
  "credential_ok U E joined st r u p \<longleftrightarrow>
     (\<exists>pepper v. st_pepper st = Some pepper \<and> us_get_verifier U u (st_db st) = Inr (Some v)
        \<and> verify_fast (ext_hmac E) pepper u p v)
     \<or> (joined \<and> verify_password (ext_argon2 E) (ur_password_hash r) p)"

lemma lookup_user_frame:
  assumes "lookup_user U t0 t1 u st = (st', res)"
  shows "st_db st' = st_db st" "st_auth_cache st' = st_auth_cache st" "st_pepper st' = st_pepper st"
    "st_acl st' = st_acl st"
  using assms by (auto simp: lookup_user_def split: option.splits sum.splits)

lemma check_verifier_result:
  assumes "check_verifier U E t r u p st = (st', okay)"
  shows "st_db st' = st_db st" "st_acl st' = st_acl st" "st_pepper st' = st_pepper st"
    "st_users st' = st_users st"
    "okay \<Longrightarrow> credential_ok U E joined st r u p"
    "st_auth_cache st' = (if okay then auth_cache_insert (auth_key (ext_sha256 E) u p)
        (ur_superuser r) t (st_auth_cache st) else st_auth_cache st)"
  using assms
  by (auto simp: check_verifier_def credential_ok_def split: option.splits sum.splits if_splits)

lemma check_hash_result:
  assumes "check_hash U E t joined r u p st = (st', okay)"
  shows "okay = (joined \<and> verify_password (ext_argon2 E) (ur_password_hash r) p)"
    "st_acl st' = st_acl st" "st_users st' = st_users st"
    "okay \<Longrightarrow> credential_ok U E joined st r u p"
    "st_auth_cache st' = (if okay then auth_cache_insert (auth_key (ext_sha256 E) u p)
        (ur_superuser r) t (st_auth_cache st) else st_auth_cache st)"
    "st_db st' = st_db st \<or> (\<exists>v. st_db st' = fst (us_set_verifier U u v (st_db st)))"
  using assms
  by (auto simp: check_hash_def credential_ok_def Let_def split: option.splits if_splits)

text \<open>
  The outcome of a login with the caches in state \<open>st\<close>, when a user record is found.
\<close>

lemma authenticate_found:
  assumes nd: "\<not> st_auth_disabled st" and c: "credentials_of ci = Some (u, p)"
    and l: "lookup_user U (clk 0) (clk 1) u st = (st1, Inr (Some r))"
    and a: "authenticate U E clk joined ci st = (st', ret)"
  shows "ret = (if auth_cache_get (auth_key (ext_sha256 E) u p) (clk 2) (st_auth_cache st) \<noteq> None
                  \<or> credential_ok U E joined st r u p
                then (False, Some (AuthResult (AuthAllow (ur_superuser r)
                        (Some (build_auth_info r (st_acl st) ci)))))
                else deny_auth)"
    and "st_users st' = st_users st1"
    and "st_db st' = st_db st \<or> (\<exists>v. st_db st' = fst (us_set_verifier U u v (st_db st)))"
    and "st_auth_cache st' = st_auth_cache st
       \<or> (\<exists>t. st_auth_cache st' = auth_cache_insert (auth_key (ext_sha256 E) u p) (ur_superuser r) t
                (st_auth_cache st) \<and> credential_ok U E joined st r u p)"
proof -
  let ?hit = "auth_cache_get (auth_key (ext_sha256 E) u p) (clk 2) (st_auth_cache st1) \<noteq> None"
  obtain sv okv where v: "check_verifier U E (clk 3) r u p st1 = (sv, okv)" by fastforce
  obtain sh okh where h: "check_hash U E (clk 4) joined r u p sv = (sh, okh)" by fastforce
  note fr = lookup_user_frame [OF l] and vr = check_verifier_result [OF v]
    and hr = check_hash_result [OF h]
  have res: "st' = (if ?hit then st1 else if okv then sv else sh)"
    "ret = (if ?hit \<or> okv \<or> okh then (False, Some (AuthResult (AuthAllow (ur_superuser r)
              (Some (build_auth_info r (st_acl st') ci))))) else deny_auth)"
    using a nd c l v h by (auto simp: authenticate_def Let_def split: if_splits)
  have ckv: "okv \<longleftrightarrow> (\<exists>pepper w. st_pepper st = Some pepper
      \<and> us_get_verifier U u (st_db st) = Inr (Some w) \<and> verify_fast (ext_hmac E) pepper u p w)"
    using v fr by (auto simp: check_verifier_def split: option.splits sum.splits if_splits)
  have ck: "credential_ok U E joined st r u p \<longleftrightarrow> okv \<or> okh"
    using ckv hr(1) by (auto simp: credential_ok_def)
  have "st_acl st' = st_acl st" using res fr vr hr by simp
  with res ck fr show "ret = (if auth_cache_get (auth_key (ext_sha256 E) u p) (clk 2) (st_auth_cache st) \<noteq> None
                  \<or> credential_ok U E joined st r u p
                then (False, Some (AuthResult (AuthAllow (ur_superuser r)
                        (Some (build_auth_info r (st_acl st) ci)))))
                else deny_auth)" by simp
  show "st_users st' = st_users st1" using res vr hr by simp
  show "st_db st' = st_db st \<or> (\<exists>v. st_db st' = fst (us_set_verifier U u v (st_db st)))"
    using res fr vr hr by auto
  show "st_auth_cache st' = st_auth_cache st
       \<or> (\<exists>t. st_auth_cache st' = auth_cache_insert (auth_key (ext_sha256 E) u p) (ur_superuser r) t
                (st_auth_cache st) \<and> credential_ok U E joined st r u p)"
    using res fr vr(6) hr(5) ck by auto
qed

lemma authenticate_not_found:
  assumes nd: "\<not> st_auth_disabled st" and "credentials_of ci = Some (u, p)"
    and "lookup_user U (clk 0) (clk 1) u st = (st1, res)" and "\<And>r. res \<noteq> Inr (Some r)"
  shows "authenticate U E clk joined ci st = (st1, case res of
     Inl _ \<Rightarrow> (False, Some (AuthResult AuthNotAuthorized)) | Inr _ \<Rightarrow> deny_auth)"
  using assms by (cases res) (auto simp: authenticate_def split: option.splits)

text \<open>
  Every outcome of a login: who is let in, and with which rights.
\<close>

lemma authenticate_allow:
  assumes "authenticate U E clk joined ci st = (st', (b, Some (AuthResult (AuthAllow su (Some info)))))"
  shows "\<exists>u p r st1. credentials_of ci = Some (u, p)
     \<and> lookup_user U (clk 0) (clk 1) u st = (st1, Inr (Some r))
     \<and> (auth_cache_get (auth_key (ext_sha256 E) u p) (clk 2) (st_auth_cache st) \<noteq> None
        \<or> credential_ok U E joined st r u p)
     \<and> su = ur_superuser r \<and> info = build_auth_info r (st_acl st) ci"
proof -
  have nd: "\<not> st_auth_disabled st" using assms by (auto simp: authenticate_def)
  then obtain u p where c: "credentials_of ci = Some (u, p)"
    using assms by (cases "credentials_of ci") (auto simp: authenticate_def deny_auth_def)
  obtain st1 res where l: "lookup_user U (clk 0) (clk 1) u st = (st1, res)" by fastforce
  show ?thesis
  proof (cases "\<exists>r. res = Inr (Some r)")
    case True
    then obtain r where "res = Inr (Some r)" by blast
    with authenticate_found(1) [OF nd c _ assms] l c show ?thesis
      by (auto simp: deny_auth_def split: if_splits)
  next
    case False
    then show ?thesis
      using authenticate_not_found [OF nd c l, of E joined] assms
      by (auto simp: deny_auth_def split: sum.splits)
  qed
qed

section \<open>Runs\<close>

text \<open>The credentials that one login adds to the checked ones.\<close>

definition checked_by ::
    "'s user_store \<Rightarrow> ('p, 'h, 'j) externals \<Rightarrow> (nat \<Rightarrow> instant) \<Rightarrow> bool \<Rightarrow> connect_info
     \<Rightarrow> 's app_state \<Rightarrow> (string \<times> string) set" where
  "checked_by U E clk joined ci st =
     (case credentials_of ci of
        None \<Rightarrow> {}
      | Some (u, p) \<Rightarrow>
          (case snd (lookup_user U (clk 0) (clk 1) u st) of
             Inr (Some r) \<Rightarrow> if credential_ok U E joined st r u p then {(u, p)} else {}
           | _ \<Rightarrow> {}))"

type_synonym 's run_state = "'s app_state \<times> (string \<times> string) set"

inductive api_step ::
    "'s user_store \<Rightarrow> ('p, 'h, 'j) externals \<Rightarrow> 's run_state \<Rightarrow> 's run_state \<Rightarrow> bool"
  for U :: "'s user_store" and E :: "('p, 'h, 'j) externals" where
  step_create: "create_user U E salt joined req st = (st', rsp, out) \<Longrightarrow> api_step U E (st, V) (st', V)"
| step_delete: "delete_user U E n st = (st', rsp, out) \<Longrightarrow>
    api_step U E (st, V) (st', if rsp_status rsp = 204 then {} else V)"
| step_replicate: "replicate_op U op st = (st', rsp) \<Longrightarrow>
    api_step U E (st, V) (st', if rsp_status rsp = 204 then {} else V)"
| step_login: "authenticate U E clk joined ci st = (st', ret) \<Longrightarrow>
    api_step U E (st, V) (st', V \<union> checked_by U E clk joined ci st)"
| step_sweep: "api_step U E (st, V) (st\<lparr>st_auth_cache := auth_cache_sweep now (st_auth_cache st),
                                   st_users := user_cache_sweep now (st_users st)\<rparr>, V)"
| step_refresh: "api_step U E (st, V) (refresh_token vget now st, V)"

inductive_cases api_stepE: "api_step U E (st, V) (st', V')"

inductive api_reach ::
    "'s user_store \<Rightarrow> ('p, 'h, 'j) externals \<Rightarrow> 's app_state \<Rightarrow> 's run_state \<Rightarrow> bool"
  for U :: "'s user_store" and E :: "('p, 'h, 'j) externals" and st0 :: "'s app_state" where
  reach_start: "api_reach U E st0 (st0, {})"
| reach_step: "api_reach U E st0 (st, V) \<Longrightarrow> api_step U E (st, V) (st', V') \<Longrightarrow> api_reach U E st0 (st', V')"

text \<open>Every cached credential was checked since the last purge.\<close>

definition cache_checked :: "('p, 'h, 'j) externals \<Rightarrow> 's run_state \<Rightarrow> bool" where
  "cache_checked E s \<longleftrightarrow>
     (\<forall>k \<in> dom (ac_map (st_auth_cache (fst s))).
        \<exists>(u, p) \<in> snd s. k = auth_key (ext_sha256 E) u p)"

lemma cache_checked_key:
  assumes "cache_checked E (st, V)" and "k \<in> dom (ac_map (st_auth_cache st))"
  shows "\<exists>(u, p) \<in> V. auth_key (ext_sha256 E) u p = k"
  using assms unfolding cache_checked_def by force

lemma dom_auth_cache_insert:
  "dom (ac_map (auth_cache_insert k b t c)) \<subseteq> insert k (dom (ac_map c))"
  by (auto simp: auth_cache_insert_def)

lemma dom_auth_cache_sweep: "dom (ac_map (auth_cache_sweep t c)) \<subseteq> dom (ac_map c)"
  by (auto simp: auth_cache_sweep_def split: option.splits)

lemma dom_auth_cache_purge [simp]: "ac_map (auth_cache_purge_user n c) = Map.empty"
  by (simp add: auth_cache_purge_user_def)

lemma auth_cache_get_dom: "auth_cache_get k t c \<noteq> None \<Longrightarrow> k \<in> dom (ac_map c)"
  by (auto simp: auth_cache_get_def split: option.splits)

lemma create_user_caches:
  assumes "create_user U E salt joined req st = (st', rsp, out)"
  shows "st_auth_cache st' = st_auth_cache st" "st_users st' = st_users st"
  using assms by (cases rule: create_user_cases; simp)+

text \<open>What a login does to the caches and the store, on every path.\<close>

lemma authenticate_effect:
  assumes a: "authenticate U E clk joined ci st = (st', ret)"
  shows "st_db st' = st_db st \<or> (\<exists>u v. st_db st' = fst (us_set_verifier U u v (st_db st)))"
    and "st_users st' = st_users st \<or>
      (\<exists>u r t. us_get_user U u (st_db st) = Inr (Some r) \<and> st_users st' = user_cache_insert u r t (st_users st))"
    and "st_auth_cache st' = st_auth_cache st \<or>
      (\<exists>u p b t. (u, p) \<in> checked_by U E clk joined ci st
         \<and> st_auth_cache st' = auth_cache_insert (auth_key (ext_sha256 E) u p) b t (st_auth_cache st))"
proof -
  have lk: "st_users st1 = st_users st \<or> (\<exists>r t. us_get_user U u (st_db st) = Inr (Some r)
      \<and> st_users st1 = user_cache_insert u r t (st_users st))"
    if "lookup_user U t0 t1 u st = (st1, res)" for t0 t1 u st1 res
    using that by (auto simp: lookup_user_def split: option.splits sum.splits)
  consider "st' = st" | u p st1 res where "\<not> st_auth_disabled st" "credentials_of ci = Some (u, p)"
      "lookup_user U (clk 0) (clk 1) u st = (st1, res)"
    using a by (cases "st_auth_disabled st"; cases "credentials_of ci")
      (auto simp: authenticate_def split: prod.splits)
  then have "(st_db st' = st_db st \<or> (\<exists>u v. st_db st' = fst (us_set_verifier U u v (st_db st))))
    \<and> (st_users st' = st_users st \<or>
      (\<exists>u r t. us_get_user U u (st_db st) = Inr (Some r) \<and> st_users st' = user_cache_insert u r t (st_users st)))
    \<and> (st_auth_cache st' = st_auth_cache st \<or>
      (\<exists>u p b t. (u, p) \<in> checked_by U E clk joined ci st
         \<and> st_auth_cache st' = auth_cache_insert (auth_key (ext_sha256 E) u p) b t (st_auth_cache st)))"
  proof cases
    case (2 u p st1 res)
    show ?thesis
    proof (cases "\<exists>r. res = Inr (Some r)")
      case True
      then obtain r where l: "lookup_user U (clk 0) (clk 1) u st = (st1, Inr (Some r))" using 2 by blast
      note f = authenticate_found(2-4) [OF 2(1,2) l a]
      have "credential_ok U E joined st r u p \<Longrightarrow> (u, p) \<in> checked_by U E clk joined ci st"
        using 2 l by (simp add: checked_by_def)
      with f lk [OF l] show ?thesis by metis
    next
      case False
      then have "st' = st1" using authenticate_not_found [OF 2, of E joined] a by auto
      then show ?thesis using lk [OF 2(3)] lookup_user_frame [OF 2(3)] by metis
    qed
  qed simp
  then show "st_db st' = st_db st \<or> (\<exists>u v. st_db st' = fst (us_set_verifier U u v (st_db st)))"
    and "st_users st' = st_users st \<or>
      (\<exists>u r t. us_get_user U u (st_db st) = Inr (Some r) \<and> st_users st' = user_cache_insert u r t (st_users st))"
    and "st_auth_cache st' = st_auth_cache st \<or>
      (\<exists>u p b t. (u, p) \<in> checked_by U E clk joined ci st
         \<and> st_auth_cache st' = auth_cache_insert (auth_key (ext_sha256 E) u p) b t (st_auth_cache st))"
    by blast+
qed

lemma cache_checked_insert:
  assumes "cache_checked E (st, V)" and "(u, p) \<in> W"
    and "st_auth_cache st' = auth_cache_insert (auth_key (ext_sha256 E) u p) b t (st_auth_cache st)"
  shows "cache_checked E (st', V \<union> W)"
  using assms dom_auth_cache_insert [of "auth_key (ext_sha256 E) u p" b t "st_auth_cache st"]
  unfolding cache_checked_def by fastforce

lemma cache_checked_mono:
  assumes "cache_checked E (st, V)"
    and "dom (ac_map (st_auth_cache st')) \<subseteq> dom (ac_map (st_auth_cache st))" and "V \<subseteq> V'"
  shows "cache_checked E (st', V')"
  using assms unfolding cache_checked_def by fastforce

lemma cache_checked_step:
  assumes "api_step U E (st, V) (st', V')" and I: "cache_checked E (st, V)"
  shows "cache_checked E (st', V')"
  using assms(1)
proof (cases rule: api_step.cases)
  case (step_create salt joined req rsp out)
  then show ?thesis
    using create_user_caches(1) [OF step_create(2)] cache_checked_mono [OF I, of st' V] by simp
next
  case (step_delete n rsp out)
  from step_delete(2) show ?thesis
    by (cases rule: delete_user_cases)
       (use step_delete(1) I in \<open>simp_all add: cache_checked_def\<close>)
next
  case (step_replicate op rsp)
  from step_replicate(2) show ?thesis
    by (cases rule: replicate_op_cases)
       (use step_replicate(1) I in \<open>simp_all add: cache_checked_def\<close>)
next
  case (step_login clk joined ci ret)
  from authenticate_effect(3) [OF step_login(2)] show ?thesis
    unfolding step_login(1)
  proof (elim disjE exE conjE)
    assume "st_auth_cache st' = st_auth_cache st"
    then show "cache_checked E (st', V \<union> checked_by U E clk joined ci st)"
      by (intro cache_checked_mono [OF I]) simp_all
  qed (rule cache_checked_insert [OF I])
next
  case (step_sweep now)
  then show ?thesis using dom_auth_cache_sweep by (intro cache_checked_mono [OF I]) auto
next
  case (step_refresh vget now)
  then show ?thesis by (intro cache_checked_mono [OF I]) auto
qed

lemma cache_checked_reach:
  assumes "api_reach U E st0 s" and "ac_map (st_auth_cache st0) = Map.empty"
  shows "cache_checked E s"
  using assms(1)
proof (induction rule: api_reach.induct)
  case reach_start
  then show ?case using assms(2) by (simp add: cache_checked_def)
next
  case (reach_step st V st' V')
  then show ?case using cache_checked_step by blast
qed

section \<open>Store and cache agree\<close>

text \<open>
  A cached record is the stored one; \<open>users\<close> reads the store as a map.
\<close>

definition coherent :: "('s \<Rightarrow> string \<Rightarrow> user_record option) \<Rightarrow> 's app_state \<Rightarrow> bool" where
  "coherent users st \<longleftrightarrow>
     (\<forall>n r e. uc_map (st_users st) n = Some (r, e) \<longrightarrow> users (st_db st) n = Some r)"

lemma uc_map_purge: "uc_map (user_cache_purge n c) = (uc_map c)(n := None)"
  by (simp add: user_cache_purge_def)

context user_store_contract
begin

lemma users_set_verifier: "inv s \<Longrightarrow> users (fst (us_set_verifier U u v s)) = users s"
  using set_verifier_ok [of s u v] set_verifier_err [of s u v]
  by (cases "us_set_verifier U u v s"; cases "snd (us_set_verifier U u v s)") auto

lemma coherent_create:
  assumes "inv (st_db st)" and "coherent users st"
    and "create_user U E salt joined req st = (st', rsp, out)"
  shows "coherent users st'"
proof (cases "rsp_status rsp = 201")
  case True
  with create_user_created [OF assms(1,3)] create_user_caches(2) [OF assms(3)] assms(2)
  show ?thesis by (fastforce simp: coherent_def)
next
  case False
  with create_user_rejected [OF assms(1,3)] create_user_caches(2) [OF assms(3)] assms(2)
  show ?thesis by (simp add: coherent_def)
qed

lemma coherent_delete:
  assumes I: "inv (st_db st)" and "coherent users st" and "delete_user U E n st = (st', rsp, out)"
  shows "coherent users st'"
  using assms(3)
proof (cases rule: delete_user_cases)
  case (deleted db1)
  then show ?thesis
    using delete_ok [OF I deleted(1)] assms(2) by (auto simp: coherent_def uc_map_purge)
next
  case (missing db1)
  then show ?thesis using delete_ok [OF I missing(1)] assms(2) by (auto simp: coherent_def)
next
  case (failed db1 e)
  then show ?thesis using delete_err [OF I failed(1)] assms(2) by (simp add: coherent_def)
qed

lemma coherent_replicate:
  assumes I: "inv (st_db st)" and "coherent users st" and "replicate_op U op st = (st', rsp)"
  shows "coherent users st'"
  using assms(3)
proof (cases rule: replicate_op_cases)
  case (upserted u db1)
  then show ?thesis
    using upsert_ok [OF I upserted(2)] assms(2) by (auto simp: coherent_def uc_map_purge)
next
  case (upsert_failed u db1 e)
  then show ?thesis using upsert_err [OF I upsert_failed(2)] assms(2) by (simp add: coherent_def)
next
  case (deleted n b db1)
  then show ?thesis
    using delete_ok [OF I deleted(2)] assms(2) by (auto simp: coherent_def uc_map_purge)
next
  case (delete_failed n db1 e)
  then show ?thesis using delete_err [OF I delete_failed(2)] assms(2) by (simp add: coherent_def)
qed

lemma coherent_login:
  assumes I: "inv (st_db st)" and C: "coherent users st"
    and A: "authenticate U E clk joined ci st = (st', ret)"
  shows "coherent users st'" and "inv (st_db st')"
proof -
  show "inv (st_db st')" using authenticate_effect(1) [OF A] I inv_set_verifier by metis
  have u: "users (st_db st') = users (st_db st)"
    using authenticate_effect(1) [OF A] users_set_verifier [OF I] by metis
  from authenticate_effect(2) [OF A] show "coherent users st'"
  proof (elim disjE exE conjE)
    fix n r t
    assume "us_get_user U n (st_db st) = Inr (Some r)"
      and i: "st_users st' = user_cache_insert n r t (st_users st)"
    then have "users (st_db st) n = Some r" using get_ok [OF I] by metis
    with i C u show "coherent users st'" by (auto simp: coherent_def user_cache_insert_def)
  qed (use u C in \<open>simp add: coherent_def\<close>)
qed

lemma coherent_step:
  assumes S: "api_step U E (st, V) (st', V')" and I: "inv (st_db st)" and C: "coherent users st"
  shows "inv (st_db st')" and "coherent users st'"
proof -
  from S have "inv (st_db st') \<and> coherent users st'"
  proof (cases rule: api_step.cases)
    case (step_create salt joined req rsp out)
    from coherent_create [OF I C this(2)] create_user_inv [OF I this(2)] show ?thesis by simp
  next
    case (step_delete n rsp out)
    from coherent_delete [OF I C this(2)] delete_user_inv [OF I this(2)] show ?thesis by simp
  next
    case (step_replicate op rsp)
    from coherent_replicate [OF I C this(2)] replicate_op_inv [OF I this(2)] show ?thesis by simp
  next
    case (step_login clk joined ci ret)
    from coherent_login [OF I C this(2)] show ?thesis by simp
  next
    case (step_sweep now)
    with I C show ?thesis
      by (auto simp: coherent_def user_cache_sweep_def split: option.splits if_splits)
  next
    case (step_refresh vget now)
    with I C show ?thesis by (simp add: coherent_def)
  qed
  then show "inv (st_db st')" and "coherent users st'" by simp_all
qed

lemma coherent_reach:
  assumes "api_reach U E st0 s" and "inv (st_db st0)" and "uc_map (st_users st0) = Map.empty"
  shows "inv (st_db (fst s)) \<and> coherent users (fst s)"
  using assms(1)
proof (induction rule: api_reach.induct)
  case reach_start
  then show ?case using assms(2,3) by (simp add: coherent_def)
next
  case (reach_step st V st' V')
  then show ?case using coherent_step by (metis fst_conv)
qed

text \<open>In a coherent state a lookup returns the stored record, from whichever side it comes.\<close>

lemma lookup_user_coherent:
  assumes "inv (st_db st)" and "coherent users st" and "lookup_user U t0 t1 n st = (st1, Inr found)"
  shows "found = users (st_db st) n"
  using assms get_ok [OF assms(1)]
  by (auto simp: lookup_user_def coherent_def user_cache_get_def
      split: option.splits sum.splits if_splits)

text \<open>
  Whoever is let in presents credentials of an existing user that were checked, now or earlier
  since the last purge, and carries that user's rights.
\<close>

lemma login_sound:
  assumes R: "api_reach U E st0 (st, V)" and S: "inv (st_db st0)" "uc_map (st_users st0) = Map.empty"
      "ac_map (st_auth_cache st0) = Map.empty"
    and A: "authenticate U E clk joined ci st = (st', (b, Some (AuthResult (AuthAllow su (Some info)))))"
  shows "\<exists>u p r. credentials_of ci = Some (u, p) \<and> users (st_db st) u = Some r
     \<and> su = ur_superuser r \<and> info = build_auth_info r (st_acl st) ci
     \<and> (credential_ok U E joined st r u p
        \<or> (\<exists>(u', p') \<in> V. auth_key (ext_sha256 E) u' p' = auth_key (ext_sha256 E) u p))"
proof -
  have I: "inv (st_db st)" "coherent users st"
    using coherent_reach [OF R S(1,2)] by simp_all
  obtain u p r st1 where *: "credentials_of ci = Some (u, p)"
    "lookup_user U (clk 0) (clk 1) u st = (st1, Inr (Some r))"
    "auth_cache_get (auth_key (ext_sha256 E) u p) (clk 2) (st_auth_cache st) \<noteq> None
        \<or> credential_ok U E joined st r u p"
    "su = ur_superuser r" "info = build_auth_info r (st_acl st) ci"
    using authenticate_allow [OF A] by blast
  have "users (st_db st) u = Some r" using lookup_user_coherent [OF I *(2)] by simp
  moreover have "credential_ok U E joined st r u p
      \<or> (\<exists>(u', p') \<in> V. auth_key (ext_sha256 E) u' p' = auth_key (ext_sha256 E) u p)"
  proof (cases "credential_ok U E joined st r u p")
    case False
    then have "auth_key (ext_sha256 E) u p \<in> dom (ac_map (st_auth_cache st))"
      using *(3) auth_cache_get_dom by blast
    from cache_checked_key [OF cache_checked_reach [OF R S(3)] this] show ?thesis by simp
  qed simp
  ultimately show ?thesis using * by blast
qed

text \<open>A deleted user is refused, whatever the password and whatever the caches held.\<close>

lemma login_after_delete:
  assumes I: "inv (st_db st)"
    and D: "delete_user U E n st = (st1, rsp, out)" "rsp_status rsp = 204"
    and "\<not> st_auth_disabled st1" and "credentials_of ci = Some (n, p)"
    and "us_get_user U n (st_db st1) = Inr found"
  shows "snd (authenticate U E clk joined ci st1) = deny_auth"
proof -
  have I1: "inv (st_db st1)" using delete_user_inv [OF I D(1)] .
  have "found = None" using get_ok [OF I1 assms(6)] delete_user_deleted [OF I D] by simp
  then have "lookup_user U (clk 0) (clk 1) n st1 = (st1, Inr None)"
    using delete_user_deleted [OF I D] assms(6) by (simp add: lookup_user_def)
  then show ?thesis using authenticate_not_found [OF assms(4,5), of U clk st1 "Inr None" E joined] by simp
qed

text \<open>
  The start-up snapshot is different: it replaces records without purging the cache, so a user
  that was looked up before is served from the old record until the entry expires.
\<close>

lemma catch_up_stale:
  assumes "inv (st_db st)" and "uc_map (st_users st) n = Some (r, e)"
    and "st_peers st = base # bases"
    and "http 0 (base @ ''/internal/users-full'') (current_token st) = Inr resp" and "is_success resp"
    and "users_json (hr_body resp) = Inr [r']" and "ur_username r' = n" and "r' \<noteq> r"
    and "us_upsert_many U [new_user_of r'] (st_db st) = (db', Inr ())"
  shows "\<not> coherent users (fst (catch_up U http users_json st))"
proof -
  have "catch_up_rounds U http users_json 0 (Suc k) st = (st\<lparr>st_db := db'\<rparr>, True)" for k
    using assms by simp
  from this [of 29] have up: "catch_up U http users_json st = (st\<lparr>st_db := db'\<rparr>, True)"
    using assms(3) by (simp add: catch_up_def)
  have "record_of (new_user_of r') = r'" by (simp add: record_of_def new_user_of_def)
  then have "users db' n = Some r'"
    using upsert_many_ok [OF assms(1,9)] assms(7) by (simp add: apply_upserts_def new_user_of_def)
  then have "coherent users (st\<lparr>st_db := db'\<rparr>) \<Longrightarrow> r' = r"
    using assms(2) by (simp add: coherent_def)
  with assms(8) show ?thesis unfolding up by auto
qed

end

end
