(* ===== verification/Auto_Subscription.thy ===== *)
theory Auto_Subscription
  imports Api_Auth
begin

text \<open>
  The automatic subscriptions of a connected user, \<open>src/fanout.rs\<close>. The lemmas show that the
  filters subscribed to are the ones that the access rules of \<open>src/api.rs\<close> are built from, that
  the build of the subscriptions does not fail for a valid user, and that the access check grants
  each of them.
\<close>

section \<open>Model\<close>

record auto_subscription =
  as_qos :: qos
  as_fanout_prefixes :: "string list"
  as_admin_prefixes :: "string list"

fun qos_try_from :: "nat \<Rightarrow> qos result" where
  "qos_try_from n =
     (if n = 0 then Inr AtMostOnce else if n = 1 then Inr AtLeastOnce
      else if n = 2 then Inr ExactlyOnce else Inl (OtherError ''qos''))"

definition auto_subscription_new :: "fanout_config \<Rightarrow> acl_config \<Rightarrow> auto_subscription" where
  "auto_subscription_new fo acl =
     \<lparr>as_qos = (case qos_try_from (min (fanout_qos fo) 2) of Inr q \<Rightarrow> q | Inl _ \<Rightarrow> AtLeastOnce),
      as_fanout_prefixes = fanout_prefixes acl, as_admin_prefixes = admin_prefixes acl\<rparr>"

definition auto_subscribe_one :: "auto_subscription \<Rightarrow> string \<Rightarrow> subscribe result" where
  "auto_subscribe_one a filt =
     subscribe_from_v5 filt
       \<lparr>cso_qos = as_qos a, cso_no_local = False, cso_retain_as_published = False,
        cso_retain_handling = AtSubscribe\<rparr> True True None"

definition auto_filters :: "auto_subscription \<Rightarrow> user_record \<Rightarrow> string list" where
  "auto_filters a r =
     [''+/'' @ ur_userid r @ ''/#''] @ map (\<lambda>p. p @ ''/#'') (as_fanout_prefixes a)
     @ (if ur_admin r then map (\<lambda>p. p @ ''/#'') (as_admin_prefixes a) else [])"

definition auto_subscribes ::
    "'s user_store \<Rightarrow> 's \<Rightarrow> auto_subscription \<Rightarrow> ident \<Rightarrow> subscribe list result" where
  "auto_subscribes U db a ident =
     (case id_username ident of
        None \<Rightarrow> Inr []
      | Some uname \<Rightarrow>
          (case us_get_user U uname db of
             Inr (Some r) \<Rightarrow> collect_results (auto_subscribe_one a) (auto_filters a r)
           | Inr None \<Rightarrow> Inr []
           | Inl e \<Rightarrow> Inr []))"

section \<open>Agreement with the access rules\<close>

lemma auto_filters_acl: "auto_filters (auto_subscription_new fo acl) r = acl_filters r acl"
  by (simp add: auto_filters_def auto_subscription_new_def acl_filters_def)

lemma as_qos_new:
  "as_qos (auto_subscription_new fo acl) =
     (if fanout_qos fo = 0 then AtMostOnce else if fanout_qos fo = 1 then AtLeastOnce else ExactlyOnce)"
  by (simp add: auto_subscription_new_def min_def)

lemma plain_first_segment:
  assumes "CHR ''$'' \<notin> set s"
  shows "hd (split_on (CHR ''/'') s) \<notin> {''$share'', ''$limit'', ''$exclusive''}"
proof -
  have "set (hd (split_on (CHR ''/'') s)) \<subseteq> set s"
    by (rule set_split_on_subset [of _ "CHR ''/''"]) simp
  with assms have "CHR ''$'' \<notin> set (hd (split_on (CHR ''/'') s))" by blast
  then show ?thesis by (metis empty_iff insert_iff list.set_intros(1))
qed

lemma auto_subscribe_one_plain:
  assumes "f \<noteq> []" and "CHR ''$'' \<notin> set f"
  shows "\<exists>sub. auto_subscribe_one a f = Inr sub \<and> sub_topic_filter sub = f
     \<and> opts_qos (sub_opts sub) = as_qos a \<and> opts_shared_group (sub_opts sub) = None"
  using parse_topic_filter_plain [OF assms(1) plain_first_segment [OF assms(2)]]
  by (simp add: auto_subscribe_one_def subscribe_from_v5_def)

lemma acl_filters_plain:
  assumes "valid_segment (ur_userid r)" and "\<forall>p \<in> user_prefixes r acl. plain p"
    and "f \<in> set (acl_filters r acl)"
  shows "f \<noteq> []" and "CHR ''$'' \<notin> set f"
  using assms(3) valid_segment_plain [OF assms(1)] assms(2)
  by (cases rule: acl_filters_cases; force simp: plain_def)+

text \<open>The filters themselves pass the check that is built from them.\<close>

lemma matches_own_prefix:
  assumes "\<forall>p \<in> set ps. level_from_str p = Inr (seg_level p)"
  shows "matches_macro match_level_str (map seg_level ps @ [MultiWildcard]) (ps @ [''#''])"
  using assms
proof (induction ps)
  case Nil
  then show ?case by (simp add: is_metadata_def)
next
  case (Cons p ps)
  then show ?case
    using parsed_match_level_str [OF parsed_seg_level, of p p] by (simp add: matches_macro_seg_level)
qed

lemma own_filter_accepted:
  assumes uid: "valid_segment (ur_userid r)" and pre: "\<forall>p \<in> user_prefixes r acl. plain p"
    and f: "f \<in> set (acl_filters r acl)"
  shows "\<exists>t. acl_topic_try_from f ci = Inr t \<and> acl_topic_is_match t f"
  using f
proof (cases rule: acl_filters_cases)
  case user
  have lv: "level_from_str (ur_userid r) = Inr (Normal (ur_userid r))"
    by (rule valid_segment_level [OF uid])
  then have "\<not> is_metadata (ur_userid r)" using level_from_str_valid [OF lv] by simp
  moreover have "split_on (CHR ''/'') f = [''+'', ur_userid r, ''#'']"
    using user topic_from_str_segments [OF topic_from_str_user [OF uid]] by simp
  ultimately show ?thesis
    using user acl_user_try_from [OF uid, of ci]
    by (simp add: acl_topic_is_match_def matches_str_def is_metadata_def)
next
  case (prefix p)
  have pl: "plain p" using prefix pre by blast
  show ?thesis
    using prefix acl_prefix_try_from [OF pl, of ci] matches_own_prefix plain_segment(1) [OF pl]
    by (auto simp: acl_topic_is_match_def matches_str_def split_on_suffix_hash)
qed

lemma collect_results_each:
  assumes "\<And>x. x \<in> set xs \<Longrightarrow> \<exists>y. f x = Inr y \<and> P x y"
  shows "\<exists>ys. collect_results f xs = Inr ys \<and> list_all2 P xs ys"
  using assms by (induction xs) fastforce+

text \<open>
  For a known, valid user the automatic subscription succeeds, subscribes to exactly the user's
  filters, and the access check of a non-superuser's session grants each one.
\<close>

lemma auto_subscribes_granted:
  assumes g: "us_get_user U n db = Inr (Some r)" and "id_username ident = Some n"
    and uid: "valid_segment (ur_userid r)" and pre: "\<forall>p \<in> user_prefixes r acl. plain p"
    and "acl_enabled acl" and ns: "\<not> ur_superuser r"
  shows "\<exists>subs. auto_subscribes U db (auto_subscription_new fo acl) ident = Inr subs
     \<and> map sub_topic_filter subs = acl_filters r acl
     \<and> (\<forall>sub \<in> set subs. subscribe_check_acl acl (Some (build_auth_info r acl ci)) sub
          = (False, Some (SubscribeAclResult (sub_new_success (opts_qos (sub_opts sub)) None))))"
proof -
  let ?a = "auto_subscription_new fo acl"
  have "\<exists>subs. collect_results (auto_subscribe_one ?a) (acl_filters r acl) = Inr subs
      \<and> list_all2 (\<lambda>f sub. sub_topic_filter sub = f) (acl_filters r acl) subs"
    by (rule collect_results_each)
       (use auto_subscribe_one_plain acl_filters_plain [OF uid pre] in blast)
  then obtain subs where c: "collect_results (auto_subscribe_one ?a) (acl_filters r acl) = Inr subs"
    and l: "list_all2 (\<lambda>f sub. sub_topic_filter sub = f) (acl_filters r acl) subs" by blast
  have m: "map sub_topic_filter subs = acl_filters r acl"
    using l by (induction rule: list_all2_induct) simp_all
  have "\<forall>sub \<in> set subs. sub_topic_filter sub \<in> set (acl_filters r acl)"
    using m by (metis image_eqI set_map)
  then have "\<exists>f \<in> set (acl_filters r acl). \<exists>t. acl_topic_try_from f ci = Inr t
      \<and> acl_topic_is_match t (sub_topic_filter sub)" if "sub \<in> set subs" for sub
    using that own_filter_accepted [OF uid pre] by blast
  then have "\<forall>sub \<in> set subs. subscribe_check_acl acl (Some (build_auth_info r acl ci)) sub
          = (False, Some (SubscribeAclResult (sub_new_success (opts_qos (sub_opts sub)) None)))"
    unfolding subscribe_check_build [OF assms(5) ns] by simp
  with c m g assms(2) show ?thesis by (auto simp: auto_subscribes_def auto_filters_acl)
qed

end
