(* ===== verification/Startup.thy ===== *)
theory Startup
  imports Api_Login Auto_Subscription Msg_Store
begin

text \<open>
  The start-up sequence of \<open>src/main.rs\<close>: how the configuration, the environment and the vault
  determine the state of the API, the peers of the cluster, the settings of the cluster plugin
  and of the listeners, and the retry loop of the cluster registration. Sockets, signal handlers,
  timers and the file system are not modelled; the random bytes of a generated token, the answers
  of the vault and the outcomes of the registration attempts are arguments.
\<close>

section \<open>Model\<close>

subsection \<open>Formatting\<close>

fun nat_string :: "nat \<Rightarrow> string" where
  "nat_string n =
     (if n < 10 then [char_of (48 + n)] else nat_string (n div 10) @ [char_of (48 + n mod 10)])"

declare nat_string.simps [simp del]

definition hex_digit :: "nat \<Rightarrow> char" where
  "hex_digit n = (if n < 10 then char_of (48 + n) else char_of (87 + n))"

definition hex_byte :: "u8 \<Rightarrow> string" where
  "hex_byte b = [hex_digit (unat b div 16), hex_digit (unat b mod 16)]"

text \<open>\<open>random_token\<close>: \<open>buf\<close> holds the 24 random bytes.\<close>

definition random_token :: "bytes \<Rightarrow> string" where
  "random_token buf = concat (map hex_byte buf)"

definition toml_string_array :: "string list \<Rightarrow> string" where
  "toml_string_array items =
     ''['' @ join '', '' (map (\<lambda>s. CHR 0x22 # s @ [CHR 0x22]) items) @ '']''"

subsection \<open>Environment\<close>

definition env_u64 :: "env \<Rightarrow> string \<Rightarrow> nat option" where
  "env_u64 env key = Option.bind (env key) (parse_uint (2 ^ 64 - 1))"

definition auth_cache_ttl :: "env \<Rightarrow> duration" where
  "auth_cache_ttl env = secs (case env_u64 env ''AUTH_CACHE_TTL_SECS'' of None \<Rightarrow> 300 | Some n \<Rightarrow> n)"

text \<open>\<open>parallelism\<close> is the outcome of \<open>available_parallelism\<close>.\<close>

definition hash_concurrency :: "env \<Rightarrow> nat option \<Rightarrow> nat" where
  "hash_concurrency env parallelism =
     (case env_u64 env ''AUTH_HASH_CONCURRENCY'' of
        Some n \<Rightarrow> if n > 0 then n else (case parallelism of Some k \<Rightarrow> k | None \<Rightarrow> 4)
      | None \<Rightarrow> (case parallelism of Some k \<Rightarrow> k | None \<Rightarrow> 4))"

definition ascii_lower :: "char \<Rightarrow> char" where
  "ascii_lower c =
     (let n = of_char c :: nat in if 65 \<le> n \<and> n \<le> 90 then char_of (n + 32) else c)"

definition eq_ignore_ascii_case :: "string \<Rightarrow> string \<Rightarrow> bool" where
  "eq_ignore_ascii_case a b \<longleftrightarrow> map ascii_lower a = map ascii_lower b"

definition auth_disabled :: "env \<Rightarrow> bool" where
  "auth_disabled env =
     (case env ''AUTH_DISABLED'' of
        Some v \<Rightarrow> v = ''1'' \<or> eq_ignore_ascii_case v ''true''
      | None \<Rightarrow> False)"

definition env_pepper :: "env \<Rightarrow> bytes option" where
  "env_pepper env =
     (case env ''AUTH_PEPPER'' of
        Some s \<Rightarrow> if s = [] then None else Some (as_bytes s)
      | None \<Rightarrow> None)"

subsection \<open>Peers\<close>

definition peer_url :: "u64 \<Rightarrow> nat \<Rightarrow> string \<Rightarrow> string option" where
  "peer_url my_id api_port entry =
     (case split_once (CHR ''@'') entry of
        None \<Rightarrow> None
      | Some (ident, hostport) \<Rightarrow>
          (case u64_parse ident of
             None \<Rightarrow> None
           | Some n \<Rightarrow>
               if n = my_id then None
               else Some (''http://'' @ hd (split_on (CHR '':'') hostport) @ '':'' @ nat_string api_port)))"

definition peers_of :: "config \<Rightarrow> string list" where
  "peers_of cfg =
     List.map_filter (peer_url (cluster_node_id (cfg_cluster cfg)) (sa_port (api_addr (cfg_api cfg))))
       (node_grpc_addrs (cfg_cluster cfg))"

subsection \<open>Secrets\<close>

definition config_token :: "bytes \<Rightarrow> config \<Rightarrow> string" where
  "config_token rnd cfg = (case api_token (cfg_api cfg) of Some t \<Rightarrow> t | None \<Rightarrow> random_token rnd)"

definition startup_token ::
    "(vault_client \<Rightarrow> string \<Rightarrow> string option result) \<Rightarrow> vault_client option \<Rightarrow> bytes \<Rightarrow> config \<Rightarrow> string" where
  "startup_token vget vault rnd cfg =
     (let token = config_token rnd cfg
      in case vault of
           None \<Rightarrow> token
         | Some v \<Rightarrow>
             (case vget v ''ciqada/api-token'' of
                Inr (Some t) \<Rightarrow> t
              | Inr None \<Rightarrow> token
              | Inl _ \<Rightarrow> token))"

definition startup_pepper ::
    "(vault_client \<Rightarrow> string \<Rightarrow> string option result) \<Rightarrow> vault_client option \<Rightarrow> env \<Rightarrow> bytes option" where
  "startup_pepper vget vault env =
     (case vault of
        None \<Rightarrow> env_pepper env
      | Some v \<Rightarrow>
          (case vget v ''ciqada/pepper'' of
             Inr (Some p) \<Rightarrow> Some (as_bytes p)
           | Inr None \<Rightarrow> env_pepper env
           | Inl _ \<Rightarrow> env_pepper env))"

definition startup_state ::
    "(vault_client \<Rightarrow> string \<Rightarrow> string option result) \<Rightarrow> env \<Rightarrow> bytes \<Rightarrow> config \<Rightarrow> 's \<Rightarrow> 's app_state" where
  "startup_state vget env rnd cfg db =
     (let vault = vault_from_env env in
      \<lparr>st_db = db,
       st_token = \<lparr>tp_current = startup_token vget vault rnd cfg, tp_previous = None,
                   tp_refreshed_at = None\<rparr>,
       st_acl = cfg_acl cfg,
       st_auth_cache = auth_cache_new (auth_cache_ttl env),
       st_users = user_cache_new (auth_cache_ttl env),
       st_peers = peers_of cfg,
       st_auth_disabled = auth_disabled env,
       st_pepper = startup_pepper vget vault env,
       st_vault = vault,
       st_cluster = cfg_cluster cfg\<rparr>)"

subsection \<open>Cluster and listeners\<close>

definition raft_worker_threads :: "env \<Rightarrow> nat" where
  "raft_worker_threads env =
     (case env_u64 env ''RAFT_WORKER_THREADS'' of
        Some n \<Rightarrow> if n > 0 then n else 6
      | None \<Rightarrow> 6)"

definition cluster_raft_plugin_config :: "env \<Rightarrow> cluster_config \<Rightarrow> string" where
  "cluster_raft_plugin_config env c =
     (let nl = [CHR 0x0A]; q = [CHR 0x22] in
      nl @ ''worker_threads = '' @ nat_string (raft_worker_threads env)
      @ nl @ ''message_type = 198''
      @ nl @ ''node_grpc_addrs = '' @ toml_string_array (node_grpc_addrs c)
      @ nl @ ''raft_peer_addrs = '' @ toml_string_array (raft_peer_addrs c)
      @ nl @ ''laddr = '' @ q @ raft_laddr c @ q
      @ nl @ ''leader_id = '' @ nat_string (unat (leader_id c))
      @ nl @ ''verify_addr = true''
      @ nl @ ''try_lock_timeout = '' @ q @ ''3s'' @ q
      @ nl @ ''health.exit_on_node_unavailable = false''
      @ nl @ ''raft.check_quorum = true''
      @ nl @ ''raft.pre_vote = true''
      @ nl @ ''raft.election_tick = 30''
      @ nl @ ''raft.heartbeat_tick = 3''
      @ nl @ ''raft.proposal_batch_size = 250''
      @ nl @ ''raft.proposal_batch_timeout = '' @ q @ ''20ms'' @ q
      @ nl @ ''raft.grpc_breaker_threshold = 50''
      @ nl @ ''raft.grpc_breaker_retry_interval = '' @ q @ ''500ms'' @ q
      @ nl)"

text \<open>
  The registration loop: \<open>outcome i\<close> is the result of the \<open>i\<close>-th call of \<open>register\<close>. The value
  is the number of calls made and the result of the last one.
\<close>

function register_loop ::
    "(nat \<Rightarrow> unit result) \<Rightarrow> nat \<Rightarrow> nat \<Rightarrow> nat \<times> unit result" where
  "register_loop outcome max_retries attempt =
     (case outcome attempt of
        Inr _ \<Rightarrow> (attempt + 1, Inr ())
      | Inl e \<Rightarrow>
          if attempt < max_retries then register_loop outcome max_retries (attempt + 1)
          else (attempt + 1, Inl e))"
  by pat_completeness auto

termination
  by (relation "measure (\<lambda>(_, m, a). m - a)") auto

declare register_loop.simps [simp del]

definition flush_secs :: "env \<Rightarrow> nat" where
  "flush_secs env = (case env_u64 env ''MSG_FLUSH_SECS'' of None \<Rightarrow> 5 | Some n \<Rightarrow> n)"

record listener_config =
  lis_name :: string
  lis_addr :: socket_addr
  lis_allow_anonymous :: bool
  lis_nodelay :: bool
  lis_expiry :: duration
  lis_max_mqueue_len :: nat
  lis_max_inflight :: nat

text \<open>\<open>NonZeroU16::new(n).unwrap_or(NonZeroU16::MAX)\<close>.\<close>

definition nonzero_u16_or_max :: "nat \<Rightarrow> nat" where
  "nonzero_u16_or_max n = (if n = 0 then 65535 else n)"

definition listeners :: "config \<Rightarrow> listener_config list" where
  "listeners cfg =
     (let m = cfg_mqtt cfg;
          lis = (\<lambda>nm addr. \<lparr>lis_name = nm, lis_addr = addr, lis_allow_anonymous = False,
                   lis_nodelay = True, lis_expiry = secs (message_expiry_secs m),
                   lis_max_mqueue_len = mqtt_max_mqueue_len m,
                   lis_max_inflight = nonzero_u16_or_max (mqtt_max_inflight m)\<rparr>)
      in [lis ''external/tcp'' (tcp_addr m), lis ''external/ws'' (ws_addr m)])"

subsection \<open>The message store\<close>

text \<open>
  \<open>Path::parent\<close> and \<open>Path::join\<close> on Unix: empty and \<open>.\<close> components count only at the front of a
  path; a root or an empty path has no parent.
\<close>

definition drop_idle :: "string list \<Rightarrow> string list" where
  "drop_idle segs = rev (dropWhile (\<lambda>s. s = [] \<or> s = ''.'') (rev segs))"

definition path_parent :: "string \<Rightarrow> string option" where
  "path_parent p =
     (let segs = split_on (CHR ''/'') p;
          rooted = (p \<noteq> [] \<and> hd segs = []);
          front = (if rooted \<or> hd segs = ''.'' then [hd segs] else []);
          body = drop_idle (drop (length front) segs)
      in if body = [] then (if front = [''.''] then Some [] else None)
         else let rest = drop_idle (butlast body)
              in Some (if rooted \<and> rest = [] then ''/'' else join ''/'' (front @ rest)))"

definition path_join :: "string \<Rightarrow> string \<Rightarrow> string" where
  "path_join d file = (if d = [] \<or> last d = CHR ''/'' then d @ file else d @ ''/'' @ file)"

definition messages_path :: "string \<Rightarrow> string" where
  "messages_path path =
     (case path_parent path of
        Some d \<Rightarrow> path_join d ''messages.redb''
      | None \<Rightarrow> ''messages.redb'')"

text \<open>
  The message store and, when it is written to disk, the period of the flush: \<open>open_store\<close> is
  \<open>RedbMessageStore::open\<close>, whose failure is logged and leaves the broker without persistence.
\<close>

definition message_store_setup ::
    "env \<Rightarrow> (string \<Rightarrow> u64 \<Rightarrow> 'm result) \<Rightarrow> config \<Rightarrow> ('m \<times> nat option) option" where
  "message_store_setup env open_store cfg =
     (if \<not> persist_messages (cfg_mqtt cfg) then None
      else case strip_prefix ''redb://'' (db_url (cfg_db cfg)) of
        None \<Rightarrow> None
      | Some path \<Rightarrow>
          (case open_store (messages_path path) (cluster_node_id (cfg_cluster cfg)) of
             Inr store \<Rightarrow> Some (store, if flush_secs env > 0 then Some (flush_secs env) else None)
           | Inl _ \<Rightarrow> None))"

subsection \<open>The sequence\<close>

text \<open>What the start-up hands to the broker; \<open>bt_calls\<close> counts the registration attempts.\<close>

record 'm boot =
  bt_node_id :: u64
  bt_busy_check :: bool
  bt_plugins :: "(string \<times> string) list"
  bt_grpc :: "socket_addr option"
  bt_calls :: nat
  bt_auto_subscription :: "auto_subscription option"
  bt_messages :: "('m \<times> nat option) option"
  bt_listeners :: "listener_config list"

definition boot ::
    "env \<Rightarrow> (nat \<Rightarrow> unit result) \<Rightarrow> (string \<Rightarrow> u64 \<Rightarrow> 'm result) \<Rightarrow> config \<Rightarrow> 'm boot result" where
  "boot env outcome open_store cfg =
     (let c = cfg_cluster cfg;
          (calls, registered) =
            (if cluster_enabled c then register_loop outcome (join_max_retries c) 0 else (0, Inr ()))
      in rbind registered (\<lambda>_. Inr
           \<lparr>bt_node_id = cluster_node_id c, bt_busy_check = busy_check (cfg_mqtt cfg),
            bt_plugins = (if cluster_enabled c
                          then [(''rmqtt-cluster-raft'', cluster_raft_plugin_config env c)] else []),
            bt_grpc = (if cluster_enabled c then Some (grpc_laddr c) else None),
            bt_calls = calls,
            bt_auto_subscription =
              (if auto_subscribe (cfg_fanout cfg)
               then Some (auto_subscription_new (cfg_fanout cfg) (cfg_acl cfg)) else None),
            bt_messages = message_store_setup env open_store cfg,
            bt_listeners = listeners cfg\<rparr>))"

text \<open>The flush at a shutdown signal, when the store is written to disk at all.\<close>

definition shutdown ::
    "(u64, 'd) redb \<Rightarrow> (stored_msg \<Rightarrow> bytes result) \<Rightarrow> int \<Rightarrow> 'd msg_store boot \<Rightarrow> 'd msg_store option" where
  "shutdown R enc now b =
     (case bt_messages b of
        Some (store, Some _) \<Rightarrow> Some (fst (flush R enc now store))
      | Some (store, None) \<Rightarrow> Some store
      | None \<Rightarrow> None)"

section \<open>Lemmas\<close>

lemma length_hex_byte [simp]: "length (hex_byte b) = 2"
  by (simp add: hex_byte_def)

lemma length_random_token: "length (random_token buf) = 2 * length buf"
  by (induction buf) (simp_all add: random_token_def)

lemma of_char_char_of_small: "n < 256 \<Longrightarrow> (of_char (char_of n) :: nat) = n"
  by (simp add: of_char_of)

lemma hex_digit_inj: "m < 16 \<Longrightarrow> n < 16 \<Longrightarrow> hex_digit m = hex_digit n \<Longrightarrow> m = n"
  by (auto simp: hex_digit_def dest!: arg_cong [where f = "of_char :: char \<Rightarrow> nat"] split: if_splits)

lemma hex_byte_inj: "hex_byte a = hex_byte b \<Longrightarrow> a = b"
proof -
  assume "hex_byte a = hex_byte b"
  then have "hex_digit (unat a div 16) = hex_digit (unat b div 16)"
    and "hex_digit (unat a mod 16) = hex_digit (unat b mod 16)" by (simp_all add: hex_byte_def)
  moreover have "unat x div 16 < 16" for x :: u8
    using unsigned_less [of x, where ?'a = nat] by simp
  ultimately have "unat a div 16 = unat b div 16" and "unat a mod 16 = unat b mod 16"
    by (auto intro!: hex_digit_inj)
  then have "unat a = unat b" by (metis div_mult_mod_eq)
  then show "a = b" by (rule unsigned_word_eqI)
qed

text \<open>No randomness is lost: two tokens agree only if the random bytes do.\<close>

lemma random_token_inj: "random_token a = random_token b \<Longrightarrow> a = b"
proof (induction a arbitrary: b)
  case Nil
  then show ?case by (cases b) (simp_all add: random_token_def hex_byte_def)
next
  case (Cons x xs)
  from Cons.prems obtain y ys where b: "b = y # ys"
    by (cases b) (simp_all add: random_token_def hex_byte_def)
  with Cons.prems have "hex_byte x = hex_byte y \<and> random_token xs = random_token ys"
    by (simp add: random_token_def append_eq_append_conv)
  with Cons.IH hex_byte_inj b show ?case by blast
qed

text \<open>A node is not its own peer.\<close>

lemma peers_of_other:
  assumes "url \<in> set (peers_of cfg)"
  shows "\<exists>entry \<in> set (node_grpc_addrs (cfg_cluster cfg)). \<exists>ident hostport n.
     split_once (CHR ''@'') entry = Some (ident, hostport) \<and> u64_parse ident = Some n
     \<and> n \<noteq> cluster_node_id (cfg_cluster cfg)
     \<and> url = ''http://'' @ hd (split_on (CHR '':'') hostport) @ '':''
              @ nat_string (sa_port (api_addr (cfg_api cfg)))"
  using assms
  by (fastforce simp: peers_of_def peer_url_def List.map_filter_def
      split: option.splits if_splits)

text \<open>The registration loop stops at the first success or after the last permitted retry.\<close>

lemma register_loop_result:
  assumes "register_loop outcome m a = (n, res)" and "a \<le> m"
  shows "a < n \<and> n \<le> m + 1 \<and> (\<forall>i. a \<le> i \<and> i < n - 1 \<longrightarrow> (\<exists>e. outcome i = Inl e))
     \<and> (case res of Inr _ \<Rightarrow> (\<exists>u. outcome (n - 1) = Inr u)
         | Inl e \<Rightarrow> outcome (n - 1) = Inl e \<and> n = m + 1)"
  using assms
proof (induction outcome m a rule: register_loop.induct)
  case (1 outcome m a)
  show ?case
  proof (cases "outcome a")
    case (Inr u)
    then have "n = a + 1 \<and> res = Inr ()" using 1(2) by (simp add: register_loop.simps [of outcome m a])
    then show ?thesis using 1(3) Inr by auto
  next
    case (Inl e)
    show ?thesis
    proof (cases "a < m")
      case True
      then have "register_loop outcome m (a + 1) = (n, res)"
        using 1(2) Inl by (simp add: register_loop.simps [of outcome m a])
      from 1(1) [OF Inl True this] True Inl show ?thesis
        by (auto split: sum.splits) (metis Suc_leI le_neq_implies_less)+
    next
      case False
      then have "n = a + 1 \<and> res = Inl e"
        using 1(2) Inl by (simp add: register_loop.simps [of outcome m a])
      then show ?thesis using 1(3) False Inl by auto
    qed
  qed
qed

text \<open>The state at start satisfies the invariants of the API.\<close>

lemma startup_state_empty:
  "uc_map (st_users (startup_state vget env rnd cfg db)) = Map.empty"
  "ac_map (st_auth_cache (startup_state vget env rnd cfg db)) = Map.empty"
  "st_db (startup_state vget env rnd cfg db) = db"
  by (simp_all add: startup_state_def Let_def user_cache_new_def auth_cache_new_def)

lemma listeners_no_anonymous:
  "l \<in> set (listeners cfg) \<Longrightarrow> \<not> lis_allow_anonymous l \<and> 0 < lis_max_inflight l"
  by (auto simp: listeners_def Let_def nonzero_u16_or_max_def)

text \<open>The loop, seen from its first call.\<close>

lemma register_loop_first:
  assumes "register_loop outcome m 0 = (n, res)"
  shows "0 < n \<and> n \<le> m + 1 \<and> (\<forall>i < n - 1. outcome i \<noteq> Inr ())
     \<and> (res = Inr () \<longleftrightarrow> outcome (n - 1) = Inr ())
     \<and> (res = Inr () \<longleftrightarrow> (\<exists>i \<le> m. outcome i = Inr ()))"
proof -
  note b = register_loop_result [OF assms le0]
  have calls: "\<forall>i < n - 1. outcome i \<noteq> Inr ()" using b by fastforce
  show ?thesis
  proof (cases res)
    case (Inl e)
    then have "outcome i \<noteq> Inr ()" if "i \<le> m" for i
      using b calls that by (cases "i = n - 1") auto
    then show ?thesis using Inl b calls by auto
  next
    case (Inr u)
    then have "outcome (n - 1) = Inr ()" "n - 1 \<le> m" using b by auto
    then show ?thesis using Inr b calls by auto
  qed
qed

lemma message_store_setup_Some:
  "message_store_setup env open_store cfg = Some (store, period) \<longleftrightarrow>
     persist_messages (cfg_mqtt cfg)
     \<and> (\<exists>path. db_url (cfg_db cfg) = ''redb://'' @ path
          \<and> open_store (messages_path path) (cluster_node_id (cfg_cluster cfg)) = Inr store)
     \<and> period = (if flush_secs env > 0 then Some (flush_secs env) else None)"
  by (auto simp: message_store_setup_def strip_prefix_eq [of "''redb://''", simplified]
      split: option.splits sum.splits)

end
