(* ===== verification/Server_Main.thy ===== *)
theory Server_Main
  imports Startup
begin

text \<open>
  The function \<open>main\<close> of \<open>src/main.rs\<close> as a whole: the order in which it reads the configuration,
  opens the database, spawns its tasks, binds its sockets and registers the hooks, where it gives
  up, and how the process ends. What lies outside the program is a record of functions; what \<open>main\<close>
  does to the outside is a list of events.
\<close>

section \<open>Model\<close>

record ('s, 'm) world =
  w_args :: "string list"
  w_fs :: "string \<Rightarrow> string result option"
  w_toml :: "string \<Rightarrow> config result"
  w_env :: env
  w_open_db :: "string \<Rightarrow> 's result"
  w_parallelism :: "nat option"
  w_vget :: "vault_client \<Rightarrow> string \<Rightarrow> string option result"
  w_random :: bytes
  w_bind :: "socket_addr \<Rightarrow> unit result"
  w_register :: "nat \<Rightarrow> unit result"
  w_open_store :: "string \<Rightarrow> u64 \<Rightarrow> 'm result"
  w_listen :: "listener_config \<Rightarrow> unit result"

datatype main_task =
    SweepCaches
  | CatchUp
  | ServeApi socket_addr
  | FlushEvery nat
  | ExitAfter nat

datatype main_event =
    Spawned main_task
  | ApiBound socket_addr
  | ContextBuilt u64
  | HooksRegistered "(hook_type \<times> auth_handler) list"
  | GrpcStarted socket_addr
  | RegisterCalled nat
  | AutoSubscriptionSet
  | MessageStoreSet
  | ListenerBound listener_config
  | ServerRunning

definition cfg_path :: "string list \<Rightarrow> string" where
  "cfg_path args = (case args of _ # p # _ \<Rightarrow> p | _ \<Rightarrow> ''config.toml'')"

definition profile_secs :: "env \<Rightarrow> nat option" where
  "profile_secs env = env_u64 env ''PROFILE_SECS''"

text \<open>\<open>db::open\<close>: \<open>open_store\<close> is \<open>RedbStore::open\<close>.\<close>

definition db_open :: "(string \<Rightarrow> 's result) \<Rightarrow> string \<Rightarrow> 's result" where
  "db_open open_store url = rbind (db_open_path url) open_store"

text \<open>The two listeners are bound one after the other; the first failure ends \<open>main\<close>.\<close>

fun listen_all :: "(listener_config \<Rightarrow> unit result) \<Rightarrow> listener_config list \<Rightarrow> main_event list \<times> unit result" where
  "listen_all listen [] = ([], Inr ())"
| "listen_all listen (l # ls) =
     (case listen l of
        Inl e \<Rightarrow> ([], Inl e)
      | Inr _ \<Rightarrow> (case listen_all listen ls of (evs, res) \<Rightarrow> (ListenerBound l # evs, res)))"

text \<open>The events of setting up the broker, once the cluster has admitted the node.\<close>

definition broker_events :: "env \<Rightarrow> 'm boot \<Rightarrow> main_event list" where
  "broker_events env b =
     (if bt_auto_subscription b = None then [] else [AutoSubscriptionSet])
     @ (case bt_messages b of
          None \<Rightarrow> []
        | Some (_, None) \<Rightarrow> [MessageStoreSet]
        | Some (_, Some n) \<Rightarrow> [Spawned (FlushEvery n), MessageStoreSet])
     @ (case profile_secs env of None \<Rightarrow> [] | Some n \<Rightarrow> [Spawned (ExitAfter n)])"

definition register_events :: "(nat \<Rightarrow> unit result) \<Rightarrow> cluster_config \<Rightarrow> main_event list" where
  "register_events outcome c =
     (if cluster_enabled c
      then GrpcStarted (grpc_laddr c)
           # map RegisterCalled [0 ..< fst (register_loop outcome (join_max_retries c) 0)]
      else [])"

record ('s, 'm) started =
  sd_state :: "'s app_state"
  sd_hash_permits :: nat
  sd_boot :: "'m boot"

definition server_main :: "('s, 'm) world \<Rightarrow> main_event list \<times> ('s, 'm) started result" where
  "server_main W =
     (let env = w_env W in
      case config_load (w_fs W) (w_toml W) env (cfg_path (w_args W)) of
        Inl e \<Rightarrow> ([], Inl e)
      | Inr cfg \<Rightarrow>
          (case db_open (w_open_db W) (db_url (cfg_db cfg)) of
             Inl e \<Rightarrow> ([], Inl e)
           | Inr db \<Rightarrow>
               let st = startup_state (w_vget W) env (w_random W) cfg db;
                   permits = hash_concurrency env (w_parallelism W);
                   addr = api_addr (cfg_api cfg);
                   tasks = [Spawned SweepCaches, Spawned CatchUp]
               in case w_bind W addr of
                    Inl e \<Rightarrow> (tasks, Inl e)
                  | Inr _ \<Rightarrow>
                      let c = cfg_cluster cfg;
                          ready = tasks @ [ApiBound addr, Spawned (ServeApi addr),
                                           ContextBuilt (cluster_node_id c), HooksRegistered register_auth_hooks]
                                  @ register_events (w_register W) c
                      in case boot env (w_register W) (w_open_store W) cfg of
                           Inl e \<Rightarrow> (ready, Inl e)
                         | Inr b \<Rightarrow>
                             (case listen_all (w_listen W) (bt_listeners b) of
                                (evs, Inl e) \<Rightarrow> (ready @ broker_events env b @ evs, Inl e)
                              | (evs, Inr _) \<Rightarrow>
                                  (ready @ broker_events env b @ evs @ [ServerRunning],
                                   Inr \<lparr>sd_state = st, sd_hash_permits = permits, sd_boot = b\<rparr>))))"

text \<open>
  How the process ends: the server returns, a signal arrives, or the timer of \<open>PROFILE_SECS\<close> calls
  \<open>exit\<close>. The value is the message store as it is left behind and the result of \<open>main\<close>.
\<close>

datatype ending = ServerReturned "unit result" | SignalReceived | ProfileTimer

definition server_end ::
    "(u64, 'd) redb \<Rightarrow> (stored_msg \<Rightarrow> bytes result) \<Rightarrow> int \<Rightarrow> ending \<Rightarrow> 'd msg_store boot
     \<Rightarrow> 'd msg_store option \<times> unit result" where
  "server_end R enc now en b =
     (case en of
        ServerReturned res \<Rightarrow> (map_option fst (bt_messages b), res)
      | SignalReceived \<Rightarrow> (shutdown R enc now b, Inr ())
      | ProfileTimer \<Rightarrow> (map_option fst (bt_messages b), Inr ()))"

section \<open>Lemmas\<close>

text \<open>Events through which a client or another node can reach the broker.\<close>

definition exposing :: "main_event \<Rightarrow> bool" where
  "exposing e \<longleftrightarrow> (\<exists>a. e = GrpcStarted a) \<or> (\<exists>l. e = ListenerBound l) \<or> e = ServerRunning"

text \<open>In a list of events nothing is exposed before the given event.\<close>

definition guarded :: "main_event \<Rightarrow> main_event list \<Rightarrow> bool" where
  "guarded g evs \<longleftrightarrow> (\<forall>pre e post. evs = pre @ e # post \<and> exposing e \<longrightarrow> g \<in> set pre)"

lemma guarded_none: "\<forall>e \<in> set evs. \<not> exposing e \<Longrightarrow> guarded g evs"
  by (auto simp: guarded_def)

lemma guarded_append:
  assumes "\<forall>e \<in> set evs. \<not> exposing e" and "\<not> exposing g"
  shows "guarded g (evs @ g # rest)"
  unfolding guarded_def
proof (intro allI impI, elim conjE)
  fix pre e post
  assume eq: "evs @ g # rest = pre @ e # post" and "exposing e"
  show "g \<in> set pre"
  proof (cases "length pre \<le> length evs")
    case True
    then have "(evs @ [g]) ! length pre = e"
      using arg_cong [OF eq, of "\<lambda>l. l ! length pre"] by (auto simp: nth_append split: if_splits)
    moreover have "(evs @ [g]) ! length pre \<in> set (evs @ [g])"
      using True by (intro nth_mem) simp
    ultimately show ?thesis using assms \<open>exposing e\<close> by auto
  next
    case False
    then have "take (Suc (length evs)) (pre @ e # post) = take (Suc (length evs)) pre" by simp
    moreover have "take (Suc (length evs)) (evs @ g # rest) = evs @ [g]" by simp
    ultimately have "evs @ [g] = take (Suc (length evs)) pre" using eq by metis
    then show ?thesis by (metis in_set_takeD in_set_conv_decomp)
  qed
qed

lemma exposing_simps [simp]:
  "\<not> exposing (Spawned t)" "\<not> exposing (ApiBound a)" "\<not> exposing (ContextBuilt n)"
  "\<not> exposing (HooksRegistered h)"
  by (simp_all add: exposing_def)

text \<open>\<open>main\<close> exposes nothing before the hooks are registered.\<close>

lemma server_main_guarded:
  "server_main W = (evs, res) \<Longrightarrow> guarded (HooksRegistered register_auth_hooks) evs"
  using guarded_append [of "[Spawned SweepCaches, Spawned CatchUp, ApiBound a, Spawned (ServeApi a),
      ContextBuilt n]" "HooksRegistered register_auth_hooks" rest for a n rest]
  by (auto simp: server_main_def Let_def guarded_none split: sum.splits prod.splits)

lemma listen_all_result:
  "listen_all f ls = (evs, res) \<Longrightarrow> (res = Inr () \<longleftrightarrow> (\<forall>l \<in> set ls. f l = Inr ()))"
  by (induction ls arbitrary: evs res) (auto split: sum.splits prod.splits)

lemma listen_all_not_running: "listen_all f ls = (evs, res) \<Longrightarrow> ServerRunning \<notin> set evs"
  by (induction ls arbitrary: evs res) (auto split: sum.splits prod.splits)

lemma listen_all_bound: "listen_all f ls = (evs, Inr ()) \<Longrightarrow> evs = map ListenerBound ls"
  by (induction ls arbitrary: evs) (auto split: sum.splits prod.splits)

lemma boot_iff:
  "(\<exists>b. boot env outcome open_store cfg = Inr b) \<longleftrightarrow>
     (cluster_enabled (cfg_cluster cfg)
        \<longrightarrow> (\<exists>i \<le> join_max_retries (cfg_cluster cfg). outcome i = Inr ()))"
proof -
  obtain n res where r: "register_loop outcome (join_max_retries (cfg_cluster cfg)) 0 = (n, res)" by fastforce
  note first = register_loop_first [OF r]
  show ?thesis
    by (cases res) (use r first in \<open>auto simp: boot_def Let_def\<close>)
qed

lemma boot_parts:
  assumes "boot env outcome open_store cfg = Inr b"
  shows "bt_listeners b = listeners cfg"
    and "bt_auto_subscription b =
      (if auto_subscribe (cfg_fanout cfg)
       then Some (auto_subscription_new (cfg_fanout cfg) (cfg_acl cfg)) else None)"
    and "bt_messages b = message_store_setup env open_store cfg"
  using assms by (auto simp: boot_def Let_def split: if_splits prod.splits)

text \<open>When \<open>main\<close> gets to run the server.\<close>

lemma server_main_runs:
  assumes "server_main W = (evs, Inr sd)"
  obtains cfg db where "config_load (w_fs W) (w_toml W) (w_env W) (cfg_path (w_args W)) = Inr cfg"
    and "db_open (w_open_db W) (db_url (cfg_db cfg)) = Inr db"
    and "w_bind W (api_addr (cfg_api cfg)) = Inr ()"
    and "boot (w_env W) (w_register W) (w_open_store W) cfg = Inr (sd_boot sd)"
    and "\<forall>l \<in> set (listeners cfg). w_listen W l = Inr ()"
    and "sd_state sd = startup_state (w_vget W) (w_env W) (w_random W) cfg db"
    and "\<exists>pre. evs = pre @ map ListenerBound (listeners cfg) @ [ServerRunning]"
proof -
  obtain cfg where c: "config_load (w_fs W) (w_toml W) (w_env W) (cfg_path (w_args W)) = Inr cfg"
    using assms by (auto simp: server_main_def Let_def split: sum.splits)
  obtain db where d: "db_open (w_open_db W) (db_url (cfg_db cfg)) = Inr db"
    using assms c by (auto simp: server_main_def Let_def split: sum.splits)
  have w: "w_bind W (api_addr (cfg_api cfg)) = Inr ()"
    using assms c d by (auto simp: server_main_def Let_def split: sum.splits)
  obtain b where b: "boot (w_env W) (w_register W) (w_open_store W) cfg = Inr b"
    using assms c d w by (auto simp: server_main_def Let_def split: sum.splits)
  obtain ls r where l: "listen_all (w_listen W) (bt_listeners b) = (ls, r)" by fastforce
  have r: "r = Inr ()" using assms c d w b l by (cases r) (simp_all add: server_main_def Let_def)
  have "sd = \<lparr>sd_state = startup_state (w_vget W) (w_env W) (w_random W) cfg db,
      sd_hash_permits = hash_concurrency (w_env W) (w_parallelism W), sd_boot = b\<rparr>"
    and "\<exists>pre. evs = pre @ ls @ [ServerRunning]"
    using assms c d w b l r by (auto simp: server_main_def Let_def)
  with that [OF c d w] b l r boot_parts(1) [OF b] listen_all_result [OF l] listen_all_bound
  show thesis by auto
qed

lemma server_main_Inr:
  assumes "config_load (w_fs W) (w_toml W) (w_env W) (cfg_path (w_args W)) = Inr cfg"
    and "db_open (w_open_db W) (db_url (cfg_db cfg)) = Inr db"
    and "w_bind W (api_addr (cfg_api cfg)) = Inr ()"
    and "boot (w_env W) (w_register W) (w_open_store W) cfg = Inr b"
    and "\<forall>l \<in> set (listeners cfg). w_listen W l = Inr ()"
  shows "\<exists>evs sd. server_main W = (evs, Inr sd)"
proof -
  obtain ls r where l: "listen_all (w_listen W) (bt_listeners b) = (ls, r)" by fastforce
  have "r = Inr ()" using listen_all_result [OF l] boot_parts(1) [OF assms(4)] assms(5) by simp
  with l assms(1-4) show ?thesis by (simp add: server_main_def Let_def)
qed

lemma server_main_not_running: "server_main W = (evs, Inl e) \<Longrightarrow> ServerRunning \<notin> set evs"
  using listen_all_not_running
  by (auto simp: server_main_def Let_def register_events_def broker_events_def
      split: sum.splits prod.splits if_splits option.splits)

end
