(* ===== verification/Samples.thy ===== *)
theory Samples
  imports Server_Main Msg_Store_Flush
begin

text \<open>
  Concrete data on which the properties are exercised: a user \<open>alice\<close>, a password hash that
  accepts one password, a codec for her record, the database in memory of \<open>Redb\<close>, and a state of
  the API built by the start-up code from the default configuration.
\<close>

definition alice_req :: create_user_req where
  "alice_req = \<lparr>cu_username = ''alice'', cu_userid = ''u1'', cu_password = ''pw'',
     cu_superuser = False, cu_admin = False\<rparr>"

definition alice :: user_record where
  "alice = \<lparr>ur_username = ''alice'', ur_userid = ''u1'', ur_password_hash = ''hash'',
     ur_superuser = False, ur_admin = False\<rparr>"

definition sample_argon2 :: "(unit, string) argon2" where
  "sample_argon2 =
     \<lparr>argon_params = (\<lambda>_ _ _. Inr ()), argon_hash = (\<lambda>_ _ _. Inr ''hash''),
      argon_parse = (\<lambda>s. if s = ''hash'' then Inr s else Inl (HashError s)),
      argon_verify = (\<lambda>pw _. if pw = [112, 119] then Inr () else Inl (HashError []))\<rparr>"

definition sample_ext :: "(unit, string, repl_op) externals" where
  "sample_ext =
     \<lparr>ext_argon2 = sample_argon2, ext_hmac = (\<lambda>k m. m), ext_sha256 = (\<lambda>m. m),
      ext_env = (\<lambda>_. None), ext_to_value = Inr\<rparr>"

definition user_enc :: "user_record \<Rightarrow> bytes result" where
  "user_enc r = (if r = alice then Inr [1] else Inl (EncodeError []))"

definition user_dec :: "bytes \<Rightarrow> user_record result" where
  "user_dec b = (if b = [1] then Inr alice else Inl (DecodeError []))"

definition sample_store :: "string mem_db user_store" where
  "sample_store = redb_store mem_redb user_enc user_dec"

definition empty_db :: "'k mem_db" where
  "empty_db = (\<lambda>_. [])"

definition alice_db :: "string mem_db" where
  "alice_db = (\<lambda>t. if t = ''users'' then [(''alice'', [1])] else [])"

definition sample_state :: "'d \<Rightarrow> 'd app_state" where
  "sample_state db = startup_state (\<lambda>_ _. Inr None) (\<lambda>_. None) [] config_default db"

definition peered_state :: "'d \<Rightarrow> 'd app_state" where
  "peered_state db = (sample_state db)\<lparr>st_peers := [''http://b:8090'']\<rparr>"

definition alice_ident :: ident where
  "alice_ident = \<lparr>id_node_id = 1, id_lid = 1, id_local_addr = None, id_remote_addr = None,
     id_client_id = ''c1'', id_username = Some ''alice'', id_create_time = 0\<rparr>"

definition alice_connect :: connect_info where
  "alice_connect = ConnV5 alice_ident \<lparr>conn_username = Some ''alice'', conn_password = Some [112, 119]\<rparr>"

lemma sample_codec: "codec_laws user_enc user_dec"
  by (auto simp: codec_laws_def user_enc_def user_dec_def split: if_splits)

lemma alice_created: "created_record alice_req ''hash'' = alice"
  by (simp add: created_record_def alice_req_def alice_def)

lemma redb_inv_empty: "redb_inv mem_redb user_enc user_dec mem_view empty_db"
  by (simp add: redb_inv_def mem_redb_laws sample_codec table_inv_def mem_view_def empty_db_def)

lemma redb_inv_alice: "redb_inv mem_redb user_enc user_dec mem_view alice_db"
  by (auto simp: redb_inv_def mem_redb_laws sample_codec table_inv_def mem_view_def alice_db_def
      user_dec_def users_table_def alice_def split: if_splits)

lemma sample_state_sel [simp]:
  "st_db (sample_state db) = db" "uc_map (st_users (sample_state db)) = Map.empty"
  "ac_map (st_auth_cache (sample_state db)) = Map.empty" "st_peers (sample_state db) = []"
  "\<not> st_auth_disabled (sample_state db)" "st_pepper (sample_state db) = None"
  "st_acl (sample_state db) = acl_config_default"
  by (simp_all add: sample_state_def startup_state_empty)
     (simp_all add: startup_state_def Let_def peers_of_def config_default_def cluster_config_default_def
       List.map_filter_def auth_disabled_def startup_pepper_def vault_from_env_def env_pepper_def)

lemma peered_state_sel [simp]:
  "st_db (peered_state db) = db" "st_peers (peered_state db) = [''http://b:8090'']"
  "st_pepper (peered_state db) = None"
  by (simp_all add: peered_state_def)

lemma alice_valid: "valid_username ''alice''" "valid_segment ''u1''"
  by code_simp+

lemma hash_sample: "hash_password sample_argon2 env salt pw = Inr ''hash''"
  by (simp add: hash_password_def sample_argon2_def)

lemma insert_alice_empty:
  "redb_insert_user mem_redb user_enc \<lparr>nu_username = ''alice'', nu_userid = ''u1'',
      nu_password_hash = ''hash'', nu_superuser = False, nu_admin = False\<rparr> empty_db = (alice_db, Inr True)"
  by (auto simp: redb_insert_user_def record_of_def user_enc_def alice_def write_txn_def mem_redb_def
      empty_db_def alice_db_def users_table_def fun_eq_iff)

text \<open>Creating \<open>alice\<close> on an empty store, with and without a peer.\<close>

lemma create_alice_peered:
  "create_user sample_store sample_ext [] True alice_req (peered_state empty_db)
   = ((peered_state empty_db)\<lparr>st_db := alice_db\<rparr>,
      \<lparr>rsp_status = 201, rsp_body = Some (JObj [(''username'', JStr ''alice''), (''userid'', JStr ''u1'')])\<rparr>,
      [\<lparr>post_url = ''http://b:8090/internal/replicate'',
        post_token = current_token (peered_state (empty_db :: string mem_db)), post_body = Upsert alice\<rparr>])"
  by (simp add: create_user_def alice_req_def alice_valid sample_ext_def hash_sample sample_store_def
      insert_alice_empty fanout_def current_token_def alice_def)

lemma create_alice:
  "create_user sample_store sample_ext [] True alice_req (sample_state empty_db)
   = ((sample_state empty_db)\<lparr>st_db := alice_db\<rparr>,
      \<lparr>rsp_status = 201, rsp_body = Some (JObj [(''username'', JStr ''alice''), (''userid'', JStr ''u1'')])\<rparr>, [])"
  by (simp add: create_user_def alice_req_def alice_valid sample_ext_def hash_sample sample_store_def
      insert_alice_empty fanout_def)

lemma get_alice: "us_get_user sample_store ''alice'' alice_db = Inr (Some alice)"
  by (simp add: sample_store_def redb_get_user_def mem_redb_def alice_db_def users_table_def user_dec_def)

lemma alice_credentials: "credentials_of alice_connect = Some (''alice'', ''pw'')"
  by code_simp

lemma delete_alice:
  "redb_delete_user mem_redb ''alice'' alice_db = (empty_db, Inr True)"
  by (auto simp: redb_delete_user_def write_txn_def mem_redb_def alice_db_def empty_db_def
      users_table_def verifiers_table_def fun_eq_iff)

lemma lookup_alice:
  "\<exists>st1. lookup_user sample_store t0 t1 ''alice'' (sample_state alice_db) = (st1, Inr (Some alice))"
  by (simp add: lookup_user_def user_cache_get_def get_alice)

lemma alice_password: "verify_password sample_argon2 (ur_password_hash alice) ''pw''"
  by code_simp

lemma login_alice:
  "snd (authenticate sample_store sample_ext clk True alice_connect (sample_state alice_db))
   = (False, Some (AuthResult (AuthAllow False
        (Some (build_auth_info alice acl_config_default alice_connect)))))"
proof -
  obtain st1 where l: "lookup_user sample_store (clk 0) (clk 1) ''alice'' (sample_state alice_db)
      = (st1, Inr (Some alice))" using lookup_alice by blast
  have "credential_ok sample_store sample_ext True (sample_state alice_db) alice ''alice'' ''pw''"
    by (simp add: credential_ok_def alice_password sample_ext_def)
  with authenticate_found(1) [OF _ alice_credentials l, where E = sample_ext and joined = True]
  show ?thesis by (cases "authenticate sample_store sample_ext clk True alice_connect (sample_state alice_db)")
    (simp add: alice_def)
qed

text \<open>A message store that holds one message, on disk as well.\<close>

definition hello :: publish where
  "hello = \<lparr>pub_dup = False, pub_retain = False, pub_qos = AtLeastOnce, pub_topic = ''a/u1'',
     pub_packet_id = None, pub_payload = [7]\<rparr>"

definition hello_msg :: stored_msg where
  "hello_msg = \<lparr>sm_from = \<lparr>from_typ = Custom, from_id = alice_ident\<rparr>, sm_publish = hello,
     sm_expiry_at = 1000, sm_delivered_to = []\<rparr>"

definition msg_enc :: "stored_msg \<Rightarrow> bytes result" where
  "msg_enc m = (if m = hello_msg then Inr [1] else Inl (EncodeError []))"

definition msg_dec :: "bytes \<Rightarrow> stored_msg result" where
  "msg_dec b = (if b = [1] then Inr hello_msg else Inl (DecodeError []))"

lemma msg_codec: "codec_laws msg_enc msg_dec"
  by (auto simp: codec_laws_def msg_enc_def msg_dec_def split: if_splits)

definition hello_store :: "u64 mem_db msg_store" where
  "hello_store = \<lparr>mst_db = empty_db, mst_node_id = 1, mst_counter = 1,
     mst_state = insert_msg 0x0001000000000000 hello_msg (mem_state_of []),
     mst_max_msgs = 0, mst_max_bytes = 0, mst_queue = []\<rparr>"

lemma hello_store_inv: "ms_inv (mst_state hello_store)"
  unfolding hello_store_def
  by (simp, rule insert_msg_inv [OF mem_state_of_inv])
     (simp_all add: mem_state_of_def total_def approx_size_def hello_msg_def hello_def usize_max_def)

lemma hello_disk_ok: "disk_ok msg_dec 0 (mem_view (mst_db hello_store) messages_table) (mst_state hello_store)"
proof -
  have "disk_ok msg_dec 0 V (mem_state_of [])" if "V = Map.empty" for V
    using that by (simp add: disk_ok_def mem_state_of_def)
  from disk_ok_insert [OF this] show ?thesis
    by (simp add: hello_store_def mem_view_def empty_db_def)
qed

lemma hello_msgs: "map_of (ms_msgs (mst_state hello_store)) = [0x0001000000000000 \<mapsto> hello_msg]"
  by (simp add: hello_store_def insert_msg_lookup mem_state_of_def)

definition one_msg_db :: "u64 mem_db" where
  "one_msg_db = (\<lambda>t. if t = ''messages'' then [(0x0001000000000000, [1])] else [])"

text \<open>The database in memory never fails.\<close>

lemma mem_remove_loop: "\<exists>w'. remove_loop mem_redb is w = Inr w'"
  by (induction "is" arbitrary: w) (simp_all add: mem_redb_def)

lemma mem_insert_loop: "\<exists>w'. insert_loop mem_redb ibs w = Inr w'"
  by (induction ibs arbitrary: w) (auto simp: mem_redb_def)

lemma mem_flush_ok: "\<exists>s'. flush mem_redb enc now s = (s', Inr ())"
proof -
  have "\<exists>d'. flush_write mem_redb batch removed d = (d', Inr ())" for batch removed d
  proof (cases "batch = [] \<and> removed = []")
    case True
    then show ?thesis by (simp add: flush_write_def)
  next
    case False
    obtain w1 where 1: "remove_loop mem_redb removed d = Inr w1" using mem_remove_loop by blast
    obtain w2 where 2: "insert_loop mem_redb batch w1 = Inr w2" using mem_insert_loop by blast
    have "open_table mem_redb messages_table d = Inr d" "begin_write mem_redb d = Inr d"
      "commit mem_redb w2 = Inr w2" by (simp_all add: mem_redb_def)
    with 1 2 False show ?thesis by (auto simp: flush_write_def write_txn_def)
  qed
  then show ?thesis by (auto simp: flush_def split: prod.splits) (metis prod.inject)
qed

lemma mem_open_ok: "\<exists>d' s'. msg_store_open mem_redb dec env node now d = (d', Inr s')"
  by (simp add: msg_store_open_def write_txn_def mem_redb_def)

text \<open>A world in which everything but the cluster works, with the default configuration.\<close>

definition sample_world :: "(string mem_db, string) world" where
  "sample_world = \<lparr>w_args = [], w_fs = (\<lambda>_. None), w_toml = (\<lambda>_. Inl (ConfigError [])), w_env = (\<lambda>_. None),
     w_open_db = (\<lambda>_. Inr empty_db), w_parallelism = None, w_vget = (\<lambda>_ _. Inr None), w_random = [],
     w_bind = (\<lambda>_. Inr ()), w_register = (\<lambda>_. Inl (OtherError [])), w_open_store = (\<lambda>p n. Inr p),
     w_listen = (\<lambda>_. Inr ())\<rparr>"

end
