(* ===== verification/Broker_Delivery.thy ===== *)
theory Broker_Delivery
  imports Samples Rmqtt_Router Rmqtt_Queue Rmqtt_Inflight
begin

text \<open>
  The properties of the delivery path of the embedded broker: which clients the router selects for
  a publication, the table of subscriptions that it implements, its counters, the topic tree, the
  queue of a session and its packet identifiers. The samples instantiate the counters with
  integers and the ordered map of the in-flight window with an association list.
\<close>

section \<open>Samples\<close>

definition int_counter :: "int counter_ops" where
  "int_counter = \<lparr>cnt_new = 0, cnt_inc = (\<lambda>c. c + 1), cnt_dec = (\<lambda>c. c - 1)\<rparr>"

lemma int_counter_laws: "counter_laws int_counter id"
  by (simp add: counter_laws_def int_counter_def)

definition plain_opts :: subscription_options where
  "plain_opts = OptsV3 \<lparr>v3_qos = AtLeastOnce, v3_shared_group = None\<rparr>"

definition alice_router :: "int default_router" where
  "alice_router = fst (router_add int_counter ''a/+'' alice_ident plain_opts (router_new int_counter))"

lemma alice_router_reach: "router_reach int_counter alice_router"
  unfolding alice_router_def by (intro router_reach.intros)

lemma sample_filters:
  "topic_from_str ''a/+'' = Inr [Normal ''a'', SingleWildcard]"
  "topic_from_str ''a/b'' = Inr [Normal ''a'', Normal ''b'']"
  by code_simp+

lemma alice_router_subscription: "subscription alice_router ''a/+'' ''c1'' = Some (alice_ident, plain_opts)"
  by (simp add: alice_router_def subscription_add [OF sample_filters(1)] alice_ident_def)

definition list_deque :: "(u16 \<times> out_inflight_message) list deque_ops" where
  "list_deque =
     \<lparr>dq_empty = [], dq_get = (\<lambda>k d. map_of d k), dq_set = AList.update,
      dq_insert = (\<lambda>k m d. (AList.update k m d, map_of d k)),
      dq_remove = (\<lambda>k d. (AList.delete k d, map_of d k)),
      dq_front = (\<lambda>d. case d of [] \<Rightarrow> None | e # _ \<Rightarrow> Some e),
      dq_pop_front = (\<lambda>d. case d of [] \<Rightarrow> ([], None) | e # _ \<Rightarrow> (AList.delete (fst e) d, Some e)),
      dq_len = (\<lambda>d. length (remdups (map fst d)))\<rparr>"

lemma list_deque_laws: "deque_laws list_deque map_of"
  unfolding deque_laws_def
proof (intro conjI allI impI)
  fix d :: "(u16 \<times> out_inflight_message) list"
  show "dq_front list_deque d = None \<longleftrightarrow> map_of d = Map.empty"
    by (cases d) (auto simp: list_deque_def)
  show "dq_len list_deque d = card (dom (map_of d))"
    by (simp add: list_deque_def dom_map_of_conv_image_fst length_remdups_card_conv)
next
  fix d k m
  assume "dq_front list_deque d = Some (k, m)"
  then show "map_of d k = Some m" by (cases d) (auto simp: list_deque_def)
next
  fix d d' e
  assume "dq_pop_front list_deque d = (d', e)"
  then show "e = dq_front list_deque d"
    and "map_of d' = (case e of None \<Rightarrow> map_of d | Some (k, _) \<Rightarrow> (map_of d)(k := None))"
    by (cases d; auto simp: list_deque_def delete_conv' fun_eq_iff)+
qed (auto simp: list_deque_def AList.update_conv' delete_conv')

section \<open>Routing\<close>

text \<open>
  C30. Delivery is exact. In every router reached by subscribing and unsubscribing, the match of a
  topic name answers; every relation it returns is a stored subscription of that client on that
  node, whose filter matches the topic by the MQTT rules and which is not excluded by the no-local
  rule; every matching subscriber outside a shared group is delivered to; and for every shared
  group with an eligible member, at least one eligible member of it is.
\<close>

theorem router_delivery:
  assumes "router_reach K r" and "topic_from_str tname = Inr t" and "topic_name t"
  shows "\<exists>res. router_matches online rnd this_id tname r = Inr res
    \<and> (\<forall>n rels tf cid opts ids g. map_of res n = Some rels \<and> (tf, cid, opts, ids, g) \<in> set rels \<longrightarrow>
        (\<exists>i f. subscription r tf cid = Some (i, opts) \<and> id_node_id i = n \<and> eligible this_id i opts
           \<and> topic_from_str tf = Inr f \<and> mqtt_match f t \<and> map_option fst g = opts_shared_group opts))
    \<and> (\<forall>tf f cid i opts. subscription r tf cid = Some (i, opts) \<and> eligible this_id i opts
        \<and> topic_from_str tf = Inr f \<and> mqtt_match f t \<longrightarrow>
          (opts_shared_group opts = None \<longrightarrow> delivers res (id_node_id i) cid)
          \<and> (\<forall>g. opts_shared_group opts = Some g \<longrightarrow>
              (\<exists>cid' i' opts'. subscription r tf cid' = Some (i', opts') \<and> eligible this_id i' opts'
                 \<and> opts_shared_group opts' = Some g \<and> delivers res (id_node_id i') cid')))"
proof -
  have inv: "router_inv r" using assms(1) by (rule router_reach_inv)
  obtain cm where cm: "router_matches online rnd this_id tname r = Inr (match_result cm)"
    and sound: "\<And>n tf cid opts g. cm_entry cm n (tf, cid, opts, g) \<Longrightarrow>
      \<exists>i f. subscription r tf cid = Some (i, opts) \<and> id_node_id i = n \<and> eligible this_id i opts
        \<and> topic_from_str tf = Inr f \<and> mqtt_match f t \<and> map_option fst g = opts_shared_group opts"
    and complete: "\<And>tf f rels. map_of (rtr_relations r) tf = Some rels \<Longrightarrow> topic_from_str tf = Inr f \<Longrightarrow>
      mqtt_match f t \<Longrightarrow> reached this_id rels cm"
    using router_matches_cm [OF inv assms(2,3)] by metis
  have entry: "cm_entry cm n (tf, cid, opts, g)"
    if "map_of (match_result cm) n = Some rels" "(tf, cid, opts, ids, g) \<in> set rels" for n rels tf cid opts ids g
    using that by (auto simp: map_of_match_result cm_entry_def)
  have reach: "(opts_shared_group opts = None \<longrightarrow> delivers (match_result cm) (id_node_id i) cid)
      \<and> (\<forall>g. opts_shared_group opts = Some g \<longrightarrow>
          (\<exists>cid' i' opts'. subscription r tf cid' = Some (i', opts') \<and> eligible this_id i' opts'
             \<and> opts_shared_group opts' = Some g \<and> delivers (match_result cm) (id_node_id i') cid'))"
    if s: "subscription r tf cid = Some (i, opts)" and e: "eligible this_id i opts"
      and f: "topic_from_str tf = Inr f" "mqtt_match f t" for tf f cid i opts
  proof -
    obtain rels where m: "map_of (rtr_relations r) tf = Some rels"
      using s by (auto simp: subscription_def bind_eq_Some_conv)
    have here: "(cid, i, opts) \<in> set rels \<and> eligible this_id i opts"
      using s e subscription_rels [OF inv m] by simp
    show ?thesis
      using reachedD [OF complete [OF m f] here] subscription_rels [OF inv m]
      unfolding delivers_match_result by blast
  qed
  show ?thesis
    using cm sound [OF entry] reach by (intro exI [of _ "match_result cm"]) (simp only: simp_thms, metis)
qed

theorem router_delivery_witness:
  "\<exists>res. router_matches (\<lambda>_ _. True) (\<lambda>_ _ _. 0) alice_ident ''a/b'' alice_router = Inr res
     \<and> delivers res 1 ''c1''"
proof -
  have "mqtt_match [Normal ''a'', SingleWildcard] [Normal ''a'', Normal ''b'']" by code_simp
  moreover have "eligible alice_ident alice_ident plain_opts" "opts_shared_group plain_opts = None"
    by (simp_all add: eligible_def plain_opts_def)
  moreover have "id_node_id alice_ident = 1" by (simp add: alice_ident_def)
  moreover have "topic_name [Normal ''a'', Normal ''b'']" by (simp add: topic_name_def)
  ultimately show ?thesis
    using router_delivery [OF alice_router_reach sample_filters(2), of "\<lambda>_ _. True" "\<lambda>_ _ _. 0" alice_ident]
      alice_router_subscription sample_filters(1) by metis
qed

text \<open>
  C34. The router implements a map from filters and clients to subscriptions. Adding stores the
  subscription and touches no other; a filter that does not parse is refused without a change;
  removing succeeds exactly for the session that holds the subscription, takes away just that
  entry, and otherwise changes nothing.
\<close>

theorem router_refines_map:
  assumes "router_reach K r"
  shows "(case topic_from_str tf of
        Inr _ \<Rightarrow> snd (router_add K tf i opts r) = Inr ()
          \<and> (\<forall>g c. subscription (fst (router_add K tf i opts r)) g c =
               (if g = tf \<and> c = id_client_id i then Some (i, opts) else subscription r g c))
      | Inl e \<Rightarrow> router_add K tf i opts r = (r, Inl e))
    \<and> (if \<exists>opts'. subscription r tf (id_client_id i) = Some (i, opts')
       then snd (router_remove K tf i r) = Inr True
         \<and> (\<forall>g c. subscription (fst (router_remove K tf i r)) g c =
              (if g = tf \<and> c = id_client_id i then None else subscription r g c))
       else router_remove K tf i r = (r, Inr False))"
proof (rule conjI)
  show "case topic_from_str tf of
        Inr _ \<Rightarrow> snd (router_add K tf i opts r) = Inr ()
          \<and> (\<forall>g c. subscription (fst (router_add K tf i opts r)) g c =
               (if g = tf \<and> c = id_client_id i then Some (i, opts) else subscription r g c))
      | Inl e \<Rightarrow> router_add K tf i opts r = (r, Inl e)"
  proof (cases "topic_from_str tf")
    case (Inl e)
    then show ?thesis by (simp add: router_add_def)
  next
    case (Inr f)
    then show ?thesis by (simp add: router_add_simps(3) subscription_add)
  qed
  have inv: "router_inv r" using assms by (rule router_reach_inv)
  show "if \<exists>opts'. subscription r tf (id_client_id i) = Some (i, opts')
       then snd (router_remove K tf i r) = Inr True
         \<and> (\<forall>g c. subscription (fst (router_remove K tf i r)) g c =
              (if g = tf \<and> c = id_client_id i then None else subscription r g c))
       else router_remove K tf i r = (r, Inr False)"
  proof (cases "\<exists>opts'. subscription r tf (id_client_id i) = Some (i, opts')")
    case True
    then show ?thesis using router_remove_owner [OF inv] by auto
  next
    case False
    then show ?thesis using router_remove_other [OF False] by simp
  qed
qed

theorem router_refines_map_witness:
  "subscription (fst (router_remove int_counter ''a/+'' alice_ident alice_router)) ''a/+'' ''c1'' = None"
  using conjunct2 [OF router_refines_map [OF alice_router_reach, of "''a/+''" alice_ident plain_opts]]
    alice_router_subscription by (simp add: alice_ident_def)

text \<open>
  The invariant of the router and its statistics. In every reachable router the topic tree
  holds exactly the filters of the table of relations, every filter parses and has a subscriber,
  and the two counters are the number of filters and the number of subscriptions.
\<close>

lemma router_counters:
  assumes "router_reach K r" and "counter_laws K val"
  shows "(\<forall>f. tree_has f (rtr_topics r) \<longleftrightarrow>
         (\<exists>tf \<in> fst ` set (rtr_relations r). topic_from_str tf = Inr f))
     \<and> distinct (map fst (rtr_relations r))
     \<and> (\<forall>(tf, rels) \<in> set (rtr_relations r). rels \<noteq> [] \<and> distinct (map fst rels))
     \<and> val (rtr_topics_count r) = int (length (rtr_relations r))
     \<and> val (rtr_relations_count r) = (\<Sum>(tf, rels) \<leftarrow> rtr_relations r. int (length rels))"
proof -
  have "int (size_of al) = (\<Sum>(tf, rels) \<leftarrow> al. int (length rels))" for al :: "(string \<times> client_rels) list"
    by (induction al) (auto simp: size_of_def)
  then show ?thesis
    using router_reach_inv [OF assms(1)] router_reach_counts [OF assms]
    by (auto simp: router_inv_def counts_ok_def synced_def rels_ok_def)
qed

section \<open>Sessions\<close>

text \<open>
  C35. Packet identifiers. While fewer than 65534 messages are in flight, the generator returns an
  identifier that is not zero and not in use; storing a message under it replaces no message,
  keeps the others and keeps every message under its own identifier.
\<close>

theorem packet_id_fresh:
  assumes "deque_laws D view" and "oi_inv view w" and "card (dom (view (oi_queues w))) < 65534"
  shows "\<exists>w1 pid. oi_next_id D w = (w1, Inr pid) \<and> pid \<noteq> 0 \<and> view (oi_queues w) pid = None
    \<and> (\<forall>m w2 old. pub_packet_id (oim_publish m) = Some pid \<and> oi_push_back D m w1 = (w2, old) \<longrightarrow>
         old = None \<and> view (oi_queues w2) = (view (oi_queues w))(pid \<mapsto> m) \<and> oi_inv view w2)"
proof -
  have used: "{pid. oi_exist D pid w} = dom (view (oi_queues w))"
    by (auto simp: oi_exist_def deque_lawsD(2) [OF assms(1)])
  with next_id_loop_total [of "\<lambda>pid. oi_exist D pid w" "oi_next w"] assms(3)
  obtain nx pid where l: "next_id_loop 65535 (\<lambda>pid. oi_exist D pid w) (oi_next w) = (nx, Inr pid)"
    by auto
  let ?w1 = "w\<lparr>oi_next := nx\<rparr>"
  have free: "pid \<noteq> 0" "view (oi_queues w) pid = None"
    using next_id_loop_Inr [OF l] used by auto
  have "old = None \<and> view (oi_queues w2) = (view (oi_queues w))(pid \<mapsto> m) \<and> oi_inv view w2"
    if "pub_packet_id (oim_publish m) = Some pid" "oi_push_back D m ?w1 = (w2, old)" for m w2 old
  proof -
    have "oi_inv view ?w1" using assms(2) by (simp add: oi_inv_def)
    from oi_inv_push_back [OF assms(1) this, of m] have "oi_inv view w2" unfolding that(2) fst_conv .
    moreover have "view (oi_queues ?w1) = view (oi_queues w)" by simp
    ultimately show ?thesis using oi_push_back_view [OF assms(1) that] free(2) by simp
  qed
  moreover have "oi_next_id D w = (?w1, Inr pid)" using l by (simp add: oi_next_id_def)
  ultimately show ?thesis using free by blast
qed

theorem packet_id_fresh_witness:
  "\<exists>w1 pid. oi_next_id list_deque (out_inflight_new list_deque 16 0 0) = (w1, Inr pid) \<and> pid \<noteq> 0"
proof -
  have "card (dom (map_of (oi_queues (out_inflight_new list_deque 16 0 0)))) < 65534"
    by (simp add: out_inflight_new_def list_deque_def)
  from packet_id_fresh [OF list_deque_laws oi_inv_new [OF list_deque_laws] this]
  show ?thesis by (elim exE conjE) (intro exI conjI)
qed

end
