(* ===== verification/Broker_Isolation.thy ===== *)
theory Broker_Isolation
  imports Rmqtt_Isolation Rmqtt_Forwarding Broker_Delivery
begin

text \<open>
  The broker as a state machine: connections, publications, subscriptions, deliveries,
  acknowledgements, the loops of the sessions and the steps of the message store in any order. What
  a user can receive in every state that is reached, what an accepted publication reaches, and the two
  ways round the access rules: a session that another user takes over and a last will.
\<close>

section \<open>The state machine\<close>

text \<open>
  The steps. A client is authenticated as the owner of its identifier. Publications and ends of
  sessions come from any session, also one that has been replaced; the other steps are those of the
  session registered for the client.
\<close>

inductive bk_step ::
    "'w session_crates \<Rightarrow> 'c counter_ops \<Rightarrow> acl_config \<Rightarrow> listen_cfg \<Rightarrow> (string \<Rightarrow> user_record)
     \<Rightarrow> ('c, 'd, 'w) broker \<Rightarrow> ('c, 'd, 'w) broker \<Rightarrow> bool"
  for X :: "'w session_crates" and K :: "'c counter_ops" and acl :: acl_config and cfg :: listen_cfg
    and owner :: "string \<Rightarrow> user_record" where
  st_connect: "authenticates acl (owner (id_client_id i)) ret \<Longrightarrow>
    bk_step X K acl cfg owner b (fst (handshake X K cfg i will clean ret auto_subs b))"
| st_publish: "bk_step X K acl cfg owner b
    (snd (fst (process_publish X acl online rnd now ttl sent s p (ii, b))))"
| st_subscribe: "bk_peers b cid = Some e \<Longrightarrow> replies_match (sub_topic_filter sub) replies \<Longrightarrow>
    bk_step X K acl cfg owner b (fst (session_subscribe X K acl cfg now replies (en_s e) sub b))"
| st_unsubscribe: "bk_step X K acl cfg owner b (fst (session_unsubscribe K s tf b))"
| st_message: "bk_step X K acl cfg owner b (process_message X K acl cfg now cid b)"
| st_offline: "bk_step X K acl cfg owner b (offline_message cid b)"
| st_deliver: "bk_peers b cid = Some e \<Longrightarrow> deliver X now expired sent (en_s e) = (s', res) \<Longrightarrow>
    bk_step X K acl cfg owner b (b\<lparr>bk_peers := (bk_peers b)(cid \<mapsto> e\<lparr>en_s := s'\<rparr>)\<rparr>)"
| st_ack: "bk_peers b cid = Some e \<Longrightarrow>
    bk_step X K acl cfg owner b (b\<lparr>bk_peers := (bk_peers b)(cid \<mapsto> e\<lparr>en_s := session_ack X pid (en_s e)\<rparr>)\<rparr>)"
| st_received: "bk_peers b cid = Some e \<Longrightarrow>
    bk_step X K acl cfg owner b (b\<lparr>bk_peers := (bk_peers b)(cid \<mapsto> e\<lparr>en_s := session_received X pid now (en_s e)\<rparr>)\<rparr>)"
| st_retry: "bk_step X K acl cfg owner b (session_retry X now expired cid b)"
| st_end: "bk_step X K acl cfg owner b (session_end X K online rnd now ttl flags clean delay s b)"
| st_will: "bk_step X K acl cfg owner b (process_last_will X online rnd now ttl s b)"
| st_clean: "bk_step X K acl cfg owner b (session_clean K s b)"
| st_close: "bk_peers b cid = Some e \<Longrightarrow>
    bk_step X K acl cfg owner b (b\<lparr>bk_peers := (bk_peers b)(cid \<mapsto> e\<lparr>en_closed := True\<rparr>)\<rparr>)"
| st_store: "bk_store b = Some s \<Longrightarrow> ms_step R enc (s, ps) (s', ps') \<Longrightarrow>
    bk_step X K acl cfg owner b (b\<lparr>bk_store := Some s'\<rparr>)"

text \<open>
  The hook of \<open>api.rs\<close> meets the condition of a connection when the user name of the client is that of the owner:
  what it answers is the right of the record it has looked up, or a refusal.
\<close>

lemma hook_authenticates:
  assumes "\<not> st_auth_disabled st" and "st_acl st = acl"
    and "\<And>u p st1 r'. credentials_of ci = Some (u, p) \<Longrightarrow>
      lookup_user U (clk 0) (clk 1) u st = (st1, Inr (Some r')) \<Longrightarrow> r' = r"
  shows "authenticates acl r (snd (authenticate U E clk joined ci st))"
proof (cases "\<exists>u p st1 r'. credentials_of ci = Some (u, p) \<and> lookup_user U (clk 0) (clk 1) u st = (st1, Inr (Some r'))")
  case True
  then obtain u p st1 where c: "credentials_of ci = Some (u, p)" "lookup_user U (clk 0) (clk 1) u st = (st1, Inr (Some r))"
    using assms(3) by blast
  from authenticate_found(1) [OF assms(1) c surjective_pairing, of E joined] assms(2) show ?thesis
    by (auto simp: authenticates_def client_authenticate_def deny_auth_def)
next
  case False
  with assms(1) show ?thesis
    by (auto simp: authenticates_def authenticate_def client_authenticate_def deny_auth_def
        split: option.splits prod.splits sum.splits)
qed

text \<open>A broker that has just started.\<close>

definition bk_start :: "'c counter_ops \<Rightarrow> ('c, 'd, 'w) broker \<Rightarrow> bool" where
  "bk_start K b \<longleftrightarrow> bk_router b = router_new K \<and> bk_peers b = Map.empty \<and> store_ok (bk_store b)"

lemma mem_step_inv:
  assumes "mem_step s s'" and "ms_inv (mst_state s)"
  shows "ms_inv (mst_state s')"
  using assms
proof (cases rule: mem_step.cases)
  case (mem_recv k m rest now)
  with assms(2) show ?thesis
    using recv_msg_inv [of "mst_state s" k m now "mst_max_msgs s" "mst_max_bytes s"]
    by (simp add: recv_step_def)
next
  case (mem_get client filt now out)
  with assms(2) show ?thesis using get_msgs_result(2) by blast
qed (simp_all add: next_msg_id_def store_msg_def Let_def)

lemma ms_step_inv:
  assumes "ms_step R enc (s, ps) (s', ps')" and "ms_inv (mst_state s)"
  shows "ms_inv (mst_state s')"
  using assms
proof (cases rule: ms_step.cases)
  case ms_mem
  then show ?thesis using mem_step_inv assms(2) by blast
next
  case (ms_drain now batch removed)
  then show ?thesis
    using flush_drain_state(2) [of enc now s s'] ms_inv_clean [OF evict_inv [OF assms(2)]] by simp
next
  case ms_write
  then show ?thesis using assms(2) by simp
qed

text \<open>Every step keeps the invariant.\<close>

lemma bk_step_ok:
  assumes R: "rules_ok acl owner" and L: "deque_laws (sx_deque X) view"
    and "bk_step X K acl cfg owner b b'" and B: "broker_ok acl view owner b"
  shows "broker_ok acl view owner b'"
  using assms(3)
proof (cases rule: bk_step.cases)
  case (st_subscribe cid e sub replies now)
  note E = broker_ok_entry [OF B st_subscribe(2)]
  have "broker_ok acl view owner (fst (session_subscribe X K acl cfg now replies (en_s e) sub b))"
    by (rule session_subscribe_ok [OF R B _ st_subscribe(3)]) (use entry_okD [OF E] in simp)
  then show ?thesis using st_subscribe(1) by simp
next
  case (st_deliver cid e now expired sent s' res)
  note S = entry_okD(2) [OF broker_ok_entry [OF B st_deliver(2)]]
  show ?thesis unfolding st_deliver(1)
    by (rule session_upd_ok [OF B st_deliver(2)]) (use deliver_ok [OF L S st_deliver(3)] in simp_all)
next
  case (st_ack cid e pid)
  note S = entry_okD(2) [OF broker_ok_entry [OF B st_ack(2)]]
  show ?thesis unfolding st_ack(1)
    by (rule session_upd_ok [OF B st_ack(2) session_ack_ok [OF L S]]) (simp add: session_ack_def)
next
  case (st_received cid e pid now)
  note S = entry_okD(2) [OF broker_ok_entry [OF B st_received(2)]]
  show ?thesis unfolding st_received(1)
    by (rule session_upd_ok [OF B st_received(2) session_received_ok [OF L S]]) (simp add: session_received_def)
next
  case (st_close cid e)
  show ?thesis unfolding st_close(1)
    by (rule broker_ok_upd [OF B]) (use broker_ok_entry [OF B st_close(2)] in \<open>simp add: entry_ok_def\<close>)
next
  case (st_store s R enc ps s' ps')
  then show ?thesis using B ms_step_inv [OF st_store(3)] by (auto simp: broker_ok_def store_ok_def)
qed (simp_all add: handshake_ok [OF L B] process_publish_ok [OF R B] session_unsubscribe_ok [OF B]
      process_message_ok [OF R L B] offline_message_ok [OF B] session_retry_ok [OF L B] session_end_ok [OF R B]
      process_last_will_ok [OF R B] session_clean_ok [OF B])

lemma bk_start_ok: "bk_start K b \<Longrightarrow> broker_ok acl view owner b"
  using router_inv_new [of K]
  by (auto simp: bk_start_def broker_ok_def peers_ok_def router_ok_def subscription_def router_new_def)

lemma bk_reach_ok:
  assumes "rules_ok acl owner" and "deque_laws (sx_deque X) view"
    and "(bk_step X K acl cfg owner)\<^sup>*\<^sup>* b0 b" and "bk_start K b0"
  shows "broker_ok acl view owner b"
  using assms(3) by (induction rule: rtranclp_induct) (use bk_start_ok [OF assms(4)] bk_step_ok [OF assms(1,2)] in blast)+

section \<open>Samples\<close>

text \<open>Alice connects and subscribes to her topics, and a superuser sends her a message.\<close>

fun qos_less_value :: "qos \<Rightarrow> qos \<Rightarrow> qos" where
  "qos_less_value AtMostOnce q = AtMostOnce"
| "qos_less_value AtLeastOnce q = (if q = AtMostOnce then AtMostOnce else AtLeastOnce)"
| "qos_less_value ExactlyOnce q = q"

definition sample_crates :: "(u16 \<times> out_inflight_message) list session_crates" where
  "sample_crates = \<lparr>sx_less_value = qos_less_value, sx_deque = list_deque\<rparr>"

definition sample_cfg :: listen_cfg where
  "sample_cfg = \<lparr>lc_max_subscriptions = 0, lc_max_topic_levels = 0, lc_max_qos_allowed = ExactlyOnce,
     lc_max_mqueue_len = 10, lc_max_inflight = 16, lc_retry_interval = 20, lc_expiry_interval = 300\<rparr>"

definition sample_broker :: "(int, u64 mem_db, (u16 \<times> out_inflight_message) list) broker" where
  "sample_broker = \<lparr>bk_node_id = 1, bk_router = router_new int_counter, bk_peers = Map.empty, bk_store = None\<rparr>"

definition alice_ret :: return_type where
  "alice_ret = (False, Some (AuthResult (AuthAllow False (Some (build_auth_info alice acl_config_default alice_connect)))))"

definition alice_connected :: "(int, u64 mem_db, (u16 \<times> out_inflight_message) list) broker" where
  "alice_connected = fst (handshake sample_crates int_counter sample_cfg alice_ident None True alice_ret None sample_broker)"

definition alice_sub :: subscribe where
  "alice_sub = \<lparr>sub_topic_filter = ''+/u1/#'', sub_opts = plain_opts\<rparr>"

definition alice_subscribed :: "(int, u64 mem_db, (u16 \<times> out_inflight_message) list) broker" where
  "alice_subscribed = fst (session_subscribe sample_crates int_counter acl_config_default sample_cfg 0 []
     (en_s (the (bk_peers alice_connected ''c1''))) alice_sub alice_connected)"

definition root_ident :: ident where
  "root_ident = alice_ident\<lparr>id_client_id := ''c0'', id_username := Some ''root''\<rparr>"

definition root_session :: "(u16 \<times> out_inflight_message) list session" where
  "root_session = new_session sample_crates sample_cfg root_ident True None None"

definition greeting :: publish where
  "greeting = hello\<lparr>pub_qos := AtMostOnce\<rparr>"

definition alice_notified :: "(int, u64 mem_db, (u16 \<times> out_inflight_message) list) broker" where
  "alice_notified = snd (fst (process_publish sample_crates acl_config_default (\<lambda>_ _. True) (\<lambda>_ _ _. 0) 0 0 True
     root_session greeting (in_inflight_new 16, alice_subscribed)))"

definition alice_queued :: "(int, u64 mem_db, (u16 \<times> out_inflight_message) list) broker" where
  "alice_queued = process_message sample_crates int_counter acl_config_default sample_cfg 0 ''c1'' alice_notified"

lemma alice_ret_login:
  "snd (authenticate sample_store sample_ext clk True alice_connect (sample_state alice_db)) = alice_ret"
  by (simp add: login_alice alice_ret_def)

lemma sample_rules: "rules_ok acl_config_default (\<lambda>_. alice)"
proof -
  have "valid_segment (ur_userid alice)" by code_simp
  moreover have "\<forall>pre \<in> user_prefixes alice acl_config_default. plain pre"
    by (simp add: user_prefixes_def acl_config_default_def alice_def plain_def)
  ultimately show ?thesis by (simp add: rules_ok_def acl_config_default_def)
qed

lemma sample_deque: "deque_laws (sx_deque sample_crates) map_of"
  by (simp add: sample_crates_def list_deque_laws)

lemma sample_start: "bk_start int_counter sample_broker"
  by (simp add: bk_start_def sample_broker_def store_ok_def)

abbreviation sample_step :: "(int, u64 mem_db, (u16 \<times> out_inflight_message) list) broker
    \<Rightarrow> (int, u64 mem_db, (u16 \<times> out_inflight_message) list) broker \<Rightarrow> bool" where
  "sample_step \<equiv> bk_step sample_crates int_counter acl_config_default sample_cfg (\<lambda>_. alice)"

lemma subscribed_reach: "sample_step\<^sup>*\<^sup>* sample_broker alice_subscribed"
proof -
  have "authenticates acl_config_default alice alice_ret"
    by (auto simp: authenticates_def client_authenticate_def alice_ret_def alice_def)
  then have 1: "sample_step sample_broker alice_connected"
    unfolding alice_connected_def by (rule st_connect)
  have "\<not> Option.is_none (bk_peers alice_connected ''c1'')" by code_simp
  then obtain e where e: "bk_peers alice_connected ''c1'' = Some e" by (auto simp: Option.is_none_def)
  from st_subscribe [OF e, of alice_sub "[]"] have 2: "sample_step alice_connected alice_subscribed"
    unfolding alice_subscribed_def e option.sel by (simp add: replies_match_def)
  from 1 2 show ?thesis by (meson converse_rtranclp_into_rtranclp r_into_rtranclp)
qed

lemma queued_reach: "sample_step\<^sup>*\<^sup>* sample_broker alice_queued"
proof -
  have "sample_step alice_subscribed alice_notified" unfolding alice_notified_def by (rule st_publish)
  moreover have "sample_step alice_notified alice_queued" unfolding alice_queued_def by (rule st_message)
  ultimately show ?thesis using subscribed_reach by (meson rtranclp.rtrancl_into_rtrancl)
qed

lemma subscribed_router: "router_inv (bk_router alice_subscribed)"
  using bk_reach_ok [OF sample_rules sample_deque subscribed_reach sample_start]
  by (simp add: broker_ok_def router_ok_def)

lemma alice_delivery:
  "\<exists>e s' p. bk_peers alice_queued ''c1'' = Some e
     \<and> deliver sample_crates 0 False True (en_s e) = (s', Inr (Some p)) \<and> pub_topic p = ''a/u1''"
proof -
  have "map_option (\<lambda>e. map_sum id (map_option pub_topic) (snd (deliver sample_crates 0 False True (en_s e))))
      (bk_peers alice_queued ''c1'') = Some (Inr (Some ''a/u1''))" by code_simp
  then obtain e where e: "bk_peers alice_queued ''c1'' = Some e"
    and d: "map_sum id (map_option pub_topic) (snd (deliver sample_crates 0 False True (en_s e))) = Inr (Some ''a/u1'')"
    by auto
  obtain s' res where sr: "deliver sample_crates 0 False True (en_s e) = (s', res)" by fastforce
  from d sr obtain p where "res = Inr (Some p)" "pub_topic p = ''a/u1''" by (cases res) auto
  with e sr show ?thesis by blast
qed

lemma sample_topic:
  "topic_from_str ''a/u1'' = Inr [Normal ''a'', Normal ''u1'']"
  "topic_from_str ''+/u1/#'' = Inr [SingleWildcard, Normal ''u1'', MultiWildcard]"
  "topic_name [Normal ''a'', Normal ''u1'']"
  "mqtt_match [SingleWildcard, Normal ''u1'', MultiWildcard] [Normal ''a'', Normal ''u1'']"
  by (code_simp, code_simp, simp add: topic_name_def, code_simp)

text \<open>Bob, another user, has a session under a client identifier of his own, or under Alice's.\<close>

definition bob :: user_record where
  "bob = alice\<lparr>ur_username := ''bob'', ur_userid := ''u2''\<rparr>"

definition bob_ident :: ident where
  "bob_ident = alice_ident\<lparr>id_lid := 2, id_username := Some ''bob''\<rparr>"

definition bob_info :: auth_info where
  "bob_info = build_auth_info bob acl_config_default (ConnV5 bob_ident \<lparr>conn_username = Some ''bob'', conn_password = None\<rparr>)"

definition bob_session :: "last_will option \<Rightarrow> (u16 \<times> out_inflight_message) list session" where
  "bob_session will = new_session sample_crates sample_cfg (bob_ident\<lparr>id_client_id := ''c2''\<rparr>) False (Some bob_info) will"

definition bob_will :: last_will where
  "bob_will = \<lparr>lw_retain = False, lw_qos = AtMostOnce, lw_topic = ''a/u1'', lw_message = [9]\<rparr>"

lemma alice_subscriber: "subscriber this_id ''a/u1'' ''c1'' alice_subscribed"
proof -
  have "subscription (bk_router alice_subscribed) ''+/u1/#'' ''c1'' = Some (alice_ident, plain_opts)" by code_simp
  moreover have "eligible this_id alice_ident plain_opts" "opts_shared_group plain_opts = None"
    by (simp_all add: eligible_def plain_opts_def)
  moreover have "id_node_id alice_ident = bk_node_id alice_subscribed" by code_simp
  moreover have "map_option en_closed (bk_peers alice_subscribed ''c1'') = Some False" by code_simp
  then obtain e where "bk_peers alice_subscribed ''c1'' = Some e" "\<not> en_closed e" by auto
  ultimately show ?thesis unfolding subscriber_def using sample_topic by blast
qed

section \<open>Isolation\<close>

text \<open>
  C1. Users are isolated. Client identifiers belong to one user each, the rules are enabled and the
  configured prefixes are plain. Whatever clients publish, subscribe and acknowledge, in whatever order
  sessions are opened, taken over by their user, closed and cleaned, and whatever the store does:
  every message that is delivered to a client of a user without the superuser flag, if its topic is a
  topic name, lies under the user's id, a fan-out prefix or, for administrators, an administration
  prefix.
\<close>

theorem user_isolation:
  assumes "rules_ok acl owner" and "deque_laws (sx_deque X) view"
    and "bk_start K b0" and "(bk_step X K acl cfg owner)\<^sup>*\<^sup>* b0 b"
    and "bk_peers b cid = Some e" and "deliver X now expired sent (en_s e) = (s', Inr (Some p))"
    and "topic_from_str (pub_topic p) = Inr t" and "topic_name t" and "\<not> ur_superuser (owner cid)"
  shows "(\<exists>a rest. split_on (CHR ''/'') (pub_topic p) = a # ur_userid (owner cid) # rest)
    \<or> (\<exists>pre \<in> user_prefixes (owner cid) acl. \<exists>rest.
         split_on (CHR ''/'') (pub_topic p) = split_on (CHR ''/'') pre @ rest)"
proof -
  have "broker_ok acl view owner b" by (rule bk_reach_ok [OF assms(1,2,4,3)])
  note S = entry_okD(2) [OF broker_ok_entry [OF this assms(5)]]
  have "topic_ok acl (owner cid) (pub_topic p)" using deliver_ok [OF assms(2) S assms(6)] by blast
  then show ?thesis using assms(7-9) by (simp add: topic_ok_def named_def confined_name_def)
qed

theorem user_isolation_witness:
  "\<exists>e s' p. bk_peers alice_queued ''c1'' = Some e
     \<and> deliver sample_crates 0 False True (en_s e) = (s', Inr (Some p)) \<and> pub_topic p = ''a/u1''
     \<and> ((\<exists>a rest. split_on (CHR ''/'') (pub_topic p) = a # ur_userid alice # rest)
        \<or> (\<exists>pre \<in> user_prefixes alice acl_config_default. \<exists>rest.
             split_on (CHR ''/'') (pub_topic p) = split_on (CHR ''/'') pre @ rest))"
proof -
  obtain e s' p where d: "bk_peers alice_queued ''c1'' = Some e"
    "deliver sample_crates 0 False True (en_s e) = (s', Inr (Some p))" and p: "pub_topic p = ''a/u1''"
    using alice_delivery by blast
  have "\<not> ur_superuser alice" by (simp add: alice_def)
  from user_isolation [OF sample_rules sample_deque sample_start queued_reach d, of "[Normal ''a'', Normal ''u1'']"] this
  show ?thesis using d p sample_topic(1,3) by auto
qed

section \<open>Publishing\<close>

text \<open>
  C31. An accepted publication arrives. A publication that the access rules reject changes nothing. One
  that they allow succeeds: for every subscriber outside a shared group whose filter matches the topic
  and whose channel is open, the channel holds the message with its topic and payload; and with
  a message store the message is handed to it under the next identifier.
\<close>

theorem publish_reaches:
  assumes "router_inv (bk_router b)"
  shows "if publish_acl_is_allow (publish_acl_result acl s p) then
      (\<exists>b' r. session_publish X acl online rnd now ttl s p b = (b', Inr r) \<and> publish_result_is_success r
        \<and> (\<forall>cid. subscriber (ss_id s) (pub_topic p) cid b \<longrightarrow>
             (\<exists>q. pub_topic q = pub_topic p \<and> pub_payload q = pub_payload p
                \<and> in_channel (Forward \<lparr>from_typ = Custom, from_id = ss_id s\<rparr> q) cid b'))
        \<and> (\<forall>st. bk_store b = Some st \<longrightarrow>
             (\<exists>cs. bk_store b' = Some (store_msg (snd (next_msg_id st)) \<lparr>from_typ = Custom, from_id = ss_id s\<rparr> p ttl cs now
                (fst (next_msg_id st))))))
    else fst (session_publish X acl online rnd now ttl s p b) = b"
proof (cases "publish_acl_is_allow (publish_acl_result acl s p)")
  case True
  let ?frm = "\<lparr>from_typ = Custom, from_id = ss_id s\<rparr>"
  let ?b' = "inner_forwards X online rnd now ?frm p (bk_store b \<noteq> None) (if bk_store b \<noteq> None then Some ttl else None) b"
  have "session_publish X acl online rnd now ttl s p b = (?b', Inr (publish_result_reason_code PubSuccess None False))"
    using True by (simp add: session_publish_def Let_def)
  moreover have "publish_result_is_success (publish_result_reason_code PubSuccess None False)"
    by (simp add: publish_result_is_success_def publish_result_reason_code_def)
  moreover have "\<exists>q. pub_topic q = pub_topic p \<and> pub_payload q = pub_payload p \<and> in_channel (Forward ?frm q) cid ?b'"
    if "subscriber (ss_id s) (pub_topic p) cid b" for cid
    using inner_forwards_channel [OF assms, of ?frm p] that by simp
  moreover have "\<exists>cs. bk_store ?b' = Some (store_msg (snd (next_msg_id st)) ?frm p ttl cs now (fst (next_msg_id st)))"
    if "bk_store b = Some st" for st
    using inner_forwards_store [OF that] that by simp
  ultimately show ?thesis using True by auto
qed (simp add: session_publish_def Let_def)

theorem publish_reaches_witness:
  "\<exists>b' r q. session_publish sample_crates acl_config_default (\<lambda>_ _. True) (\<lambda>_ _ _. 0) 0 0 root_session greeting alice_subscribed
       = (b', Inr r) \<and> pub_topic q = ''a/u1'' \<and> in_channel (Forward \<lparr>from_typ = Custom, from_id = root_ident\<rparr> q) ''c1'' b'"
proof -
  have "publish_acl_is_allow (publish_acl_result acl_config_default root_session greeting)" by code_simp
  moreover have "ss_id root_session = root_ident" "pub_topic greeting = ''a/u1''"
    by (simp_all add: root_session_def new_session_def greeting_def hello_def)
  ultimately show ?thesis
    using publish_reaches [OF subscribed_router, of acl_config_default root_session greeting sample_crates "\<lambda>_ _. True" "\<lambda>_ _ _. 0" 0 0]
      alice_subscriber [of root_ident] by fastforce
qed

section \<open>Ways round the rules\<close>

text \<open>
  C32. A last will is not checked. For a user who may not publish to the topic of the last will, publishing it is
  refused and changes nothing; but when the session ends without a goodbye, the same message
  is in the channel of every matching subscriber.
\<close>

theorem last_will_unchecked:
  assumes "router_inv (bk_router b)" and "ss_last_will s = Some lw"
    and "\<not> publish_acl_is_allow (publish_acl_result acl s (publish_of_will lw))"
    and "subscriber (ss_id s) (lw_topic lw) cid b"
  shows "fst (session_publish X acl online rnd now ttl s (publish_of_will lw) b) = b
    \<and> (\<exists>q. pub_topic q = lw_topic lw \<and> pub_payload q = lw_message lw
         \<and> in_channel (Forward \<lparr>from_typ = LastWill, from_id = ss_id s\<rparr> q) cid
             (session_end X K online rnd now ttl
               \<lparr>sf_kicked = False, sf_by_admin_kick = False, sf_clean_start = False, sf_disconnect_received = False\<rparr>
               False None s b))"
proof (rule conjI)
  show "fst (session_publish X acl online rnd now ttl s (publish_of_will lw) b) = b"
    using assms(3) by (simp add: session_publish_def Let_def)
  let ?frm = "\<lparr>from_typ = LastWill, from_id = ss_id s\<rparr>"
  have "\<exists>q. pub_topic q = lw_topic lw \<and> pub_payload q = lw_message lw
      \<and> in_channel (Forward ?frm q) cid (process_last_will X online rnd now ttl s b)"
    using inner_forwards_channel [OF assms(1), of ?frm "publish_of_will lw"] assms(2,4)
    by (simp add: process_last_will_def publish_of_will_def Let_def)
  then show "\<exists>q. pub_topic q = lw_topic lw \<and> pub_payload q = lw_message lw
      \<and> in_channel (Forward ?frm q) cid (session_end X K online rnd now ttl
          \<lparr>sf_kicked = False, sf_by_admin_kick = False, sf_clean_start = False, sf_disconnect_received = False\<rparr> False None s b)"
    by (simp add: session_end_def last_will_enable_def)
qed

theorem last_will_unchecked_witness:
  "\<exists>q. pub_topic q = ''a/u1'' \<and> pub_payload q = [9]
     \<and> in_channel (Forward \<lparr>from_typ = LastWill, from_id = ss_id (bob_session (Some bob_will))\<rparr> q) ''c1''
         (session_end sample_crates int_counter (\<lambda>_ _. True) (\<lambda>_ _ _. 0) 0 0
           \<lparr>sf_kicked = False, sf_by_admin_kick = False, sf_clean_start = False, sf_disconnect_received = False\<rparr>
           False None (bob_session (Some bob_will)) alice_subscribed)"
proof -
  have "\<not> publish_acl_is_allow (publish_acl_result acl_config_default (bob_session (Some bob_will)) (publish_of_will bob_will))"
    by code_simp
  moreover have "ss_last_will (bob_session (Some bob_will)) = Some bob_will" by (simp add: bob_session_def new_session_def)
  moreover have "lw_topic bob_will = ''a/u1''" "lw_message bob_will = [9]" by (simp_all add: bob_will_def)
  ultimately show ?thesis
    using last_will_unchecked [OF subscribed_router, of "bob_session (Some bob_will)" bob_will acl_config_default "''c1''"
        sample_crates "\<lambda>_ _. True" "\<lambda>_ _ _. 0" 0 0 int_counter] alice_subscriber by auto
qed

text \<open>
  C33. A session can be taken over by another user. Whoever authenticates with the client identifier of an
  existing session and asks to continue it gets, without a check of the access rules, the subscriptions of
  that session and the messages in its queue.
\<close>

theorem takeover_inherits:
  assumes "bk_peers b (id_client_id i) = Some e" and "client_authenticate ret = Some (su, info)"
    and "\<forall>tf \<in> fst ` set (ss_subscriptions (en_s e)). \<exists>f. topic_from_str tf = Inr f"
    and "distinct (map fst (ss_subscriptions (en_s e)))"
  shows "let b' = process_message X K acl cfg now (id_client_id i) (fst (handshake X K cfg i will False ret None b))
    in (\<forall>(tf, opts) \<in> set (ss_subscriptions (en_s e)). subscription (bk_router b') tf (id_client_id i) = Some (i, opts))
      \<and> (\<forall>(frm, p) \<in> set (q_inner (ss_deliver_queue (en_s e))). in_channel (Forward frm p) (id_client_id i) b')"
proof -
  let ?x = "to_offline_info X (en_s e)"
  let ?b1 = "b\<lparr>bk_peers := (bk_peers b)(id_client_id i \<mapsto>
         \<lparr>en_s = new_session X cfg i su info will, en_tx = [], en_closed = False\<rparr>)\<rparr>"
  have "open_for (id_client_id i) ?b1" by (simp add: open_for_def)
  note T = transfer_session_state_result [of ?x i ?b1, OF _ _ this]
  show ?thesis
    unfolding handshake_takes_over [OF assms(1,2)] Let_def
    using T assms(3,4) by (auto simp: to_offline_info_def)
qed

theorem takeover_inherits_witness:
  "subscription (bk_router (process_message sample_crates int_counter acl_config_default sample_cfg 0 ''c1''
       (fst (handshake sample_crates int_counter sample_cfg bob_ident None False
         (False, Some (AuthResult (AuthAllow False (Some bob_info)))) None alice_subscribed)))) ''+/u1/#'' ''c1''
     = Some (bob_ident, plain_opts)
   \<and> map_option sub_success (subscribe_acl_result acl_config_default (bob_session None) alice_sub) = Some None"
proof -
  have "map_option (\<lambda>e. ss_subscriptions (en_s e)) (bk_peers alice_subscribed ''c1'') = Some [(''+/u1/#'', plain_opts)]" by code_simp
  then obtain e where e: "bk_peers alice_subscribed (id_client_id bob_ident) = Some e"
    "ss_subscriptions (en_s e) = [(''+/u1/#'', plain_opts)]"
    by (auto simp: bob_ident_def alice_ident_def)
  have r: "client_authenticate (False, Some (AuthResult (AuthAllow False (Some bob_info)))) = Some (False, Some bob_info)"
    by (simp add: client_authenticate_def)
  have "map_option sub_success (subscribe_acl_result acl_config_default (bob_session None) alice_sub) = Some None" by code_simp
  with takeover_inherits [OF e(1) r, of sample_crates int_counter acl_config_default sample_cfg 0 None] e(2) sample_topic(2)
  show ?thesis by (simp add: Let_def bob_ident_def alice_ident_def)
qed

end
