(* ===== verification/Perf.thy ===== *)
theory Perf
  imports Startup
begin

text \<open>
  The load generator \<open>src/bin/perf.rs\<close>: its settings, the requests that create and delete the
  test users, the connection and acknowledgement loops of a client, and the plan of a round, that
  is which subscriber listens where and which publisher sends which messages. The MQTT client and
  the HTTP client come from other crates; what they report is an argument. The results of a
  round, the chart and the program as a whole are in \<open>Chart\<close> and \<open>Perf_Main\<close>.
\<close>

section \<open>Model\<close>

subsection \<open>Settings\<close>

record perf_settings =
  ps_nodes :: "(string \<times> nat) list"
  ps_api :: string
  ps_token :: string
  ps_sub_counts :: "nat list"
  ps_messages :: nat
  ps_devices_per_user :: nat
  ps_payload_size :: nat
  ps_publishers :: nat
  ps_inflight :: nat
  ps_channel_cap :: nat
  ps_out :: string

definition env_or :: "env \<Rightarrow> string \<Rightarrow> string \<Rightarrow> string" where
  "env_or env key dflt = (case env key of Some v \<Rightarrow> v | None \<Rightarrow> dflt)"

definition parse_or_err :: "nat \<Rightarrow> string \<Rightarrow> nat result" where
  "parse_or_err mx s =
     (case parse_uint mx s of Some n \<Rightarrow> Inr n | None \<Rightarrow> Inl (OtherError ''invalid digit''))"

definition parse_node :: "string \<Rightarrow> (string \<times> nat) result" where
  "parse_node s =
     (case rsplit_once (CHR '':'') (trim s) of
        None \<Rightarrow> Inl (OtherError (''bad node addr: '' @ s))
      | Some (h, p) \<Rightarrow> rbind (parse_or_err 65535 p) (\<lambda>n. Inr (h, n)))"

definition parse_count :: "string \<Rightarrow> string \<Rightarrow> nat result" where
  "parse_count what s =
     (case parse_uint usize_max (trim s) of
        Some n \<Rightarrow> Inr n
      | None \<Rightarrow> Inl (OtherError (what @ '' must be integers'')))"

definition parse_nodes :: "env \<Rightarrow> (string \<times> nat) list result" where
  "parse_nodes env =
     collect_results parse_node
       (split_on (CHR '','')
         (env_or env ''PERF_NODES'' ''127.0.0.1:1883,127.0.0.1:1884,127.0.0.1:1885''))"

definition load_settings :: "env \<Rightarrow> perf_settings result" where
  "load_settings env =
     rbind (parse_nodes env) (\<lambda>nodes.
     rbind (collect_results (parse_count ''PERF_SUBS'')
              (split_on (CHR '','') (env_or env ''PERF_SUBS'' ''100,500,1000,2500,5000,10000''))) (\<lambda>counts.
     rbind (parse_or_err (2 ^ 64 - 1) (env_or env ''PERF_MSGS'' ''10000'')) (\<lambda>messages.
     rbind (parse_or_err usize_max (env_or env ''PERF_DEVICES_PER_USER'' ''1'')) (\<lambda>devices.
     rbind (parse_or_err usize_max (env_or env ''PERF_PAYLOAD'' ''256'')) (\<lambda>payload.
     rbind (parse_or_err usize_max (env_or env ''PERF_PUBLISHERS'' ''8'')) (\<lambda>publishers.
     rbind (parse_or_err 65535 (env_or env ''PERF_INFLIGHT'' ''1000'')) (\<lambda>inflight.
     rbind (parse_or_err usize_max (env_or env ''PERF_CHANNEL'' ''2000'')) (\<lambda>channel.
       Inr \<lparr>ps_nodes = nodes, ps_api = env_or env ''PERF_API'' ''http://127.0.0.1:8090'',
            ps_token = env_or env ''API_TOKEN'' ''change-me'', ps_sub_counts = counts,
            ps_messages = messages, ps_devices_per_user = devices, ps_payload_size = payload,
            ps_publishers = publishers, ps_inflight = inflight, ps_channel_cap = channel,
            ps_out = env_or env ''PERF_OUT'' ''perf-results.svg''\<rparr>))))))))"

subsection \<open>Users\<close>

text \<open>
  \<open>create_user\<close> and \<open>delete_user\<close>: \<open>post\<close> sends a request with a bearer token and a body and gives
  the status of the response. The body has no \<open>admin\<close> field, which the server reads as false.
\<close>

definition perf_create_user ::
    "(string \<Rightarrow> string \<Rightarrow> create_user_req \<Rightarrow> nat result) \<Rightarrow> string \<Rightarrow> string \<Rightarrow> string \<Rightarrow> string \<Rightarrow> bool
     \<Rightarrow> unit result" where
  "perf_create_user post api token uname userid superuser =
     rbind (post (api @ ''/api/v1/users'') token
              \<lparr>cu_username = uname, cu_userid = userid, cu_password = ''perf-pass'',
               cu_superuser = superuser, cu_admin = False\<rparr>)
       (\<lambda>status. if status = 201 \<or> status = 409 then Inr ()
                 else Inl (HttpError (''creating '' @ uname)))"

definition perf_delete_url :: "string \<Rightarrow> string \<Rightarrow> string" where
  "perf_delete_url api uname = api @ ''/api/v1/users/'' @ uname"

text \<open>\<open>format!("{:x}", n)\<close>.\<close>

fun hex_string :: "nat \<Rightarrow> string" where
  "hex_string n =
     (if n < 16 then [hex_digit n] else hex_string (n div 16) @ [hex_digit (n mod 16)])"

declare hex_string.simps [simp del]

definition run_id_of :: "u64 \<Rightarrow> string" where
  "run_id_of now_nanos = hex_string (unat now_nanos div 1000000)"

definition user_name_at :: "string \<Rightarrow> nat \<Rightarrow> string" where
  "user_name_at run_id i = ''tok-'' @ run_id @ ''-'' @ nat_string i"

definition user_id_at :: "string \<Rightarrow> nat \<Rightarrow> string" where
  "user_id_at run_id i = ''uid-'' @ run_id @ ''-'' @ nat_string i"

definition chat_topic :: "string \<Rightarrow> string" where
  "chat_topic userid = ''chat/'' @ userid @ ''/m/all''"

subsection \<open>Client loops\<close>

text \<open>
  \<open>connect_subscriber\<close>: at most eight attempts with growing pauses. \<open>outcome k\<close> is the result of
  the \<open>k\<close>-th call of \<open>try_connect\<close>; the value is the list of pauses in milliseconds and the result.
\<close>

function connect_attempts :: "(nat \<Rightarrow> 'c result) \<Rightarrow> nat \<Rightarrow> nat list \<times> 'c result" where
  "connect_attempts outcome attempt =
     (case outcome attempt of
        Inr pair \<Rightarrow> ([], Inr pair)
      | Inl e \<Rightarrow>
          if attempt < 8
          then let (pauses, res) = connect_attempts outcome (attempt + 1) in (500 * attempt # pauses, res)
          else ([], Inl e))"
  by pat_completeness auto

termination
  by (relation "measure (\<lambda>(_, a). 8 - a)") auto

declare connect_attempts.simps [simp del]

text \<open>What the event loop of the MQTT client reports.\<close>

datatype mqtt_event =
    EvConnAck bool
  | EvSubAck "bool list"
  | EvPublish bytes u64
  | EvDisconnect
  | EvOther
  | EvError string

text \<open>The acknowledgement loops; the end of the list is the timeout.\<close>

fun await_connack :: "mqtt_event list \<Rightarrow> unit result" where
  "await_connack [] = Inl (OtherError ''connack timeout'')"
| "await_connack (EvConnAck success # evs) =
     (if success then Inr () else Inl (OtherError ''rejected''))"
| "await_connack (EvError e # evs) = Inl (OtherError (''connect failed: '' @ e))"
| "await_connack (ev # evs) = await_connack evs"

fun await_suback :: "mqtt_event list \<Rightarrow> unit result" where
  "await_suback [] = Inl (OtherError ''suback timeout'')"
| "await_suback (EvSubAck codes # evs) =
     (case codes of
        True # _ \<Rightarrow> Inr ()
      | _ \<Rightarrow> Inl (OtherError ''subscribe denied''))"
| "await_suback (EvError e # evs) = Inl (OtherError (''suback failed: '' @ e))"
| "await_suback (ev # evs) = await_suback evs"

text \<open>The time stamp at the front of a payload.\<close>

definition sent_stamp :: "bytes \<Rightarrow> u64 option" where
  "sent_stamp payload =
     Option.bind (from_utf8 payload) (\<lambda>s. u64_parse (hd (split_on (CHR ''|'') s)))"

text \<open>The task of a subscriber: the number of messages and the latencies it reports.\<close>

fun subscriber_task :: "mqtt_event list \<Rightarrow> nat \<times> u64 list" where
  "subscriber_task [] = (0, [])"
| "subscriber_task (EvPublish payload recv # evs) =
     (let (n, ls) = subscriber_task evs
      in (Suc n, (case sent_stamp payload of
                    Some sent \<Rightarrow> (if sent \<le> recv then recv - sent else 0) # ls
                  | None \<Rightarrow> ls)))"
| "subscriber_task (EvDisconnect # evs) = (0, [])"
| "subscriber_task (EvError e # evs) = (0, [])"
| "subscriber_task (ev # evs) = subscriber_task evs"

subsection \<open>The plan of a round\<close>

text \<open>The division panics without devices per user; that is \<open>None\<close>.\<close>

definition perf_users :: "nat \<Rightarrow> nat \<Rightarrow> nat option" where
  "perf_users devices subs =
     (if devices = 0 then None else Some ((subs + devices - 1) div devices))"

record subscriber_plan =
  sp_node :: "string \<times> nat"
  sp_client_id :: string
  sp_username :: string
  sp_topic :: string

definition subscriber_at :: "perf_settings \<Rightarrow> string \<Rightarrow> nat \<Rightarrow> subscriber_plan" where
  "subscriber_at s run_id i =
     (let user_idx = i div ps_devices_per_user s
      in \<lparr>sp_node = ps_nodes s ! (i mod length (ps_nodes s)),
          sp_client_id = ''perf-'' @ run_id @ ''-'' @ nat_string i,
          sp_username = user_name_at run_id user_idx,
          sp_topic = chat_topic (user_id_at run_id user_idx)\<rparr>)"

definition subscriber_plans :: "perf_settings \<Rightarrow> string \<Rightarrow> nat \<Rightarrow> subscriber_plan list" where
  "subscriber_plans s run_id subs = map (subscriber_at s run_id) [0..<subs]"

definition expected_deliveries :: "perf_settings \<Rightarrow> nat" where
  "expected_deliveries s = ps_messages s * ps_devices_per_user s"

definition num_pubs :: "perf_settings \<Rightarrow> nat" where
  "num_pubs s = max (ps_publishers s) 1"

definition per_publisher :: "perf_settings \<Rightarrow> nat" where
  "per_publisher s = (ps_messages s + num_pubs s - 1) div num_pubs s"

definition publisher_seqs :: "perf_settings \<Rightarrow> nat \<Rightarrow> nat list" where
  "publisher_seqs s p =
     [p * per_publisher s ..< min ((p + 1) * per_publisher s) (ps_messages s)]"

definition message_topic :: "string \<Rightarrow> nat \<Rightarrow> nat \<Rightarrow> string" where
  "message_topic run_id users seq = chat_topic (user_id_at run_id (seq mod users))"

text \<open>The payload of a message, \<open>padding\<close> being \<open>x\<close> repeated.\<close>

definition message_payload :: "u64 \<Rightarrow> nat \<Rightarrow> string" where
  "message_payload now payload_size = nat_string (unat now) @ ''|'' @ replicate payload_size (CHR ''x'')"

text \<open>
  The wait for the deliveries: the observations are the counter and the instant of each turn of
  the loop; the value says whether all messages arrived.
\<close>

fun wait_deliveries ::
    "nat \<Rightarrow> instant \<Rightarrow> nat \<Rightarrow> instant \<Rightarrow> (nat \<times> instant) list \<Rightarrow> bool option" where
  "wait_deliveries expected deadline last_count last_progress [] = None"
| "wait_deliveries expected deadline last_count last_progress ((count, now) # obs) =
     (if count \<ge> expected then Some True
      else
        let (last_count, last_progress) =
              (if count \<noteq> last_count then (count, now) else (last_count, last_progress))
        in if now > last_progress + secs 15 \<or> now > deadline then Some False
           else wait_deliveries expected deadline last_count last_progress obs)"

section \<open>Settings\<close>

lemma collect_results_length: "collect_results f xs = Inr ys \<Longrightarrow> length ys = length xs"
  by (auto simp: collect_results_Inr dest: list_all2_lengthD)

text \<open>The list of nodes is never empty, so that \<open>i % nodes.len()\<close> is defined.\<close>

lemma parse_nodes_ne: "parse_nodes env = Inr nodes \<Longrightarrow> nodes \<noteq> []"
  using collect_results_length [of parse_node _ nodes] split_on_ne
  unfolding parse_nodes_def by (metis length_0_conv)

lemma load_settings_nodes: "load_settings env = Inr s \<Longrightarrow> ps_nodes s \<noteq> []"
  using parse_nodes_ne by (auto simp: load_settings_def)

section \<open>Connecting\<close>

lemma connect_attempts_result:
  assumes "connect_attempts outcome a = (pauses, res)" and "1 \<le> a" and "a \<le> 8"
  shows "pauses = map (\<lambda>k. 500 * k) [a ..< a + length pauses] \<and> a + length pauses \<le> 8
    \<and> (\<forall>k. a \<le> k \<and> k < a + length pauses \<longrightarrow> (\<exists>e. outcome k = Inl e))
    \<and> outcome (a + length pauses) = res \<and> (\<forall>e. res = Inl e \<longrightarrow> a + length pauses = 8)"
  using assms
proof (induction outcome a arbitrary: pauses rule: connect_attempts.induct)
  case (1 outcome a)
  show ?case
  proof (cases "outcome a")
    case (Inr pair)
    then have "pauses = []" "res = Inr pair"
      using 1(2) by (simp_all add: connect_attempts.simps [of outcome a])
    then show ?thesis using 1(4) Inr by auto
  next
    case (Inl e)
    show ?thesis
    proof (cases "a < 8")
      case False
      then have "pauses = []" "res = Inl e"
        using 1(2) Inl by (simp_all add: connect_attempts.simps [of outcome a])
      then show ?thesis using 1(4) Inl False by auto
    next
      case True
      obtain ps r where c: "connect_attempts outcome (a + 1) = (ps, r)" by fastforce
      then have p: "pauses = 500 * a # ps" "res = r"
        using 1(2) Inl True by (simp_all add: connect_attempts.simps [of outcome a])
      have "connect_attempts outcome (a + 1) = (ps, res)" using c p by simp
      note IH = 1(1) [OF Inl True this] 
      have up: "[a ..< a + length pauses] = a # [a + 1 ..< a + 1 + length ps]"
        using p upt_conv_Cons [of a "a + length pauses"] by simp
      have "\<exists>e. outcome k = Inl e" if "a \<le> k \<and> k < a + length pauses" for k
        using that IH True p Inl by (cases "k = a") auto
      moreover have "pauses = map (\<lambda>k. 500 * k) [a ..< a + length pauses]"
        unfolding up using IH True p by simp
      ultimately show ?thesis using IH True p by simp
    qed
  qed
qed

section \<open>Dividing the messages among the publishers\<close>

lemma per_publisher_covers: "ps_messages s \<le> num_pubs s * per_publisher s"
proof -
  define n m where "n = num_pubs s" and "m = ps_messages s"
  have n: "0 < n" by (simp add: n_def num_pubs_def)
  have "m + n - 1 < n + n * ((m + n - 1) div n)" using dividend_less_times_div [OF n] .
  with n show ?thesis by (simp add: per_publisher_def flip: n_def m_def)
qed

lemma publisher_seqs_prefix:
  "concat (map (publisher_seqs s) [0..<k]) = [0..<min (k * per_publisher s) (ps_messages s)]"
proof (induction k)
  case (Suc k)
  let ?a = "k * per_publisher s" and ?b = "(k + 1) * per_publisher s" and ?m = "ps_messages s"
  have "[0..<min ?a ?m] @ [?a..<min ?b ?m] = [0..<min ?b ?m]"
  proof (cases "?a \<le> ?m")
    case True
    then have "?a \<le> min ?b ?m" by simp
    then have "[0..<min ?b ?m] = [0..<?a] @ [?a..<min ?b ?m]"
      by (metis le0 le_add_diff_inverse upt_add_eq_append)
    with True show ?thesis by (simp add: min_absorb1)
  next
    case False
    then have "min ?b ?m = ?m" "min ?a ?m = ?m" by simp_all
    with False show ?thesis by simp
  qed
  with Suc show ?case by (simp add: publisher_seqs_def add.commute)
qed simp

lemma publisher_seqs_all:
  "concat (map (publisher_seqs s) [0..<num_pubs s]) = [0..<ps_messages s]"
  unfolding publisher_seqs_prefix using per_publisher_covers [of s] by (simp add: min_absorb2)

section \<open>Who receives a message\<close>

lemma nat_string_ne: "nat_string n \<noteq> []"
  by (subst nat_string.simps) simp

lemma digit_char_inj: "a < 10 \<Longrightarrow> b < 10 \<Longrightarrow> (char_of (48 + a) :: char) = char_of (48 + b) \<Longrightarrow> a = (b :: nat)"
  by (auto dest!: arg_cong [where f = "of_char :: char \<Rightarrow> nat"])

lemma nat_string_inj: "nat_string m = nat_string n \<Longrightarrow> m = n"
proof (induction m arbitrary: n rule: nat_string.induct)
  case (1 m)
  show ?case
  proof (cases "m < 10"; cases "n < 10")
    assume "m < 10" "n < 10"
    then show ?thesis
      using 1(2) digit_char_inj by (simp add: nat_string.simps [of m] nat_string.simps [of n])
  next
    assume mn: "\<not> m < 10" "\<not> n < 10"
    then have "nat_string (m div 10) = nat_string (n div 10)"
      and "char_of (48 + m mod 10) = (char_of (48 + n mod 10) :: char)"
      using 1(2) by (simp_all add: nat_string.simps [of m] nat_string.simps [of n])
    then have "m div 10 = n div 10" "m mod 10 = n mod 10"
      using 1(1) [OF mn(1)] digit_char_inj by simp_all
    then show ?thesis by (metis div_mult_mod_eq)
  next
    assume "m < 10" "\<not> n < 10"
    then show ?thesis
      using 1(2) nat_string_ne [of "n div 10"] by (simp add: nat_string.simps [of m] nat_string.simps [of n])
  next
    assume "\<not> m < 10" "n < 10"
    then show ?thesis
      using 1(2) nat_string_ne [of "m div 10"] by (simp add: nat_string.simps [of m] nat_string.simps [of n])
  qed
qed

lemma chat_topic_user_inj: "chat_topic (user_id_at r i) = chat_topic (user_id_at r j) \<longleftrightarrow> i = j"
  using nat_string_inj by (auto simp: chat_topic_def user_id_at_def)

definition listeners_of :: "perf_settings \<Rightarrow> string \<Rightarrow> nat \<Rightarrow> string \<Rightarrow> nat" where
  "listeners_of s run_id subs topic =
     length (filter (\<lambda>p. sp_topic p = topic) (subscriber_plans s run_id subs))"

definition total_deliveries :: "perf_settings \<Rightarrow> string \<Rightarrow> nat \<Rightarrow> nat \<Rightarrow> nat" where
  "total_deliveries s run_id subs users =
     (\<Sum>seq < ps_messages s. listeners_of s run_id subs (message_topic run_id users seq))"

lemma div_range: "0 < d \<Longrightarrow> i div d = u \<longleftrightarrow> u * d \<le> i \<and> i < Suc u * (d :: nat)"
proof
  assume "0 < d" and "i div d = u"
  then show "u * d \<le> i \<and> i < Suc u * d"
    using dividend_less_times_div [of d i] by (auto simp: mult.commute [of d])
next
  assume "u * d \<le> i \<and> i < Suc u * d"
  then show "i div d = u" by (intro div_nat_eqI) (simp_all add: mult.commute)
qed

lemma ceil_div:
  assumes "0 < (d :: nat)"
  shows "(n + d - 1) div d = n div d + (if d dvd n then 0 else 1)"
proof -
  define q r where "q = n div d" and "r = n mod d"
  have n: "n = d * q + r" and r: "r < d" using assms by (simp_all add: q_def r_def)
  have dv: "d dvd n \<longleftrightarrow> r = 0" by (simp add: r_def dvd_eq_mod_eq_0)
  show ?thesis
  proof (cases "r = 0")
    case True
    have "(n + d - 1) div d = q" using n r True assms by (intro div_nat_eqI) simp_all
    then show ?thesis using True dv by (simp add: q_def)
  next
    case False
    have "(n + d - 1) div d = Suc q" using n r False by (intro div_nat_eqI) simp_all
    then show ?thesis using False dv by (simp add: q_def)
  qed
qed

lemma listeners_of_user:
  assumes "0 < ps_devices_per_user s"
  shows "listeners_of s run_id subs (chat_topic (user_id_at run_id u)) =
     min ((u + 1) * ps_devices_per_user s) subs - u * ps_devices_per_user s"
proof -
  let ?d = "ps_devices_per_user s"
  have "listeners_of s run_id subs (chat_topic (user_id_at run_id u)) = card {i. i < subs \<and> i div ?d = u}"
    by (simp add: listeners_of_def subscriber_plans_def subscriber_at_def Let_def filter_map comp_def
        chat_topic_user_inj length_filter_conv_card cong: conj_cong)
  also have "{i. i < subs \<and> i div ?d = u} = {u * ?d ..< min ((u + 1) * ?d) subs}"
    by (auto simp: div_range [OF assms])
  finally show ?thesis by simp
qed

lemma listeners_of_le:
  "0 < ps_devices_per_user s \<Longrightarrow>
   listeners_of s run_id subs (chat_topic (user_id_at run_id u)) \<le> ps_devices_per_user s"
  by (simp add: listeners_of_user)

lemma listeners_of_full:
  assumes "0 < ps_devices_per_user s" and "ps_devices_per_user s dvd subs"
    and "perf_users (ps_devices_per_user s) subs = Some users" and "u < users"
  shows "listeners_of s run_id subs (chat_topic (user_id_at run_id u)) = ps_devices_per_user s"
proof -
  let ?d = "ps_devices_per_user s"
  obtain k where k: "subs = ?d * k" using assms(2) by blast
  have "users = k" using assms(1,3) k ceil_div [OF assms(1), of subs] by (simp add: perf_users_def)
  then have "Suc u * ?d \<le> k * ?d" using assms(4) by (intro mult_le_mono1) simp
  then have "(u + 1) * ?d \<le> subs" using k by (simp add: mult.commute)
  then show ?thesis using assms(1) by (simp add: listeners_of_user)
qed

text \<open>The last user has fewer devices when the subscribers do not divide evenly.\<close>

lemma listeners_of_last:
  assumes "0 < ps_devices_per_user s" and "\<not> ps_devices_per_user s dvd subs"
    and "perf_users (ps_devices_per_user s) subs = Some users"
  shows "0 < users \<and> listeners_of s run_id subs (chat_topic (user_id_at run_id (users - 1)))
     < ps_devices_per_user s"
proof -
  let ?d = "ps_devices_per_user s"
  have r: "0 < subs mod ?d" "subs mod ?d < ?d" using assms(1,2) by (auto simp: dvd_eq_mod_eq_0)
  have sub: "subs = ?d * (subs div ?d) + subs mod ?d" by simp
  have u: "users = Suc (subs div ?d)"
    using assms ceil_div [OF assms(1), of subs] by (simp add: perf_users_def)
  have "subs < Suc (subs div ?d) * ?d" using sub r by (metis add.commute add_less_cancel_right mult.commute mult_Suc)
  then have "min (Suc (subs div ?d) * ?d) subs - subs div ?d * ?d = subs mod ?d"
    by (simp add: min_absorb2 modulo_nat_def)
  then show ?thesis using u r by (simp add: listeners_of_user [OF assms(1)])
qed

lemma total_deliveries_le:
  "0 < ps_devices_per_user s \<Longrightarrow> total_deliveries s run_id subs users \<le> expected_deliveries s"
proof -
  assume d: "0 < ps_devices_per_user s"
  have "total_deliveries s run_id subs users \<le> (\<Sum>seq < ps_messages s. ps_devices_per_user s)"
    unfolding total_deliveries_def message_topic_def by (intro sum_mono listeners_of_le [OF d])
  then show ?thesis by (simp add: expected_deliveries_def)
qed

lemma total_deliveries_exact:
  assumes "0 < ps_devices_per_user s" and "ps_devices_per_user s dvd subs" and "0 < subs"
    and "perf_users (ps_devices_per_user s) subs = Some users"
  shows "total_deliveries s run_id subs users = expected_deliveries s"
proof -
  have "0 < users"
    using assms ceil_div [OF assms(1), of subs] by (auto simp: perf_users_def elim!: dvdE)
  then show ?thesis
    using listeners_of_full [OF assms(1,2,4)]
    by (simp add: total_deliveries_def message_topic_def expected_deliveries_def)
qed

lemma total_deliveries_short:
  assumes "0 < ps_devices_per_user s" and "\<not> ps_devices_per_user s dvd subs"
    and "perf_users (ps_devices_per_user s) subs = Some users" and "users \<le> ps_messages s"
  shows "total_deliveries s run_id subs users < expected_deliveries s"
proof -
  note l = listeners_of_last [OF assms(1-3), of run_id]
  have "total_deliveries s run_id subs users < (\<Sum>seq < ps_messages s. ps_devices_per_user s)"
    unfolding total_deliveries_def message_topic_def
  proof (rule sum_strict_mono_ex1)
    show "\<forall>seq \<in> {..<ps_messages s}. listeners_of s run_id subs (chat_topic (user_id_at run_id (seq mod users)))
        \<le> ps_devices_per_user s" using listeners_of_le [OF assms(1)] by blast
    have "users - 1 \<in> {..<ps_messages s}" "(users - 1) mod users = users - 1"
      using l assms(4) by auto
    then show "\<exists>seq \<in> {..<ps_messages s}. listeners_of s run_id subs
        (chat_topic (user_id_at run_id (seq mod users))) < ps_devices_per_user s"
      using l by metis
  qed simp
  then show ?thesis by (simp add: expected_deliveries_def)
qed

section \<open>The names of the test users\<close>

lemma alnum_decimal: "d < 10 \<Longrightarrow> is_ascii_alphanumeric (char_of (48 + d :: nat))"
  by (simp add: is_ascii_alphanumeric_def Let_def)

lemma alnum_hex: "d < 16 \<Longrightarrow> is_ascii_alphanumeric (hex_digit d)"
  by (auto simp: is_ascii_alphanumeric_def hex_digit_def Let_def)

lemma nat_string_alnum: "list_all is_ascii_alphanumeric (nat_string n)"
proof (induction n rule: nat_string.induct)
  case (1 n)
  then show ?case
    using alnum_decimal [of n] alnum_decimal [of "n mod 10"]
    by (cases "n < 10") (simp_all add: nat_string.simps [of n])
qed

lemma hex_string_alnum: "list_all is_ascii_alphanumeric (hex_string n)"
proof (induction n rule: hex_string.induct)
  case (1 n)
  then show ?case
    using alnum_hex [of n] alnum_hex [of "n mod 16"]
    by (cases "n < 16") (simp_all add: hex_string.simps [of n])
qed

lemma length_nat_string: "n < 10 ^ Suc k \<Longrightarrow> length (nat_string n) \<le> Suc k"
proof (induction k arbitrary: n)
  case 0
  then show ?case by (simp add: nat_string.simps [of n])
next
  case (Suc k)
  show ?case
  proof (cases "n < 10")
    case False
    have "n div 10 < 10 ^ Suc k" using Suc.prems by (simp add: less_mult_imp_div_less mult.commute)
    from Suc.IH [OF this] False show ?thesis by (simp add: nat_string.simps [of n])
  qed (simp add: nat_string.simps [of n])
qed

lemma length_hex_string: "n < 16 ^ Suc k \<Longrightarrow> length (hex_string n) \<le> Suc k"
proof (induction k arbitrary: n)
  case 0
  then show ?case by (simp add: hex_string.simps [of n])
next
  case (Suc k)
  show ?case
  proof (cases "n < 16")
    case False
    have "n div 16 < 16 ^ Suc k" using Suc.prems by (simp add: less_mult_imp_div_less mult.commute)
    from Suc.IH [OF this] False show ?thesis by (simp add: hex_string.simps [of n])
  qed (simp add: hex_string.simps [of n])
qed

lemma length_run_id: "length (run_id_of now) \<le> 12"
proof -
  have "unat now < 2 ^ 64" using unsigned_less [of now, where ?'a = nat] by simp
  then have "unat now div 1000000 < 16 ^ Suc 11"
    using div_le_mono [of "unat now" "2 ^ 64" 1000000] by simp
  then show ?thesis using length_hex_string [of "unat now div 1000000" 11] by (simp add: run_id_of_def)
qed

lemma alnum_graphic: "is_ascii_alphanumeric c \<Longrightarrow> is_ascii_graphic c"
  by (auto simp: is_ascii_alphanumeric_def is_ascii_graphic_def Let_def)

lemma perf_name_chars:
  assumes "list_all is_ascii_alphanumeric r" and "length r \<le> 12" and "i < 2 ^ 64"
  shows "valid_username (user_name_at r i) \<and> valid_segment (user_id_at r i)"
proof -
  have l: "length (nat_string i) \<le> Suc 19" by (rule length_nat_string) (use assms(3) in simp)
  have ch: "list_all is_ascii_alphanumeric (nat_string i)" by (rule nat_string_alnum)
  have lit: "is_ascii_graphic (CHR ''t'')" "is_ascii_graphic (CHR ''o'')" "is_ascii_graphic (CHR ''k'')"
    "is_ascii_graphic (CHR ''-'')" "is_ascii_alphanumeric (CHR ''u'')" "is_ascii_alphanumeric (CHR ''i'')"
    "is_ascii_alphanumeric (CHR ''d'')"
    by (simp_all add: is_ascii_graphic_def is_ascii_alphanumeric_def)
  have "valid_username (user_name_at r i)"
    using assms(1,2) l ch lit alnum_graphic
    by (auto simp: valid_username_def user_name_at_def list_all_iff)
  moreover have "valid_segment (user_id_at r i)"
    using assms(1,2) l ch lit by (auto simp: valid_segment_def user_id_at_def list_all_iff)
  ultimately show ?thesis ..
qed

lemma perf_names_valid:
  "i < 2 ^ 64 \<Longrightarrow> valid_username (user_name_at (run_id_of now) i) \<and> valid_segment (user_id_at (run_id_of now) i)"
  by (rule perf_name_chars [OF _ length_run_id]) (simp_all add: run_id_of_def hex_string_alnum)

text \<open>The status that the modelled server answers with.\<close>

definition server_post ::
    "'s user_store \<Rightarrow> ('p, 'h, 'j) externals \<Rightarrow> api_call \<Rightarrow> 's app_state
     \<Rightarrow> string \<Rightarrow> string \<Rightarrow> create_user_req \<Rightarrow> nat result" where
  "server_post U E c st url token req =
     Inr (rsp_status (fst (snd (management_router U E c (Some (''Bearer '' @ token)) (RqCreateUser req) st))))"

lemma provisioning_accepted:
  assumes "token_matches token st" and "call_joined c" and "i < 2 ^ 64"
    and "hash_password (ext_argon2 E) (ext_env E) (call_salt c) ''perf-pass'' = Inr h"
    and "\<forall>nu. \<exists>db b. us_insert_user U nu (st_db st) = (db, Inr b)"
  shows "perf_create_user (server_post U E c st) api token
     (user_name_at (run_id_of now) i) (user_id_at (run_id_of now) i) su = Inr ()"
proof -
  let ?req = "\<lparr>cu_username = user_name_at (run_id_of now) i, cu_userid = user_id_at (run_id_of now) i,
     cu_password = ''perf-pass'', cu_superuser = su, cu_admin = False\<rparr>"
  have auth: "authorize (call_vault c) (call_now c) (Some (''Bearer '' @ token)) st = (st, True)"
    using assms(1) by (simp add: authorize_def bearer_of_def strip_prefix_eq [THEN iffD2])
  obtain st' rsp out where cu: "create_user U E (call_salt c) (call_joined c) ?req st = (st', rsp, out)"
    by (metis prod_cases3)
  have "rsp_status rsp = 201 \<or> rsp_status rsp = 409"
  proof -
    note v = perf_names_valid [OF assms(3), of now]
    obtain db b where ins: "us_insert_user U \<lparr>nu_username = user_name_at (run_id_of now) i,
        nu_userid = user_id_at (run_id_of now) i, nu_password_hash = h, nu_superuser = su,
        nu_admin = False\<rparr> (st_db st) = (db, Inr b)" using assms(5) by blast
    show ?thesis
      using cu v assms(2,4) ins by (cases b) (auto simp: create_user_def Let_def)
  qed
  moreover have "management_router U E c (Some (''Bearer '' @ token)) (RqCreateUser ?req) st = (st', rsp, out)"
    unfolding management_router_def require_token_def auth using cu by (simp add: route_def)
  ultimately show ?thesis
    by (simp only: perf_create_user_def server_post_def rbind_Inr fst_conv snd_conv) simp
qed

text \<open>A test user may subscribe to the topic of its round.\<close>

lemma chat_subscription_granted:
  assumes "acl_enabled acl" and "\<not> ur_superuser r" and "valid_segment (ur_userid r)"
    and "sub_topic_filter sub = chat_topic (ur_userid r)"
  shows "subscribe_check_acl acl (Some (build_auth_info r acl ci)) sub =
     (False, Some (SubscribeAclResult (sub_new_success (opts_qos (sub_opts sub)) None)))"
proof -
  let ?f = "''+/'' @ ur_userid r @ ''/#''"
  have lv: "level_from_str (ur_userid r) = Inr (Normal (ur_userid r))"
    by (rule valid_segment_level [OF assms(3)])
  then have nm: "\<not> is_metadata (ur_userid r)" using level_from_str_valid [OF lv] by simp
  have ns: "CHR ''/'' \<notin> set (ur_userid r)" using valid_segment_chars [OF assms(3)] by blast
  have sp: "split_on (CHR ''/'') (chat_topic (ur_userid r)) = [''chat'', ur_userid r, ''m'', ''all'']"
    using split_on_append_sep [of "CHR ''/''" "''chat''" "ur_userid r @ ''/m/all''"]
      split_on_append_sep [OF ns, of "''m/all''"] ns by (simp add: chat_topic_def)
  have "?f \<in> set (acl_filters r acl)" by (simp add: acl_filters_def)
  moreover have "acl_topic_is_match
      \<lparr>at_eq_filter = None, at_topic_filter = Some [SingleWildcard, Normal (ur_userid r), MultiWildcard]\<rparr>
      (sub_topic_filter sub)"
    using nm sp by (simp add: assms(4) acl_topic_is_match_def matches_str_def is_metadata_def)
  ultimately have "\<exists>f \<in> set (acl_filters r acl). \<exists>t. acl_topic_try_from f ci = Inr t
      \<and> acl_topic_is_match t (sub_topic_filter sub)"
    using acl_user_try_from [OF assms(3), of ci] by blast
  then show ?thesis
    unfolding subscribe_check_build [OF assms(1,2)] by (simp only: if_True)
qed

end
