(* ===== verification/Perf_Resources.thy ===== *)
theory Perf_Resources
  imports Perf "HOL-Library.AList"
begin

text \<open>
  The resource benchmark \<open>src/bin/perf_resources.rs\<close>: settings, the lookup of the containers, the
  reading of \<open>docker stats\<close>, the averages of a level, and the loop that ramps up the subscribers
  and measures every scenario at every level. The outputs of the docker commands, the outcomes of
  the connection attempts and the clock are arguments. The type of 64-bit floating-point numbers
  is a parameter with its operations, parsing and printing included. The tables of results and the
  data of the charts are modelled here, their layout in \<open>Chart\<close>.
\<close>

section \<open>Model\<close>

subsection \<open>Settings\<close>

record res_settings =
  rs_nodes :: "(string \<times> nat) list"
  rs_api :: string
  rs_token :: string
  rs_sub_levels :: "nat list"
  rs_devices_per_user :: nat
  rs_services :: "string list"
  rs_settle_secs :: nat
  rs_samples :: nat
  rs_msg_rate :: nat
  rs_payload_size :: nat
  rs_out :: string

text \<open>\<open>Vec::dedup\<close> removes repeated neighbours.\<close>

fun dedup :: "'a list \<Rightarrow> 'a list" where
  "dedup [] = []"
| "dedup [x] = [x]"
| "dedup (x # y # zs) = (if x = y then dedup (x # zs) else x # dedup (y # zs))"

definition res_load_settings :: "env \<Rightarrow> res_settings result" where
  "res_load_settings env =
     rbind (parse_nodes env) (\<lambda>nodes.
     rbind (collect_results (parse_count ''PERF_RES_SUBS'')
              (split_on (CHR '','') (env_or env ''PERF_RES_SUBS'' ''0,1000,2500,5000''))) (\<lambda>levels.
     rbind (parse_or_err usize_max (env_or env ''PERF_DEVICES_PER_USER'' ''1'')) (\<lambda>devices.
     rbind (parse_or_err (2 ^ 64 - 1) (env_or env ''PERF_SETTLE_SECS'' ''10'')) (\<lambda>settle.
     rbind (parse_or_err usize_max (env_or env ''PERF_SAMPLES'' ''3'')) (\<lambda>samples.
     rbind (parse_or_err (2 ^ 32 - 1) (env_or env ''PERF_RES_MSG_RATE'' ''10'')) (\<lambda>rate.
     rbind (parse_or_err usize_max (env_or env ''PERF_RES_PAYLOAD'' ''64'')) (\<lambda>payload.
       Inr \<lparr>rs_nodes = nodes, rs_api = env_or env ''PERF_API'' ''http://127.0.0.1:8090'',
            rs_token = env_or env ''API_TOKEN'' ''change-me'', rs_sub_levels = dedup (sort levels),
            rs_devices_per_user = devices,
            rs_services = map trim (split_on (CHR '','') (env_or env ''PERF_SERVICES'' ''node1,node2,node3'')),
            rs_settle_secs = settle, rs_samples = samples, rs_msg_rate = rate,
            rs_payload_size = payload,
            rs_out = env_or env ''PERF_RES_OUT'' ''perf-resources.svg''\<rparr>)))))))"

subsection \<open>Containers\<close>

text \<open>
  The outcome of a docker command: it cannot be run, or it exits with a success flag, its standard
  output and its standard error as text.
\<close>

type_synonym command_output = "(bool \<times> string \<times> string) result"

text \<open>\<open>str::lines\<close>: a line ends with a line feed, which an optional carriage return precedes.\<close>

definition chop_cr :: "string \<Rightarrow> string" where
  "chop_cr l = (if l \<noteq> [] \<and> last l = CHR 0x0D then butlast l else l)"

definition lines :: "string \<Rightarrow> string list" where
  "lines s =
     (let ps = split_on (CHR 0x0A) s
      in map chop_cr (butlast ps) @ (if last ps = [] then [] else [last ps]))"

definition resolve_container :: "(string \<Rightarrow> command_output) \<Rightarrow> string \<Rightarrow> string result" where
  "resolve_container docker_ps svc =
     rbind (docker_ps svc) (\<lambda>(success, out, err).
       if \<not> success then Inl (OtherError (''docker ps failed: '' @ err))
       else
         let ident = trim (case lines out of l # _ \<Rightarrow> l | [] \<Rightarrow> [])
         in if ident = [] then Inl (OtherError (''no running container for compose service '' @ svc))
            else Inr ident)"

definition resolve_containers :: "(string \<Rightarrow> command_output) \<Rightarrow> string list \<Rightarrow> string list result" where
  "resolve_containers docker_ps services = collect_results (resolve_container docker_ps) services"

record 'f f64_ops =
  f_parse :: "string \<Rightarrow> 'f option"
  f_of_nat :: "nat \<Rightarrow> 'f"
  f_add :: "'f \<Rightarrow> 'f \<Rightarrow> 'f"
  f_sub :: "'f \<Rightarrow> 'f \<Rightarrow> 'f"
  f_mul :: "'f \<Rightarrow> 'f \<Rightarrow> 'f"
  f_div :: "'f \<Rightarrow> 'f \<Rightarrow> 'f"
  f_max :: "'f \<Rightarrow> 'f \<Rightarrow> 'f"
  f_ge :: "'f \<Rightarrow> 'f \<Rightarrow> bool"
  f_positive :: "'f \<Rightarrow> bool"
  f_to_usize :: "'f \<Rightarrow> nat"
  f_show :: "'f \<Rightarrow> string"
  f_fixed :: "nat \<Rightarrow> 'f \<Rightarrow> string"

definition strip_suffix :: "string \<Rightarrow> string \<Rightarrow> string option" where
  "strip_suffix p s = map_option rev (strip_prefix (rev p) (rev s))"

text \<open>The table of suffixes, tried in this order.\<close>

definition mem_scales :: "'f f64_ops \<Rightarrow> (string \<times> 'f) list" where
  "mem_scales F =
     (let k = f_of_nat F 1024; one = f_of_nat F 1
      in [(''TiB'', f_mul F k k), (''GiB'', k), (''MiB'', one), (''KiB'', f_div F one k),
          (''B'', f_div F one (f_mul F k k))])"

fun parse_mem_with :: "'f f64_ops \<Rightarrow> (string \<times> 'f) list \<Rightarrow> string \<Rightarrow> 'f result" where
  "parse_mem_with F [] s = Inl (OtherError (''cannot parse memory value: '' @ s))"
| "parse_mem_with F ((suffix, scale) # scales) s =
     (case strip_suffix suffix s of
        Some num \<Rightarrow>
          (case f_parse F (trim num) of
             Some x \<Rightarrow> Inr (f_mul F x scale)
           | None \<Rightarrow> Inl (OtherError ''invalid float literal''))
      | None \<Rightarrow> parse_mem_with F scales s)"

definition parse_mem_mb :: "'f f64_ops \<Rightarrow> string \<Rightarrow> 'f result" where
  "parse_mem_mb F s = parse_mem_with F (mem_scales F) s"

text \<open>One line of \<open>docker stats\<close>; a line without three parts is skipped.\<close>

definition stats_line :: "'f f64_ops \<Rightarrow> string \<Rightarrow> (string \<times> 'f \<times> 'f) option result" where
  "stats_line F line =
     (case split_on (CHR '';'') (trim line) of
        [a, b, c] \<Rightarrow>
          let cpu = (case f_parse F (trim_end_matches (CHR ''%'') (trim b)) of
                       Some x \<Rightarrow> x | None \<Rightarrow> f_of_nat F 0)
          in rbind (parse_mem_mb F (trim (hd (split_on (CHR ''/'') c))))
               (\<lambda>mem. Inr (Some (trim a, cpu, mem)))
      | _ \<Rightarrow> Inr None)"

fun stats_table :: "'f f64_ops \<Rightarrow> string list \<Rightarrow> (string \<times> 'f \<times> 'f) list \<Rightarrow> (string \<times> 'f \<times> 'f) list result" where
  "stats_table F [] by_id = Inr by_id"
| "stats_table F (l # ls) by_id =
     rbind (stats_line F l)
       (\<lambda>e. stats_table F ls (case e of Some (k, v) \<Rightarrow> AList.update k v by_id | None \<Rightarrow> by_id))"

definition starts_with :: "string \<Rightarrow> string \<Rightarrow> bool" where
  "starts_with s p \<longleftrightarrow> strip_prefix p s \<noteq> None"

text \<open>The first entry, in the order in which the table is traversed, one of whose names begins the other.\<close>

definition stats_of :: "(string \<times> 'f \<times> 'f) list \<Rightarrow> string \<Rightarrow> ('f \<times> 'f) result" where
  "stats_of entries ident =
     (case find (\<lambda>(k, _). starts_with ident k \<or> starts_with k ident) entries of
        Some (_, v) \<Rightarrow> Inr v
      | None \<Rightarrow> Inl (OtherError (''no stats for container '' @ ident)))"

text \<open>\<open>iter\<close> is the order of iteration over the hash map.\<close>

definition sample_stats ::
    "'f f64_ops \<Rightarrow> ((string \<times> 'f \<times> 'f) list \<Rightarrow> (string \<times> 'f \<times> 'f) list) \<Rightarrow> command_output
     \<Rightarrow> string list \<Rightarrow> ('f \<times> 'f) list result" where
  "sample_stats F iter docker_stats ids =
     rbind docker_stats (\<lambda>(success, out, err).
       if \<not> success then Inl (OtherError (''docker stats failed: '' @ err))
       else rbind (stats_table F (lines out) []) (\<lambda>by_id. collect_results (stats_of (iter by_id)) ids))"

subsection \<open>Measuring\<close>

record 'f level_result =
  lr_subscribers :: nat
  lr_cpu_pct :: "'f list"
  lr_mem_mb :: "'f list"
  lr_cpu_total_pct :: 'f
  lr_mem_total_mb :: 'f
  lr_msg_per_sec :: 'f

text \<open>The sums of the samples, container by container.\<close>

fun sum_samples ::
    "'f f64_ops \<Rightarrow> ('f \<times> 'f) list result list \<Rightarrow> 'f list \<Rightarrow> 'f list \<Rightarrow> ('f list \<times> 'f list) result" where
  "sum_samples F [] cpu mem = Inr (cpu, mem)"
| "sum_samples F (s # ss) cpu mem =
     rbind s (\<lambda>stats. sum_samples F ss (map2 (\<lambda>a (c, _). f_add F a c) cpu stats)
                        (map2 (\<lambda>a (_, m). f_add F a m) mem stats))"

definition f_sum :: "'f f64_ops \<Rightarrow> 'f list \<Rightarrow> 'f" where
  "f_sum F xs = foldl (f_add F) (f_of_nat F 0) xs"

text \<open>
  \<open>measure_level\<close>: \<open>stats k\<close> is the outcome of the \<open>k\<close>-th call of \<open>sample_stats\<close>, \<open>elapsed\<close> the
  length of the window in seconds and \<open>d0\<close>, \<open>d1\<close> the counter of deliveries before and after it.
\<close>

definition measure_level ::
    "'f f64_ops \<Rightarrow> res_settings \<Rightarrow> string list \<Rightarrow> (nat \<Rightarrow> ('f \<times> 'f) list result) \<Rightarrow> nat \<Rightarrow> 'f \<Rightarrow> nat \<Rightarrow> nat
     \<Rightarrow> 'f level_result result" where
  "measure_level F s ids stats subs elapsed d0 d1 =
     rbind (sum_samples F (map stats [0..<rs_samples s])
              (replicate (length ids) (f_of_nat F 0)) (replicate (length ids) (f_of_nat F 0)))
       (\<lambda>(cpu, mem).
          let samples = f_of_nat F (rs_samples s);
              cpu_pct = map (\<lambda>v. f_div F v samples) cpu;
              mem_mb = map (\<lambda>v. f_div F v samples) mem
          in Inr \<lparr>lr_subscribers = subs, lr_cpu_pct = cpu_pct, lr_mem_mb = mem_mb,
                  lr_cpu_total_pct = f_sum F cpu_pct, lr_mem_total_mb = f_sum F mem_mb,
                  lr_msg_per_sec =
                    (if f_positive F elapsed
                     then f_div F (f_of_nat F (saturating_sub d1 d0)) elapsed else f_of_nat F 0)\<rparr>)"

text \<open>The publishing task of a subscriber: one message per tick while the flag is set.\<close>

definition publish_period_micros :: "nat \<Rightarrow> nat" where
  "publish_period_micros rate = 1000000 div max rate 1"

fun publisher_task :: "(bool \<times> bool \<times> bool) list \<Rightarrow> nat" where
  "publisher_task [] = 0"
| "publisher_task ((running, still_running, published) # ticks) =
     (if \<not> running then 0
      else if \<not> still_running then 0
      else if \<not> published then 0
      else Suc (publisher_task ticks))"

subsection \<open>The ramp\<close>

definition res_max_users :: "res_settings \<Rightarrow> nat option" where
  "res_max_users s =
     (let max_subs = foldl max 0 (rs_sub_levels s)
      in if max_subs = 0 then Some 0
         else if rs_devices_per_user s = 0 then None
         else Some ((max_subs + rs_devices_per_user s - 1) div rs_devices_per_user s))"

definition res_subscriber_at :: "res_settings \<Rightarrow> string \<Rightarrow> nat \<Rightarrow> subscriber_plan" where
  "res_subscriber_at s run_id i =
     (let user_idx = i div rs_devices_per_user s
      in \<lparr>sp_node = rs_nodes s ! (i mod length (rs_nodes s)),
          sp_client_id = ''perfres-'' @ run_id @ ''-'' @ nat_string i,
          sp_username = user_name_at run_id user_idx,
          sp_topic = ''chat/uid-'' @ run_id @ ''-'' @ nat_string user_idx @ ''/m/all''\<rparr>)"

text \<open>
  The loop over the levels: \<open>connect\<close> gives the outcome of a connection and \<open>scenario subs level si\<close> that of
  \<open>measure_scenario\<close> for the scenario \<open>si\<close> with the subscribers connected so far. The state is the list of connected subscribers and, per
  scenario, the list of its results.
\<close>

fun push_results :: "(nat \<Rightarrow> 'r result) \<Rightarrow> nat \<Rightarrow> 'r list list \<Rightarrow> 'r list list result" where
  "push_results run si [] = Inr []"
| "push_results run si (col # cols) =
     rbind (run si) (\<lambda>r. rbind (push_results run (Suc si) cols) (\<lambda>cols'. Inr ((col @ [r]) # cols')))"

fun ramp ::
    "res_settings \<Rightarrow> string \<Rightarrow> (subscriber_plan \<Rightarrow> unit result)
     \<Rightarrow> (subscriber_plan list \<Rightarrow> nat \<Rightarrow> nat \<Rightarrow> 'r result) \<Rightarrow> nat list \<Rightarrow> subscriber_plan list \<Rightarrow> 'r list list \<Rightarrow> (subscriber_plan list \<times> 'r list list) result" where
  "ramp s run_id connect scenario [] subs results = Inr (subs, results)"
| "ramp s run_id connect scenario (level # levels) subs results =
     rbind (collect_results
              (\<lambda>i. let p = res_subscriber_at s run_id i in rbind (connect p) (\<lambda>_. Inr p))
              [length subs..<level])
       (\<lambda>new. rbind (push_results (scenario (subs @ new) level) 0 results)
          (ramp s run_id connect scenario levels (subs @ new)))"

subsection \<open>Tables and charts\<close>

definition res_svg_path :: "string \<Rightarrow> string \<Rightarrow> string" where
  "res_svg_path out tag =
     (if tag = ''idle'' then out else replace_str ''.svg'' (''-'' @ tag @ ''.svg'') out)"

definition csv_path :: "string \<Rightarrow> string" where
  "csv_path svg = replace_str ''.svg'' ''.csv'' svg"

definition peruser_path :: "string \<Rightarrow> string" where
  "peruser_path svg = replace_str ''.svg'' ''-peruser.svg'' svg"

definition per_1k :: "'f f64_ops \<Rightarrow> 'f \<Rightarrow> 'f \<Rightarrow> 'f" where
  "per_1k F amount msg_per_sec =
     (if f_positive F msg_per_sec then f_div F (f_mul F amount (f_of_nat F 1000)) msg_per_sec
      else f_of_nat F 0)"

definition per_1k_users :: "'f f64_ops \<Rightarrow> 'f \<Rightarrow> nat \<Rightarrow> 'f" where
  "per_1k_users F amount subs =
     (if 0 < subs then f_div F amount (f_div F (f_of_nat F subs) (f_of_nat F 1000)) else f_of_nat F 0)"

definition csv_header :: "string list \<Rightarrow> string" where
  "csv_header services =
     ''subscribers''
     @ concat (map (\<lambda>svc. '','' @ svc @ ''_cpu_pct,'' @ svc @ ''_mem_mb'') services)
     @ '',total_cpu_pct,total_mem_mb,msg_per_sec,cpu_pct_per_1k_msgs,cpu_pct_per_1k_users,mem_mb_per_1k_users''"

text \<open>A row; the indexing panics, that is \<open>None\<close>, when a result has fewer columns than services.\<close>

definition csv_row :: "'f f64_ops \<Rightarrow> string list \<Rightarrow> 'f level_result \<Rightarrow> string option" where
  "csv_row F services r =
     (if length services \<le> length (lr_cpu_pct r) \<and> length services \<le> length (lr_mem_mb r)
      then Some (nat_string (lr_subscribers r)
        @ concat (map (\<lambda>i. '','' @ f_fixed F 2 (lr_cpu_pct r ! i) @ '','' @ f_fixed F 2 (lr_mem_mb r ! i))
                      [0..<length services])
        @ '','' @ f_fixed F 2 (lr_cpu_total_pct r) @ '','' @ f_fixed F 2 (lr_mem_total_mb r)
        @ '','' @ f_fixed F 0 (lr_msg_per_sec r)
        @ '','' @ f_fixed F 2 (per_1k F (lr_cpu_total_pct r) (lr_msg_per_sec r))
        @ '','' @ f_fixed F 2 (per_1k_users F (lr_cpu_total_pct r) (lr_subscribers r))
        @ '','' @ f_fixed F 2 (per_1k_users F (lr_mem_total_mb r) (lr_subscribers r)))
      else None)"

fun csv_rows :: "'f f64_ops \<Rightarrow> string list \<Rightarrow> 'f level_result list \<Rightarrow> string option" where
  "csv_rows F services [] = Some []"
| "csv_rows F services (r # rs) =
     Option.bind (csv_row F services r) (\<lambda>row.
       map_option (\<lambda>rest. row @ [CHR 0x0A] @ rest) (csv_rows F services rs))"

definition csv_text :: "'f f64_ops \<Rightarrow> string list \<Rightarrow> 'f level_result list \<Rightarrow> string option" where
  "csv_text F services rs =
     map_option (\<lambda>rows. csv_header services @ [CHR 0x0A] @ rows) (csv_rows F services rs)"

text \<open>The lines of the two charts: a label, a colour and the values.\<close>

definition node_colors :: "string list" where
  "node_colors = [''#1f77b4'', ''#2ca02c'', ''#ff7f0e'', ''#9467bd'', ''#8c564b'', ''#e377c2'']"

definition node_series ::
    "('f level_result \<Rightarrow> 'f list) \<Rightarrow> ('f level_result \<Rightarrow> 'f) \<Rightarrow> string list \<Rightarrow> 'f level_result list
     \<Rightarrow> (string \<times> string \<times> 'f list) list option" where
  "node_series per_node overall services rs =
     (if list_all (\<lambda>r. length services \<le> length (per_node r)) rs
      then Some (map (\<lambda>i. (services ! i, node_colors ! (i mod length node_colors),
                           map (\<lambda>r. per_node r ! i) rs)) [0..<length services]
                 @ [(''total'', ''#d62728'', map overall rs)])
      else None)"

definition peruser_series ::
    "'f f64_ops \<Rightarrow> 'f level_result list \<Rightarrow> (string \<times> string \<times> 'f list) list \<times> (string \<times> string \<times> 'f list) list" where
  "peruser_series F rs =
     ([(''cpu%/1k msgs'', ''#1f77b4'', map (\<lambda>r. per_1k F (lr_cpu_total_pct r) (lr_msg_per_sec r)) rs)],
      [(''MB/1k msgs'', ''#2ca02c'', map (\<lambda>r. per_1k F (lr_mem_total_mb r) (lr_msg_per_sec r)) rs)])"

section \<open>Settings\<close>

lemma set_dedup [simp]: "set (dedup xs) = set xs"
  by (induction xs rule: dedup.induct) auto

lemma hd_dedup: "xs \<noteq> [] \<Longrightarrow> hd (dedup xs) = hd xs \<and> dedup xs \<noteq> []"
  by (induction xs rule: dedup.induct) auto

lemma dedup_sorted: "sorted xs \<Longrightarrow> sorted_wrt (<) (dedup xs)"
proof (induction xs rule: dedup.induct)
  case (3 x y zs)
  then show ?case
  proof (cases "x = y")
    case False
    with 3 have "sorted_wrt (<) (dedup (y # zs))" by simp
    moreover have "\<forall>z \<in> set (dedup (y # zs)). x < z" using 3(3) False by fastforce
    ultimately show ?thesis using False by simp
  qed auto
qed auto

lemma res_load_settings_levels:
  assumes "res_load_settings env = Inr s"
  shows "sorted_wrt (<) (rs_sub_levels s) \<and> rs_nodes s \<noteq> [] \<and> rs_services s \<noteq> []"
  using assms dedup_sorted [OF sorted_sort] parse_nodes_ne by (auto simp: res_load_settings_def)

lemma res_load_settings_services:
  assumes "res_load_settings env = Inr s" and "svc \<in> set (rs_services s)"
  shows "CHR '','' \<notin> set svc"
proof -
  from assms obtain t where "svc = trim t"
    and "t \<in> set (split_on (CHR '','') (env_or env ''PERF_SERVICES'' ''node1,node2,node3''))"
    by (auto simp: res_load_settings_def)
  then show ?thesis using split_on_free set_trim_subset by blast
qed

section \<open>Reading the containers\<close>

lemma whitespace_not_graphic:
  "\<forall>p \<in> set whitespace. p \<noteq> [] \<and> \<not> is_ascii_graphic (hd p) \<and> \<not> is_ascii_graphic (last p)"
  by (simp add: whitespace_def is_ascii_graphic_def upt_conv_Cons Let_def)

lemma strip_any_None:
  assumes "\<forall>p \<in> set ps. p \<noteq> [] \<and> hd p \<noteq> x"
  shows "strip_any ps (x # s) = None"
  using assms
proof (induction ps)
  case (Cons p ps)
  then obtain c cs where "p = c # cs" "c \<noteq> x" by (cases p) auto
  with Cons show ?case by simp
qed simp

text \<open>A text between two printable characters is not trimmed.\<close>

lemma trim_graphic:
  assumes "s \<noteq> []" and "is_ascii_graphic (hd s)" and "is_ascii_graphic (last s)"
  shows "trim s = s"
proof -
  obtain x xs where s: "s = x # xs" using assms(1) by (cases s) auto
  obtain y ys where r: "rev s = y # ys" "y = last s" using assms(1) by (cases "rev s") (auto simp: last_rev hd_rev)
  have "strip_any whitespace s = None"
    unfolding s by (rule strip_any_None) (use whitespace_not_graphic assms(2) s in auto)
  moreover have "strip_any (map rev whitespace) (rev s) = None"
    unfolding r(1) by (rule strip_any_None) (use whitespace_not_graphic assms(3) r(2) in \<open>auto simp: hd_rev\<close>)
  ultimately show ?thesis by (simp add: trim_def strip_all.simps)
qed

lemma resolve_containers_ids:
  assumes "resolve_containers docker_ps services = Inr ids"
  shows "length ids = length services \<and> [] \<notin> set ids"
proof -
  have all: "list_all2 (\<lambda>svc ident. resolve_container docker_ps svc = Inr ident) services ids"
    using assms by (simp add: resolve_containers_def collect_results_Inr)
  have "resolve_container docker_ps svc \<noteq> Inr []" for svc
    by (auto simp: resolve_container_def Let_def)
  with all show ?thesis by (auto simp: list_all2_conv_all_nth in_set_conv_nth)
qed

lemma sample_stats_length: "sample_stats F iter out ids = Inr stats \<Longrightarrow> length stats = length ids"
  by (auto simp: sample_stats_def collect_results_length split: if_splits)

lemma sum_samples_length:
  assumes "sum_samples F ss cpu mem = Inr (cpu', mem')"
    and "\<And>stats. Inr stats \<in> set ss \<Longrightarrow> length stats = n" and "length cpu = n" and "length mem = n"
  shows "length cpu' = n \<and> length mem' = n"
  using assms by (induction F ss cpu mem rule: sum_samples.induct) auto

lemma measure_level_columns:
  assumes "measure_level F s ids stats subs elapsed d0 d1 = Inr r"
    and "\<And>k xs. stats k = Inr xs \<Longrightarrow> length xs = length ids"
  shows "length (lr_cpu_pct r) = length ids \<and> length (lr_mem_mb r) = length ids
    \<and> lr_subscribers r = subs"
proof -
  obtain cpu mem where sums: "sum_samples F (map stats [0..<rs_samples s])
      (replicate (length ids) (f_of_nat F 0)) (replicate (length ids) (f_of_nat F 0)) = Inr (cpu, mem)"
    using assms(1) by (auto simp: measure_level_def)
  have "length cpu = length ids \<and> length mem = length ids"
    by (rule sum_samples_length [OF sums]) (auto simp: assms(2))
  then show ?thesis using assms(1) sums by (auto simp: measure_level_def Let_def)
qed

section \<open>The ramp\<close>

lemma collect_connect:
  assumes "collect_results (\<lambda>i. let p = f i in rbind (connect p) (\<lambda>_. Inr p)) xs = Inr ps"
  shows "ps = map f xs \<and> (\<forall>p \<in> set ps. connect p = Inr ())"
  using assms by (induction xs arbitrary: ps) (auto simp: Let_def)

lemma push_results_Inr:
  "push_results run si cols = Inr cols' \<longleftrightarrow>
     length cols' = length cols
     \<and> (\<forall>k < length cols. \<exists>r. run (si + k) = Inr r \<and> cols' ! k = cols ! k @ [r])"
proof (induction run si cols arbitrary: cols' rule: push_results.induct)
  case (2 run si col cols)
  show ?case
    by (cases cols') (auto simp: 2 All_less_Suc2)
qed auto

lemma ramp_result:
  assumes "ramp s run_id connect scenario levels subs results = Inr (subs', results')"
    and "subs = map (res_subscriber_at s run_id) [0..<n]" and "sorted (n # levels)"
  shows "subs' = map (res_subscriber_at s run_id) [0..<last (n # levels)]
    \<and> length results' = length results
    \<and> (\<forall>si < length results. length (results' ! si) = length (results ! si) + length levels
         \<and> take (length (results ! si)) (results' ! si) = results ! si
         \<and> (\<forall>k < length levels.
              scenario (map (res_subscriber_at s run_id) [0..<levels ! k]) (levels ! k) si = Inr (results' ! si ! (length (results ! si) + k))))"
  using assms
proof (induction levels arbitrary: subs results n)
  case (Cons level levels)
  let ?f = "res_subscriber_at s run_id"
  from Cons.prems(1) obtain new cols
    where new: "collect_results (\<lambda>i. let p = ?f i in rbind (connect p) (\<lambda>_. Inr p)) [length subs..<level] = Inr new"
      and cols: "push_results (scenario (subs @ new) level) 0 results = Inr cols"
      and rest: "ramp s run_id connect scenario levels (subs @ new) cols = Inr (subs', results')"
    by auto
  have subs: "subs @ new = map ?f [0..<level]"
    using collect_connect [OF new] Cons.prems(2,3)
    upt_add_eq_append [of 0 n "level - n"] by (simp flip: map_append)
  have len: "length cols = length results"
    and col: "\<And>si. si < length results \<Longrightarrow> \<exists>r. scenario (map ?f [0..<level]) level si = Inr r \<and> cols ! si = results ! si @ [r]"
    using cols unfolding subs by (auto simp: push_results_Inr)
  have IH: "subs' = map ?f [0..<last (level # levels)]" "length results' = length cols"
    "\<And>si. si < length cols \<Longrightarrow> length (results' ! si) = length (cols ! si) + length levels"
    "\<And>si. si < length cols \<Longrightarrow> take (length (cols ! si)) (results' ! si) = cols ! si"
    "\<And>si k. si < length cols \<Longrightarrow> k < length levels
       \<Longrightarrow> scenario (map (res_subscriber_at s run_id) [0..<levels ! k]) (levels ! k) si = Inr (results' ! si ! (length (cols ! si) + k))"
    using Cons.IH [OF rest subs] Cons.prems(3) by auto
  have "length (results' ! si) = length (results ! si) + length (level # levels)
      \<and> take (length (results ! si)) (results' ! si) = results ! si
      \<and> (\<forall>k < length (level # levels).
           scenario (map ?f [0..<(level # levels) ! k]) ((level # levels) ! k) si = Inr (results' ! si ! (length (results ! si) + k)))"
    if si: "si < length results" for si
  proof -
    obtain r where r: "scenario (map ?f [0..<level]) level si = Inr r" "cols ! si = results ! si @ [r]"
      using col [OF si] by blast
    have tk: "take (Suc (length (results ! si))) (results' ! si) = results ! si @ [r]"
      and l: "length (results' ! si) = Suc (length (results ! si)) + length levels"
      and sc: "\<And>k. k < length levels \<Longrightarrow>
        scenario (map (res_subscriber_at s run_id) [0..<levels ! k]) (levels ! k) si = Inr (results' ! si ! (Suc (length (results ! si)) + k))"
      using IH(3-5) [of si] si r len by auto
    have "take (length (results ! si)) (results' ! si) = results ! si"
      using arg_cong [OF tk, of "take (length (results ! si))"] by simp
    moreover have "results' ! si ! length (results ! si) = r"
      using arg_cong [OF tk, of "\<lambda>xs. xs ! length (results ! si)"] by simp
    ultimately show ?thesis using r(1) l sc by (auto simp: less_Suc_eq_0_disj)
  qed
  then show ?case using IH(1,2) len by simp
qed simp

text \<open>Every subscriber of the ramp logs in as a user that was provisioned.\<close>

lemma foldl_max_ge: "a \<le> foldl max a xs \<and> (\<forall>x \<in> set xs. x \<le> foldl max (a :: nat) xs)"
  by (induction xs arbitrary: a) (auto dest: max.boundedE [of _ _ "foldl max _ _"] intro: order_trans)

lemma res_subscriber_provisioned:
  assumes "res_max_users s = Some users" and "level \<in> set (rs_sub_levels s)" and "i < level"
  shows "\<exists>u < users. sp_username (res_subscriber_at s run_id i) = user_name_at run_id u
    \<and> sp_topic (res_subscriber_at s run_id i) = chat_topic (user_id_at run_id u)"
proof -
  let ?m = "foldl max 0 (rs_sub_levels s)" and ?d = "rs_devices_per_user s"
  have im: "i < ?m" using assms(2,3) foldl_max_ge [of 0 "rs_sub_levels s"] by fastforce
  then have d: "0 < ?d" and users: "users = (?m + ?d - 1) div ?d"
    using assms(1) by (auto simp: res_max_users_def Let_def split: if_splits)
  have "i div ?d \<le> (?m - 1) div ?d" using im by (intro div_le_mono) simp
  also have "\<dots> < users" using im d users div_add_self2 [of ?d "?m - 1"] by simp
  finally have "i div ?d < users" .
  then show ?thesis
    by (auto simp: res_subscriber_at_def Let_def chat_topic_def user_id_at_def)
qed

section \<open>Tables\<close>

text \<open>The number of fields of a line is the number of commas plus one.\<close>

abbreviation commas :: "string \<Rightarrow> nat" where
  "commas s \<equiv> count_list s (CHR '','')"

lemma count_list_concat: "count_list (concat xss) x = sum_list (map (\<lambda>xs. count_list xs x) xss)"
  by (induction xss) auto

lemma csv_header_commas:
  assumes "\<forall>svc \<in> set services. CHR '','' \<notin> set svc"
  shows "commas (csv_header services) = 2 * length services + 6"
proof -
  have "commas (concat (map (\<lambda>svc. '','' @ svc @ ''_cpu_pct,'' @ svc @ ''_mem_mb'') services))
      = sum_list (map (\<lambda>svc. 2) services)"
    unfolding count_list_concat map_map
    by (rule arg_cong [where f = sum_list], rule map_cong) (use assms in \<open>auto simp: count_list_0_iff\<close>)
  then show ?thesis by (simp add: csv_header_def sum_list_triv)
qed

lemma csv_row_commas:
  assumes "csv_row F services r = Some row" and "\<And>d x. CHR '','' \<notin> set (f_fixed F d x)"
  shows "commas row = 2 * length services + 6"
proof -
  have num: "commas (nat_string n) = 0" for n
    using nat_string_alnum [of n] by (auto simp: count_list_0_iff list_all_iff is_ascii_alphanumeric_def)
  have fx: "commas (f_fixed F d x) = 0" for d x
    using assms(2) by (simp add: count_list_0_iff)
  have "commas (concat (map (\<lambda>i. '','' @ f_fixed F 2 (lr_cpu_pct r ! i) @ '','' @ f_fixed F 2 (lr_mem_mb r ! i))
      [0..<length services])) = 2 * length services"
    unfolding count_list_concat map_map by (simp add: o_def fx sum_list_triv)
  then show ?thesis using assms(1) by (auto simp: csv_row_def num fx split: if_splits)
qed

lemma csv_rows_some:
  assumes "\<forall>r \<in> set rs. length services \<le> length (lr_cpu_pct r) \<and> length services \<le> length (lr_mem_mb r)"
  shows "\<exists>rows. map (csv_row F services) rs = map Some rows
    \<and> csv_rows F services rs = Some (concat (map (\<lambda>row. row @ [CHR 0x0A]) rows))"
  using assms
proof (induction rs)
  case (Cons r rs)
  then obtain rows where "map (csv_row F services) rs = map Some rows"
    "csv_rows F services rs = Some (concat (map (\<lambda>row. row @ [CHR 0x0A]) rows))" by auto
  moreover obtain row where "csv_row F services r = Some row" using Cons.prems by (simp add: csv_row_def)
  ultimately show ?case by (intro exI [of _ "row # rows"]) simp
qed simp

end
