(* ===== verification/Chart.thy ===== *)
theory Chart
  imports Perf_Resources Complex_Main
begin

text \<open>
  The charts of the two load generators, \<open>render_svg\<close> and \<open>format_tick\<close> of \<open>src/bin/perf.rs\<close> and
  \<open>render_svg\<close>, \<open>render_peruser_svg\<close>, \<open>render_panels\<close> and \<open>format_tick\<close> of \<open>src/bin/perf_resources.rs\<close>, and the
  result of a round with its percentiles. A chart is a list of shapes in the order in which the
  code writes them, and their text. The arithmetic is that of the parameter; a literal with a
  decimal point is a quotient of two integers, which is the same number after rounding. Where a
  lemma needs the geometry, the numbers are real.
\<close>

section \<open>Model\<close>

subsection \<open>Shapes\<close>

datatype 'f shape =
    Background 'f 'f
  | Caption 'f 'f "(string \<times> string) list" string
  | Segment 'f 'f 'f 'f string
  | Curve "('f \<times> 'f) list" string
  | Dot 'f 'f string
  | Key 'f 'f string

definition attr :: "string \<Rightarrow> string \<Rightarrow> string" where
  "attr name val = '' '' @ name @ [CHR ''='', CHR 0x22] @ val @ [CHR 0x22]"

definition point_text :: "'f f64_ops \<Rightarrow> 'f \<times> 'f \<Rightarrow> string" where
  "point_text F p = f_fixed F 1 (fst p) @ '','' @ f_fixed F 1 (snd p)"

fun shape_text :: "'f f64_ops \<Rightarrow> 'f shape \<Rightarrow> string" where
  "shape_text F (Background w h) =
     ''<rect'' @ attr ''width'' (f_show F w) @ attr ''height'' (f_show F h) @ attr ''fill'' ''white'' @ ''/>''"
| "shape_text F (Caption x y attrs t) =
     ''<text'' @ attr ''x'' (f_show F x) @ attr ''y'' (f_show F y)
     @ concat (map (\<lambda>(n, v). attr n v) attrs) @ ''>'' @ t @ ''</text>''"
| "shape_text F (Segment x1 y1 x2 y2 color) =
     ''<line'' @ attr ''x1'' (f_show F x1) @ attr ''y1'' (f_show F y1) @ attr ''x2'' (f_show F x2)
     @ attr ''y2'' (f_show F y2) @ attr ''stroke'' color @ ''/>''"
| "shape_text F (Curve ps color) =
     ''<polyline'' @ attr ''points'' (join '' '' (map (point_text F) ps)) @ attr ''fill'' ''none''
     @ attr ''stroke'' color @ attr ''stroke-width'' ''2'' @ ''/>''"
| "shape_text F (Dot x y color) =
     ''<circle'' @ attr ''cx'' (f_fixed F 1 x) @ attr ''cy'' (f_fixed F 1 y) @ attr ''r'' ''3.5''
     @ attr ''fill'' color @ ''/>''"
| "shape_text F (Key x y color) =
     ''<rect'' @ attr ''x'' (f_show F x) @ attr ''y'' (f_show F y) @ attr ''width'' ''12''
     @ attr ''height'' ''12'' @ attr ''fill'' color @ ''/>''"

definition svg_open :: "'f f64_ops \<Rightarrow> 'f \<Rightarrow> 'f \<Rightarrow> string" where
  "svg_open F w h =
     ''<svg'' @ attr ''xmlns'' ''http://www.w3.org/2000/svg'' @ attr ''width'' (f_show F w)
     @ attr ''height'' (f_show F h) @ attr ''viewBox'' (''0 0 '' @ f_show F w @ '' '' @ f_show F h)
     @ attr ''font-family'' ''monospace'' @ attr ''font-size'' ''12'' @ ''>''"

subsection \<open>Layout\<close>

definition chart_w :: "'f f64_ops \<Rightarrow> 'f" where "chart_w F = f_of_nat F 860"
definition panel_h :: "'f f64_ops \<Rightarrow> 'f" where "panel_h F = f_of_nat F 300"
definition margin_l :: "'f f64_ops \<Rightarrow> 'f" where "margin_l F = f_of_nat F 80"
definition margin_r :: "'f f64_ops \<Rightarrow> 'f" where "margin_r F = f_of_nat F 30"
definition margin_t :: "'f f64_ops \<Rightarrow> 'f" where "margin_t F = f_of_nat F 40"
definition panel_gap :: "'f f64_ops \<Rightarrow> 'f" where "panel_gap F = f_of_nat F 70"

definition plot_w :: "'f f64_ops \<Rightarrow> 'f" where
  "plot_w F = f_sub F (f_sub F (chart_w F) (margin_l F)) (margin_r F)"

definition plot_h :: "'f f64_ops \<Rightarrow> 'f" where
  "plot_h F = f_sub F (f_sub F (panel_h F) (margin_t F)) (f_of_nat F 30)"

definition chart_h :: "'f f64_ops \<Rightarrow> 'f" where
  "chart_h F = f_add F (f_mul F (panel_h F) (f_of_nat F 2)) (f_of_nat F 60)"

definition res_chart_h :: "'f f64_ops \<Rightarrow> nat \<Rightarrow> 'f" where
  "res_chart_h F n = f_add F (f_mul F (panel_h F) (f_of_nat F n)) (f_of_nat F 60)"

definition x_max :: "'f f64_ops \<Rightarrow> 'f list \<Rightarrow> 'f" where
  "x_max F xs = f_mul F (foldl (f_max F) (f_of_nat F 1) xs) (f_div F (f_of_nat F 105) (f_of_nat F 100))"

definition x_pos :: "'f f64_ops \<Rightarrow> 'f list \<Rightarrow> 'f \<Rightarrow> 'f" where
  "x_pos F xs v = f_add F (margin_l F) (f_mul F (f_div F v (x_max F xs)) (plot_w F))"

definition panel_top :: "'f f64_ops \<Rightarrow> nat \<Rightarrow> 'f" where
  "panel_top F i =
     f_add F (margin_t F) (f_mul F (f_of_nat F i) (f_sub F (f_add F (panel_h F) (panel_gap F)) (margin_t F)))"

definition panel_bottom :: "'f f64_ops \<Rightarrow> nat \<Rightarrow> 'f" where
  "panel_bottom F i = f_add F (panel_top F i) (plot_h F)"

text \<open>A line of a chart: label, colour, values.\<close>

type_synonym 'f series = "string \<times> string \<times> 'f list"

definition y_max :: "'f f64_ops \<Rightarrow> 'f series list \<Rightarrow> 'f" where
  "y_max F ss =
     f_mul F (foldl (f_max F) (f_of_nat F 1) (concat (map (snd \<circ> snd) ss)))
       (f_div F (f_of_nat F 11) (f_of_nat F 10))"

definition y_pos :: "'f f64_ops \<Rightarrow> nat \<Rightarrow> 'f series list \<Rightarrow> 'f \<Rightarrow> 'f" where
  "y_pos F i ss v = f_sub F (panel_bottom F i) (f_mul F (f_div F v (y_max F ss)) (plot_h F))"

definition format_tick :: "'f f64_ops \<Rightarrow> 'f \<Rightarrow> string" where
  "format_tick F v =
     (if f_ge F v (f_of_nat F 10000) then f_fixed F 0 (f_div F v (f_of_nat F 1000)) @ ''k''
      else if f_ge F v (f_of_nat F 100) then f_fixed F 0 v
      else f_fixed F 1 v)"

definition axis_shapes :: "'f f64_ops \<Rightarrow> nat \<Rightarrow> string \<Rightarrow> 'f shape list" where
  "axis_shapes F i title =
     (let l = margin_l F; top = panel_top F i; bottom = panel_bottom F i
      in [Caption l (f_sub F top (f_of_nat F 12)) [(''font-size'', ''14''), (''font-weight'', ''bold'')] title,
          Segment l bottom (f_add F l (plot_w F)) bottom ''black'',
          Segment l top l bottom ''black''])"

definition tick_shapes :: "'f f64_ops \<Rightarrow> nat \<Rightarrow> 'f series list \<Rightarrow> nat \<Rightarrow> 'f shape list" where
  "tick_shapes F i ss t =
     (let l = margin_l F;
          yv = f_mul F (f_div F (y_max F ss) (f_of_nat F 5)) (f_of_nat F t);
          y = y_pos F i ss yv
      in [Segment l y (f_add F l (plot_w F)) y ''lightgray'',
          Caption (f_sub F l (f_of_nat F 6)) (f_add F y (f_of_nat F 4)) [(''text-anchor'', ''end'')]
            (format_tick F yv)])"

definition level_shapes :: "'f f64_ops \<Rightarrow> nat \<Rightarrow> 'f list \<Rightarrow> 'f shape list" where
  "level_shapes F i xs =
     map (\<lambda>x. Caption (x_pos F xs x) (f_add F (panel_bottom F i) (f_of_nat F 18))
                [(''text-anchor'', ''middle'')] (f_show F x)) xs
     @ [Caption (f_add F (margin_l F) (f_div F (plot_w F) (f_of_nat F 2)))
          (f_add F (panel_bottom F i) (f_of_nat F 36)) [(''text-anchor'', ''middle'')] ''subscribers'']"

text \<open>One line of a panel; \<open>lx\<close> is where the legend starts.\<close>

definition series_shapes ::
    "'f f64_ops \<Rightarrow> 'f \<Rightarrow> nat \<Rightarrow> 'f list \<Rightarrow> 'f series list \<Rightarrow> nat \<Rightarrow> 'f series \<Rightarrow> 'f shape list" where
  "series_shapes F lx i xs ss si = (\<lambda>(label, color, vals).
     let points = map (\<lambda>(x, v). (x_pos F xs x, y_pos F i ss v)) (zip xs vals);
         ly = f_add F (f_add F (panel_top F i) (f_of_nat F 16)) (f_mul F (f_of_nat F si) (f_of_nat F 18))
     in [Curve points color] @ map (\<lambda>(x, y). Dot x y color) points
        @ [Key lx (f_sub F ly (f_of_nat F 10)) color, Caption (f_add F lx (f_of_nat F 18)) ly [] label])"

definition panel_shapes ::
    "'f f64_ops \<Rightarrow> 'f \<Rightarrow> 'f list \<Rightarrow> nat \<Rightarrow> string \<times> 'f series list \<Rightarrow> 'f shape list" where
  "panel_shapes F lx xs i = (\<lambda>(title, ss).
     axis_shapes F i title @ concat (map (tick_shapes F i ss) [0..<6]) @ level_shapes F i xs
     @ concat (map (\<lambda>(si, s). series_shapes F lx i xs ss si s) (enumerate 0 ss)))"

definition all_panels ::
    "'f f64_ops \<Rightarrow> 'f \<Rightarrow> 'f list \<Rightarrow> (string \<times> 'f series list) list \<Rightarrow> 'f shape list" where
  "all_panels F lx xs panels = concat (map (\<lambda>(i, p). panel_shapes F lx xs i p) (enumerate 0 panels))"

subsection \<open>The round and its chart\<close>

record 'f round_result =
  rr_subscribers :: nat
  rr_users :: nat
  rr_published :: nat
  rr_expected :: nat
  rr_delivered :: nat
  rr_duration_secs :: 'f
  rr_delivered_per_sec :: 'f
  rr_p50_ms :: 'f
  rr_p95_ms :: 'f
  rr_p99_ms :: 'f

text \<open>The percentile of the sorted latencies; the indexing may panic, that is \<open>None\<close>.\<close>

definition pct :: "'f f64_ops \<Rightarrow> u64 list \<Rightarrow> 'f \<Rightarrow> 'f option" where
  "pct F latencies p =
     (if latencies = [] then Some (f_of_nat F 0)
      else
        let idx = f_to_usize F (f_mul F (f_sub F (f_of_nat F (length latencies)) (f_of_nat F 1)) p)
        in if idx < length latencies
           then Some (f_div F (f_of_nat F (unat (latencies ! idx))) (f_of_nat F 1000000))
           else None)"

definition finish_round ::
    "'f f64_ops \<Rightarrow> perf_settings \<Rightarrow> nat \<Rightarrow> nat \<Rightarrow> nat \<Rightarrow> 'f \<Rightarrow> u64 list \<Rightarrow> 'f round_result option" where
  "finish_round F s subs users delivered duration latencies =
     (let ls = sort latencies; per100 = (\<lambda>n. f_div F (f_of_nat F n) (f_of_nat F 100))
      in Option.bind (pct F ls (per100 50)) (\<lambda>p50.
         Option.bind (pct F ls (per100 95)) (\<lambda>p95.
         Option.bind (pct F ls (per100 99)) (\<lambda>p99.
           Some \<lparr>rr_subscribers = subs, rr_users = users, rr_published = ps_messages s,
                 rr_expected = expected_deliveries s, rr_delivered = delivered,
                 rr_duration_secs = duration,
                 rr_delivered_per_sec = f_div F (f_of_nat F delivered) duration,
                 rr_p50_ms = p50, rr_p95_ms = p95, rr_p99_ms = p99\<rparr>))))"

definition perf_panels :: "'f round_result list \<Rightarrow> (string \<times> 'f series list) list" where
  "perf_panels rs =
     [(''messages delivered to end users / second'',
       [(''msg/s'', ''#1f77b4'', map rr_delivered_per_sec rs)]),
      (''end-to-end delivery latency (ms)'',
       [(''p50'', ''#2ca02c'', map rr_p50_ms rs), (''p95'', ''#ff7f0e'', map rr_p95_ms rs),
        (''p99'', ''#d62728'', map rr_p99_ms rs)])]"

definition perf_shapes :: "'f f64_ops \<Rightarrow> 'f round_result list \<Rightarrow> 'f shape list" where
  "perf_shapes F rs =
     Background (chart_w F) (chart_h F)
     # all_panels F (f_sub F (f_add F (margin_l F) (plot_w F)) (f_of_nat F 90))
         (map (f_of_nat F \<circ> rr_subscribers) rs) (perf_panels rs)"

definition render_svg :: "'f f64_ops \<Rightarrow> 'f round_result list \<Rightarrow> string" where
  "render_svg F rs =
     svg_open F (chart_w F) (chart_h F) @ concat (map (shape_text F) (perf_shapes F rs)) @ ''</svg>''"

definition perf_csv_row :: "'f f64_ops \<Rightarrow> 'f round_result \<Rightarrow> string" where
  "perf_csv_row F r =
     join '','' [nat_string (rr_subscribers r), nat_string (rr_users r), nat_string (rr_published r),
       nat_string (rr_expected r), nat_string (rr_delivered r), f_fixed F 3 (rr_duration_secs r),
       f_fixed F 1 (rr_delivered_per_sec r), f_fixed F 2 (rr_p50_ms r), f_fixed F 2 (rr_p95_ms r),
       f_fixed F 2 (rr_p99_ms r)] @ [CHR 0x0A]"

definition perf_csv :: "'f f64_ops \<Rightarrow> 'f round_result list \<Rightarrow> string" where
  "perf_csv F rs =
     ''subscribers,users,published,expected,delivered,duration_secs,delivered_per_sec,p50_ms,p95_ms,p99_ms''
     @ [CHR 0x0A] @ concat (map (perf_csv_row F) rs)"

subsection \<open>The charts of the resource benchmark\<close>

definition res_shapes :: "'f f64_ops \<Rightarrow> (string \<times> 'f series list) list \<Rightarrow> 'f list \<Rightarrow> 'f shape list" where
  "res_shapes F panels xs =
     Background (chart_w F) (res_chart_h F (length panels))
     # all_panels F (f_add F (margin_l F) (f_of_nat F 12)) xs panels"

definition render_panels :: "'f f64_ops \<Rightarrow> (string \<times> 'f series list) list \<Rightarrow> 'f list \<Rightarrow> string" where
  "render_panels F panels xs =
     svg_open F (chart_w F) (res_chart_h F (length panels))
     @ concat (map (shape_text F) (res_shapes F panels xs)) @ ''</svg>''"

definition res_render_svg ::
    "'f f64_ops \<Rightarrow> string list \<Rightarrow> 'f level_result list \<Rightarrow> string \<Rightarrow> string option" where
  "res_render_svg F services rs label =
     Option.bind (node_series lr_cpu_pct lr_cpu_total_pct services rs) (\<lambda>cpu.
     Option.bind (node_series lr_mem_mb lr_mem_total_mb services rs) (\<lambda>mem.
       Some (render_panels F
         [(''broker cpu usage on '' @ label @ '' (%, docker stats)'', cpu),
          (''broker memory usage on '' @ label @ '' (MB)'', mem)]
         (map (f_of_nat F \<circ> lr_subscribers) rs))))"

definition render_peruser_svg :: "'f f64_ops \<Rightarrow> 'f level_result list \<Rightarrow> string \<Rightarrow> string" where
  "render_peruser_svg F rs label =
     (let (cpu, mem) = peruser_series F rs
      in render_panels F
           [(''broker cpu per 1k msgs on '' @ label @ '' (%)'', cpu),
            (''broker memory per 1k msgs on '' @ label @ '' (MB)'', mem)]
           (map (f_of_nat F \<circ> lr_subscribers) rs))"

section \<open>Exact arithmetic\<close>

definition real_f64 :: "(string \<Rightarrow> real option) \<Rightarrow> (real \<Rightarrow> string) \<Rightarrow> (nat \<Rightarrow> real \<Rightarrow> string) \<Rightarrow> real f64_ops" where
  "real_f64 parse shw fixed =
     \<lparr>f_parse = parse, f_of_nat = real, f_add = (+), f_sub = (-), f_mul = (*), f_div = (/), f_max = max,
      f_ge = (\<ge>), f_positive = (\<lambda>x. 0 < x), f_to_usize = (\<lambda>x. nat \<lfloor>x\<rfloor>), f_show = shw, f_fixed = fixed\<rparr>"

lemma real_f64_sel [simp]:
  "f_of_nat (real_f64 pa sh fi) = real" "f_add (real_f64 pa sh fi) = (+)" "f_sub (real_f64 pa sh fi) = (-)"
  "f_mul (real_f64 pa sh fi) = (*)" "f_div (real_f64 pa sh fi) = (/)" "f_max (real_f64 pa sh fi) = max"
  "f_to_usize (real_f64 pa sh fi) = (\<lambda>x. nat \<lfloor>x\<rfloor>)"
  by (simp_all add: real_f64_def)

lemma layout_real [simp]:
  "margin_l (real_f64 pa sh fi) = 80" "plot_w (real_f64 pa sh fi) = 750" "plot_h (real_f64 pa sh fi) = 230"
  "panel_top (real_f64 pa sh fi) i = 40 + 330 * real i" "panel_bottom (real_f64 pa sh fi) i = 270 + 330 * real i"
  by (simp_all add: margin_l_def plot_w_def plot_h_def chart_w_def margin_r_def panel_h_def margin_t_def
      panel_top_def panel_bottom_def panel_gap_def)

lemma foldl_max:
  fixes a :: real
  shows "a \<le> foldl max a xs \<and> (\<forall>x \<in> set xs. x \<le> foldl max a xs)"
proof (induction xs arbitrary: a)
  case (Cons x xs)
  from Cons [of "max a x"] show ?case by auto
qed simp

text \<open>A value that is not negative, as a fraction of the scale.\<close>

lemma scaled_range:
  fixes v m pad len :: real
  assumes "0 \<le> v" and "v \<le> m" and "1 \<le> m" and "1 \<le> pad" and "0 \<le> len"
  shows "0 \<le> v / (m * pad) * len" "v / (m * pad) * len \<le> len"
proof -
  have "m * 1 \<le> m * pad" using assms by (intro mult_left_mono) auto
  with assms(2) have "v \<le> m * pad" by simp
  then have "v / (m * pad) \<le> 1" using assms by simp
  moreover have "0 \<le> v / (m * pad)" using assms by simp
  ultimately show "0 \<le> v / (m * pad) * len" "v / (m * pad) * len \<le> len"
    using assms(5) mult_nonneg_nonneg mult_left_le_one_le by blast+
qed

lemma x_pos_range:
  assumes "v \<in> set xs" and "0 \<le> v"
  shows "80 \<le> x_pos (real_f64 pa sh fi) xs v \<and> x_pos (real_f64 pa sh fi) xs v \<le> 830"
  using scaled_range [of v "foldl max 1 xs" "105 / 100" 750] foldl_max [of 1 xs] assms
  by (simp add: x_pos_def x_max_def)

lemma y_pos_range:
  assumes "v \<in> set (concat (map (snd \<circ> snd) ss))" and "0 \<le> v"
  shows "40 + 330 * real i \<le> y_pos (real_f64 pa sh fi) i ss v
    \<and> y_pos (real_f64 pa sh fi) i ss v \<le> 270 + 330 * real i"
proof -
  let ?m = "foldl max 1 (concat (map (snd \<circ> snd) ss))"
  have "1 \<le> ?m" "v \<le> ?m" using foldl_max [of 1 "concat (map (snd \<circ> snd) ss)"] assms(1) by blast+
  from scaled_range [OF assms(2) this(2,1), of "11 / 10" 230] show ?thesis
    by (simp add: y_pos_def y_max_def)
qed

text \<open>Larger values are drawn higher.\<close>

lemma y_pos_mono:
  assumes "v < w"
  shows "y_pos (real_f64 pa sh fi) i ss w < y_pos (real_f64 pa sh fi) i ss v"
proof -
  have "0 < foldl max 1 (concat (map (snd \<circ> snd) ss)) * (11 / 10 :: real)"
    using foldl_max [of 1 "concat (map (snd \<circ> snd) ss)"] by simp
  with assms show ?thesis by (simp add: y_pos_def y_max_def divide_strict_right_mono)
qed

fun shape_points :: "'f shape \<Rightarrow> ('f \<times> 'f) set" where
  "shape_points (Curve ps c) = set ps"
| "shape_points (Dot x y c) = {(x, y)}"
| "shape_points _ = {}"

definition in_plot :: "nat \<Rightarrow> real \<times> real \<Rightarrow> bool" where
  "in_plot i p \<longleftrightarrow> 80 \<le> fst p \<and> fst p \<le> 830 \<and> 40 + 330 * real i \<le> snd p \<and> snd p \<le> 270 + 330 * real i"

lemma series_points:
  assumes "sr \<in> set ss" and "\<forall>x \<in> set xs. 0 \<le> x" and "\<forall>v \<in> set (snd (snd sr)). 0 \<le> v"
    and "p \<in> \<Union> (shape_points ` set (series_shapes (real_f64 pa sh fi) lx i xs ss si sr))"
  shows "in_plot i p"
proof -
  obtain label color vals where sr: "sr = (label, color, vals)" by (cases sr) auto
  from assms(4) obtain x v where xv: "(x, v) \<in> set (zip xs vals)"
    and p: "p = (x_pos (real_f64 pa sh fi) xs x, y_pos (real_f64 pa sh fi) i ss v)"
    by (auto simp: series_shapes_def sr Let_def)
  from xv have x: "x \<in> set xs" and v: "v \<in> set vals" by (auto dest: set_zip_leftD set_zip_rightD)
  have "v \<in> set (concat (map (snd \<circ> snd) ss))" using v assms(1) sr by force
  then show ?thesis
    using x_pos_range [OF x] y_pos_range [of v ss] assms(2,3) x v sr unfolding p in_plot_def by simp
qed

lemma panel_points:
  assumes "\<forall>x \<in> set xs. 0 \<le> x" and "\<forall>v \<in> set (concat (map (snd \<circ> snd) (snd pan))). 0 \<le> v"
    and "p \<in> \<Union> (shape_points ` set (panel_shapes (real_f64 pa sh fi) lx xs i pan))"
  shows "in_plot i p"
proof -
  obtain title ss where pan: "pan = (title, ss)" by (cases pan) auto
  from assms(3) obtain si sr where s: "(si, sr) \<in> set (enumerate 0 ss)"
    and p: "p \<in> \<Union> (shape_points ` set (series_shapes (real_f64 pa sh fi) lx i xs ss si sr))"
    by (fastforce simp: panel_shapes_def pan axis_shapes_def tick_shapes_def level_shapes_def Let_def)
  from s have "sr \<in> set ss" by (auto simp: in_set_enumerate_eq)
  then show ?thesis using series_points [OF _ assms(1) _ p] assms(2) pan by force
qed

lemma all_panels_points:
  assumes "\<forall>x \<in> set xs. 0 \<le> x"
    and "\<forall>pan \<in> set panels. \<forall>v \<in> set (concat (map (snd \<circ> snd) (snd pan))). 0 \<le> v"
    and "p \<in> \<Union> (shape_points ` set (all_panels (real_f64 pa sh fi) lx xs panels))"
  shows "\<exists>i < length panels. in_plot i p"
proof -
  from assms(3) obtain i pan where e: "(i, pan) \<in> set (enumerate 0 panels)"
    and p: "p \<in> \<Union> (shape_points ` set (panel_shapes (real_f64 pa sh fi) lx xs i pan))"
    unfolding all_panels_def by auto
  from e have "i < length panels" "pan \<in> set panels" by (auto simp: in_set_enumerate_eq)
  with panel_points [OF assms(1) _ p] assms(2) show ?thesis by blast
qed

lemma perf_points:
  assumes "\<forall>r \<in> set rs. 0 \<le> rr_delivered_per_sec r \<and> 0 \<le> rr_p50_ms r \<and> 0 \<le> rr_p95_ms r \<and> 0 \<le> rr_p99_ms r"
    and "shape \<in> set (perf_shapes (real_f64 pa sh fi) rs)" and "p \<in> shape_points shape"
  shows "in_plot 0 p \<or> in_plot 1 p"
proof -
  let ?F = "real_f64 pa sh fi"
  have "\<forall>pan \<in> set (perf_panels rs). \<forall>v \<in> set (concat (map (snd \<circ> snd) (snd pan))). 0 \<le> v"
    using assms(1) by (auto simp: perf_panels_def)
  moreover have "\<forall>x \<in> set (map (f_of_nat ?F \<circ> rr_subscribers) rs). 0 \<le> x" by simp
  moreover have "p \<in> \<Union> (shape_points ` set (all_panels ?F
      (f_sub ?F (f_add ?F (margin_l ?F) (plot_w ?F)) (f_of_nat ?F 90))
      (map (f_of_nat ?F \<circ> rr_subscribers) rs) (perf_panels rs)))"
    using assms(2,3) by (auto simp: perf_shapes_def)
  ultimately have "\<exists>i < length (perf_panels rs). in_plot i p" using all_panels_points by blast
  then show ?thesis by (auto simp: perf_panels_def less_Suc_eq)
qed

section \<open>Percentiles\<close>

lemma pct_index:
  assumes "0 < n" and "m \<le> 100"
  shows "nat \<lfloor>(real n - 1) * (real m / 100)\<rfloor> < n"
proof -
  have "(real n - 1) * (real m / 100) \<le> (real n - 1) * 1"
    using assms by (intro mult_left_mono) auto
  then have "(real n - 1) * (real m / 100) < real n" by simp
  then have "\<lfloor>(real n - 1) * (real m / 100)\<rfloor> < int n" by (simp add: floor_less_iff)
  then show ?thesis using assms(1) by (simp add: nat_less_iff)
qed

lemma pct_index_mono:
  assumes "0 < n" and "m \<le> k"
  shows "nat \<lfloor>(real n - 1) * (real m / 100)\<rfloor> \<le> nat \<lfloor>(real n - 1) * (real k / 100)\<rfloor>"
  using assms by (intro nat_mono floor_mono mult_left_mono) auto

text \<open>The percentile is one of the latencies in milliseconds, and grows with the rank.\<close>

lemma pct_real:
  assumes "ls \<noteq> []" and "m \<le> 100"
  shows "pct (real_f64 pa sh fi) ls (real m / 100)
     = Some (real (unat (ls ! nat \<lfloor>(real (length ls) - 1) * (real m / 100)\<rfloor>)) / 1000000)"
  using assms pct_index [of "length ls" m] by (simp add: pct_def Let_def)

lemma finish_round_real:
  assumes "0 < duration"
  shows "\<exists>r. finish_round (real_f64 pa sh fi) s subs users delivered duration ls = Some r
    \<and> 0 \<le> rr_p50_ms r \<and> rr_p50_ms r \<le> rr_p95_ms r \<and> rr_p95_ms r \<le> rr_p99_ms r
    \<and> 0 \<le> rr_delivered_per_sec r
    \<and> (ls \<noteq> [] \<longrightarrow> (\<forall>p \<in> {rr_p50_ms r, rr_p95_ms r, rr_p99_ms r}. \<exists>l \<in> set ls. p = real (unat l) / 1000000))"
proof (cases "ls = []")
  case True
  then show ?thesis using assms by (simp add: finish_round_def pct_def Let_def)
next
  case False
  let ?F = "real_f64 pa sh fi" and ?n = "length ls" and ?s = "sort ls"
  let ?i = "\<lambda>m. nat \<lfloor>(real ?n - 1) * (real m / 100)\<rfloor>"
  let ?v = "\<lambda>m. real (unat (?s ! ?i m)) / 1000000"
  have n: "0 < ?n" using False by simp
  have ne: "?s \<noteq> []" using False by (metis length_sort length_0_conv)
  have pct: "pct ?F ?s (real m / 100) = Some (?v m)" if "m \<le> 100" for m
    using pct_real [OF ne that] by simp
  have mono: "?v m \<le> ?v k" if "m \<le> k" "k \<le> 100" for m k
  proof -
    have "?s ! ?i m \<le> ?s ! ?i k"
      using pct_index_mono [OF n that(1)] pct_index [OF n that(2)] by (intro sorted_nth_mono) simp_all
    then have "unat (?s ! ?i m) \<le> unat (?s ! ?i k)" by (simp only: word_le_nat_alt)
    then have "real (unat (?s ! ?i m)) \<le> real (unat (?s ! ?i k))" by (rule of_nat_mono)
    then show ?thesis by (rule divide_right_mono) simp
  qed
  have mem: "\<exists>l \<in> set ls. ?v m = real (unat l) / 1000000" if "m \<le> 100" for m
  proof -
    have "?s ! ?i m \<in> set ?s" using pct_index [OF n that] by (intro nth_mem) simp
    then show ?thesis by (intro bexI [of _ "?s ! ?i m"]) simp_all
  qed
  have "finish_round ?F s subs users delivered duration ls =
     Some \<lparr>rr_subscribers = subs, rr_users = users, rr_published = ps_messages s,
           rr_expected = expected_deliveries s, rr_delivered = delivered, rr_duration_secs = duration,
           rr_delivered_per_sec = real delivered / duration,
           rr_p50_ms = ?v 50, rr_p95_ms = ?v 95, rr_p99_ms = ?v 99\<rparr>"
    using pct [of 50] pct [of 95] pct [of 99] by (simp add: finish_round_def Let_def)
  moreover have "?v 50 \<le> ?v 95" "?v 95 \<le> ?v 99" using mono [of 50 95] mono [of 95 99] by simp_all
  moreover have "0 \<le> ?v 50" by (intro divide_nonneg_nonneg of_nat_0_le_iff) simp
  ultimately show ?thesis using assms mem [of 50] mem [of 95] mem [of 99] by simp
qed

end
