(* ===== verification/Perf_Main.thy ===== *)
theory Perf_Main
  imports Chart
begin

text \<open>
  The load generators as whole programs: \<open>run_round\<close> and \<open>main\<close> of \<open>src/bin/perf.rs\<close>,
  \<open>measure_scenario\<close> and \<open>main\<close> of \<open>src/bin/perf_resources.rs\<close>, with the clients they connect. What the
  HTTP client, the MQTT client, the docker commands and the file system answer are arguments; a run
  yields the names of the users it asked to create and to delete and the files it wrote. A panic is
  \<open>None\<close>.
\<close>

section \<open>Model\<close>

subsection \<open>Clients\<close>

text \<open>The options that the code sets on the MQTT client; \<open>mo_inflight\<close> is \<open>None\<close> where it keeps the default.\<close>

record mqtt_options =
  mo_client_id :: string
  mo_node :: "string \<times> nat"
  mo_username :: string
  mo_password :: string
  mo_keep_alive :: nat
  mo_inflight :: "nat option"
  mo_channel :: nat

definition subscriber_options :: "subscriber_plan \<Rightarrow> mqtt_options" where
  "subscriber_options p =
     \<lparr>mo_client_id = sp_client_id p, mo_node = sp_node p, mo_username = sp_username p,
      mo_password = ''perf-pass'', mo_keep_alive = 30, mo_inflight = None, mo_channel = 128\<rparr>"

text \<open>
  \<open>connect_subscriber\<close>: \<open>poll opts k\<close> are the events of the \<open>k\<close>-th attempt, \<open>subscribe\<close> the outcome of
  the subscription call and \<open>acks\<close> the events after it.
\<close>

definition finish_subscriber :: "unit result \<Rightarrow> mqtt_event list \<Rightarrow> unit result" where
  "finish_subscriber subscribe acks = rbind subscribe (\<lambda>_. await_suback acks)"

definition connect_subscriber ::
    "(mqtt_options \<Rightarrow> nat \<Rightarrow> mqtt_event list) \<Rightarrow> (subscriber_plan \<Rightarrow> unit result)
     \<Rightarrow> (subscriber_plan \<Rightarrow> mqtt_event list) \<Rightarrow> subscriber_plan \<Rightarrow> unit result" where
  "connect_subscriber poll subscribe acks p =
     rbind (snd (connect_attempts (\<lambda>k. await_connack (poll (subscriber_options p) k)) 1))
       (\<lambda>_. finish_subscriber (subscribe p) (acks p))"

definition publisher_name :: "string \<Rightarrow> string" where
  "publisher_name run_id = ''tok-pub-'' @ run_id"

definition publisher_options :: "perf_settings \<Rightarrow> string \<Rightarrow> nat \<Rightarrow> nat \<Rightarrow> mqtt_options" where
  "publisher_options s run_id subs p =
     \<lparr>mo_client_id = ''perf-pub-'' @ run_id @ ''-'' @ nat_string subs @ ''-'' @ nat_string p,
      mo_node = ps_nodes s ! (p mod length (ps_nodes s)), mo_username = publisher_name run_id,
      mo_password = ''perf-pass'', mo_keep_alive = 30, mo_inflight = Some (ps_inflight s),
      mo_channel = ps_channel_cap s\<rparr>"

fun await_publisher :: "mqtt_event list \<Rightarrow> unit result" where
  "await_publisher [] = Inl (OtherError ''publisher connack timeout'')"
| "await_publisher (EvConnAck success # evs) =
     (if success then Inr () else Inl (OtherError ''publisher rejected''))"
| "await_publisher (EvError e # evs) = Inl (OtherError (''publisher connect failed: '' @ e))"
| "await_publisher (ev # evs) = await_publisher evs"

text \<open>
  What the publisher \<open>p\<close> sends: it stops at the first call that fails, and without users the
  remainder panics in its task, whose failure is ignored.
\<close>

definition publisher_sends ::
    "perf_settings \<Rightarrow> string \<Rightarrow> nat \<Rightarrow> (nat \<Rightarrow> u64) \<Rightarrow> (nat \<Rightarrow> bool) \<Rightarrow> nat \<Rightarrow> (string \<times> string) list" where
  "publisher_sends s run_id users now accepted p =
     (if users = 0 then []
      else map (\<lambda>seq. (message_topic run_id users seq, message_payload (now seq) (ps_payload_size s)))
             (takeWhile accepted (publisher_seqs s p)))"

subsection \<open>A round\<close>

text \<open>
  What a round observes: the outcomes of the connections, the events of a subscriber's task until
  the latencies are collected and those until the counter is read, and the duration.
\<close>

record 'f round_inputs =
  ri_connect :: "subscriber_plan \<Rightarrow> unit result"
  ri_publisher :: "mqtt_options \<Rightarrow> mqtt_event list"
  ri_seen :: "subscriber_plan \<Rightarrow> mqtt_event list"
  ri_later :: "subscriber_plan \<Rightarrow> mqtt_event list"
  ri_duration :: 'f

definition round_latencies :: "'f round_inputs \<Rightarrow> subscriber_plan list \<Rightarrow> u64 list" where
  "round_latencies inp plans = concat (map (\<lambda>p. snd (subscriber_task (ri_seen inp p))) plans)"

definition round_delivered :: "'f round_inputs \<Rightarrow> subscriber_plan list \<Rightarrow> nat" where
  "round_delivered inp plans =
     sum_list (map (\<lambda>p. fst (subscriber_task (ri_seen inp p @ ri_later inp p))) plans)"

definition run_round ::
    "'f f64_ops \<Rightarrow> perf_settings \<Rightarrow> string \<Rightarrow> 'f round_inputs \<Rightarrow> nat \<Rightarrow> 'f round_result result option" where
  "run_round F s run_id inp subs =
     Option.bind (perf_users (ps_devices_per_user s) subs) (\<lambda>users.
       case collect_results (\<lambda>i. rbind (ri_connect inp (subscriber_at s run_id i))
                                   (\<lambda>_. Inr (subscriber_at s run_id i))) [0..<subs] of
         Inl e \<Rightarrow> Some (Inl e)
       | Inr plans \<Rightarrow>
           (case collect_results (\<lambda>p. await_publisher (ri_publisher inp (publisher_options s run_id subs p)))
                   [0..<num_pubs s] of
              Inl e \<Rightarrow> Some (Inl e)
            | Inr _ \<Rightarrow>
                map_option Inr
                  (finish_round F s subs users (round_delivered inp plans) (ri_duration inp)
                     (round_latencies inp plans))))"

fun run_rounds :: "('a \<Rightarrow> 'r result option) \<Rightarrow> 'a list \<Rightarrow> 'r list result option" where
  "run_rounds f [] = Some (Inr [])"
| "run_rounds f (x # xs) =
     Option.bind (f x) (\<lambda>res.
       case res of
         Inl e \<Rightarrow> Some (Inl e)
       | Inr r \<Rightarrow> map_option (\<lambda>rest. rbind rest (\<lambda>rs. Inr (r # rs))) (run_rounds f xs))"

subsection \<open>The programs\<close>

record bench_outcome =
  bo_created :: "string list"
  bo_deleted :: "string list"
  bo_files :: "(string \<times> string) list"
  bo_result :: "unit result"

fun write_files ::
    "(string \<Rightarrow> unit result) \<Rightarrow> (string \<times> string) list \<Rightarrow> (string \<times> string) list \<times> unit result" where
  "write_files wr [] = ([], Inr ())"
| "write_files wr ((path, content) # fs) =
     (case wr path of
        Inl e \<Rightarrow> ([], Inl e)
      | Inr _ \<Rightarrow> (let (written, res) = write_files wr fs in ((path, content) # written, res)))"

definition bench_done ::
    "(string \<Rightarrow> unit result) \<Rightarrow> string list \<Rightarrow> (string \<times> string) list \<Rightarrow> bench_outcome" where
  "bench_done wr names files =
     (let (written, res) = write_files wr files
      in \<lparr>bo_created = names, bo_deleted = names, bo_files = written, bo_result = res\<rparr>)"

definition bench_failed :: "string list \<Rightarrow> error \<Rightarrow> bench_outcome" where
  "bench_failed names e = \<lparr>bo_created = names, bo_deleted = [], bo_files = [], bo_result = Inl e\<rparr>"

definition perf_max_users :: "perf_settings \<Rightarrow> nat option" where
  "perf_max_users s = perf_users (ps_devices_per_user s) (foldl max 0 (ps_sub_counts s))"

definition perf_user_names :: "string \<Rightarrow> nat \<Rightarrow> string list" where
  "perf_user_names run_id n = map (user_name_at run_id) [0..<n]"

text \<open>
  \<open>main\<close> of \<open>perf.rs\<close>: all users are asked for before the first error is looked at; the users are
  removed only when every round succeeded.
\<close>

definition perf_run ::
    "'f f64_ops \<Rightarrow> (string \<Rightarrow> string \<Rightarrow> create_user_req \<Rightarrow> nat result) \<Rightarrow> (nat \<Rightarrow> 'f round_inputs)
     \<Rightarrow> (string \<Rightarrow> unit result) \<Rightarrow> perf_settings \<Rightarrow> string \<Rightarrow> nat \<Rightarrow> bench_outcome option" where
  "perf_run F post inp wr s run_id n =
     (let pub = publisher_name run_id; names = pub # perf_user_names run_id n
      in case perf_create_user post (ps_api s) (ps_token s) pub ''svc-perf'' True of
           Inl e \<Rightarrow> Some (bench_failed [pub] e)
         | Inr _ \<Rightarrow>
             (case collect_results (\<lambda>i. perf_create_user post (ps_api s) (ps_token s)
                      (user_name_at run_id i) (user_id_at run_id i) False) [0..<n] of
                Inl e \<Rightarrow> Some (bench_failed names e)
              | Inr _ \<Rightarrow>
                  Option.bind (run_rounds (\<lambda>k. run_round F s run_id (inp k) k) (ps_sub_counts s)) (\<lambda>res.
                    case res of
                      Inl e \<Rightarrow> Some (bench_failed names e)
                    | Inr rs \<Rightarrow>
                        Some (bench_done wr names
                          [(csv_path (ps_out s), perf_csv F rs), (ps_out s, render_svg F rs)]))))"

definition perf_main ::
    "'f f64_ops \<Rightarrow> env \<Rightarrow> u64 \<Rightarrow> (string \<Rightarrow> string \<Rightarrow> create_user_req \<Rightarrow> nat result)
     \<Rightarrow> (nat \<Rightarrow> 'f round_inputs) \<Rightarrow> (string \<Rightarrow> unit result) \<Rightarrow> bench_outcome option" where
  "perf_main F env now post inp wr =
     (case load_settings env of
        Inl e \<Rightarrow> Some (bench_failed [] e)
      | Inr s \<Rightarrow> Option.bind (perf_max_users s) (perf_run F post inp wr s (run_id_of now)))"

subsection \<open>The resource benchmark\<close>

definition res_create_user ::
    "(string \<Rightarrow> string \<Rightarrow> create_user_req \<Rightarrow> nat result) \<Rightarrow> res_settings \<Rightarrow> string \<Rightarrow> string \<Rightarrow> unit result" where
  "res_create_user post s uname userid =
     rbind (post (rs_api s @ ''/api/v1/users'') (rs_token s)
              \<lparr>cu_username = uname, cu_userid = userid, cu_password = ''perf-pass'',
               cu_superuser = True, cu_admin = False\<rparr>)
       (\<lambda>status. if status = 201 \<or> status = 409 then Inr ()
                 else Inl (HttpError (''creating '' @ uname)))"

definition res_delete_url :: "res_settings \<Rightarrow> string \<Rightarrow> string" where
  "res_delete_url s uname = rs_api s @ ''/api/v1/users/'' @ uname"

text \<open>The client options are those of \<open>perf.rs\<close>; the network timeout is not a behaviour of the model.\<close>

definition res_connect_subscriber ::
    "(mqtt_options \<Rightarrow> nat \<Rightarrow> mqtt_event list) \<Rightarrow> (subscriber_plan \<Rightarrow> unit result)
     \<Rightarrow> (subscriber_plan \<Rightarrow> mqtt_event list) \<Rightarrow> subscriber_plan \<Rightarrow> unit result" where
  "res_connect_subscriber poll subscribe acks p =
     (case connect_attempts (\<lambda>k. await_connack (poll (subscriber_options p) k)) 1 of
        (_, Inl e) \<Rightarrow> Inl e
      | (_, Inr _) \<Rightarrow> rbind (subscribe p) (\<lambda>_. await_suback (acks p)))"

text \<open>The task of a subscriber only counts.\<close>

fun res_subscriber_task :: "mqtt_event list \<Rightarrow> nat" where
  "res_subscriber_task [] = 0"
| "res_subscriber_task (EvPublish payload recv # evs) = Suc (res_subscriber_task evs)"
| "res_subscriber_task (EvDisconnect # evs) = 0"
| "res_subscriber_task (EvError e # evs) = 0"
| "res_subscriber_task (ev # evs) = res_subscriber_task evs"

record res_scenario =
  sc_tag :: string
  sc_label :: string
  sc_qos :: "qos option"

definition scenarios :: "res_settings \<Rightarrow> res_scenario list" where
  "scenarios s =
     [\<lparr>sc_tag = ''idle'', sc_label = ''idle subscribers'', sc_qos = None\<rparr>,
      \<lparr>sc_tag = ''qos1'', sc_label = ''subscribers sending '' @ nat_string (rs_msg_rate s) @ '' msg/s qos1'',
       sc_qos = Some AtLeastOnce\<rparr>,
      \<lparr>sc_tag = ''qos2'', sc_label = ''subscribers sending '' @ nat_string (rs_msg_rate s) @ '' msg/s qos2'',
       sc_qos = Some ExactlyOnce\<rparr>]"

text \<open>The publishers that a scenario starts: topic, quality of service and payload of each.\<close>

definition scenario_publishers ::
    "res_settings \<Rightarrow> subscriber_plan list \<Rightarrow> qos option \<Rightarrow> (string \<times> qos \<times> bytes) list" where
  "scenario_publishers s subs q =
     (case q of
        Some q \<Rightarrow> map (\<lambda>p. (sp_topic p, q, replicate (rs_payload_size s) 120)) subs
      | None \<Rightarrow> [])"

text \<open>
  What a measurement observes: the outputs of \<open>docker stats\<close>, the length of the window and the
  counter of deliveries before and after it.
\<close>

type_synonym 'f observation = "(nat \<Rightarrow> command_output) \<times> 'f \<times> nat \<times> nat"

text \<open>
  \<open>measure_scenario\<close>: the publishers run during the measurement, on which the observation \<open>obs\<close> may
  depend, and are stopped afterwards whatever its result. \<open>iter\<close> is the order of iteration over the
  hash map of the samples.
\<close>

definition measure_scenario ::
    "'f f64_ops \<Rightarrow> ((string \<times> 'f \<times> 'f) list \<Rightarrow> (string \<times> 'f \<times> 'f) list) \<Rightarrow> res_settings \<Rightarrow> string list
     \<Rightarrow> ((string \<times> qos \<times> bytes) list \<Rightarrow> 'f observation) \<Rightarrow> subscriber_plan list \<Rightarrow> nat \<Rightarrow> qos option
     \<Rightarrow> 'f level_result result" where
  "measure_scenario F iter s ids obs subs level q =
     (let (outs, elapsed, d0, d1) = obs (scenario_publishers s subs q)
      in measure_level F s ids (\<lambda>k. sample_stats F iter (outs k) ids) level elapsed d0 d1)"

definition scenario_files ::
    "'f f64_ops \<Rightarrow> res_settings \<Rightarrow> res_scenario \<times> 'f level_result list \<Rightarrow> (string \<times> string) list option" where
  "scenario_files F s = (\<lambda>(sc, rs).
     let svg = res_svg_path (rs_out s) (sc_tag sc)
     in Option.bind (csv_text F (rs_services s) rs) (\<lambda>csv.
        Option.bind (res_render_svg F (rs_services s) rs (sc_label sc)) (\<lambda>chart.
          Some [(csv_path svg, csv), (svg, chart), (peruser_path svg, render_peruser_svg F rs (sc_label sc))])))"

fun all_files :: "('a \<Rightarrow> 'b list option) \<Rightarrow> 'a list \<Rightarrow> 'b list option" where
  "all_files f [] = Some []"
| "all_files f (x # xs) = Option.bind (f x) (\<lambda>fs. map_option (\<lambda>rest. fs @ rest) (all_files f xs))"

text \<open>
  \<open>main\<close> of \<open>perf_resources.rs\<close> after the settings, the containers and the number of users are known;
  \<open>obs level si pubs\<close> is what is observed of a scenario at a level.
\<close>

definition res_run ::
    "'f f64_ops \<Rightarrow> ((string \<times> 'f \<times> 'f) list \<Rightarrow> (string \<times> 'f \<times> 'f) list)
     \<Rightarrow> (string \<Rightarrow> string \<Rightarrow> create_user_req \<Rightarrow> nat result) \<Rightarrow> (subscriber_plan \<Rightarrow> unit result)
     \<Rightarrow> (nat \<Rightarrow> nat \<Rightarrow> (string \<times> qos \<times> bytes) list \<Rightarrow> 'f observation) \<Rightarrow> (string \<Rightarrow> unit result)
     \<Rightarrow> res_settings \<Rightarrow> string list \<Rightarrow> string \<Rightarrow> nat \<Rightarrow> bench_outcome option" where
  "res_run F iter post connect obs wr s ids run_id n =
     (let names = perf_user_names run_id n;
          scenario = (\<lambda>subs level si.
            measure_scenario F iter s ids (obs level si) subs level (sc_qos (scenarios s ! si)))
      in case collect_results (\<lambda>i. res_create_user post s (user_name_at run_id i) (user_id_at run_id i))
                [0..<n] of
           Inl e \<Rightarrow> Some (bench_failed names e)
         | Inr _ \<Rightarrow>
             (case ramp s run_id connect scenario (rs_sub_levels s) [] (map (\<lambda>_. []) (scenarios s)) of
                Inl e \<Rightarrow> Some (bench_failed names e)
              | Inr (_, results) \<Rightarrow>
                  map_option (bench_done wr names)
                    (all_files (scenario_files F s) (zip (scenarios s) results))))"

definition res_main ::
    "'f f64_ops \<Rightarrow> ((string \<times> 'f \<times> 'f) list \<Rightarrow> (string \<times> 'f \<times> 'f) list) \<Rightarrow> env \<Rightarrow> u64
     \<Rightarrow> (string \<Rightarrow> command_output) \<Rightarrow> (string \<Rightarrow> string \<Rightarrow> create_user_req \<Rightarrow> nat result)
     \<Rightarrow> (subscriber_plan \<Rightarrow> unit result) \<Rightarrow> (nat \<Rightarrow> nat \<Rightarrow> (string \<times> qos \<times> bytes) list \<Rightarrow> 'f observation)
     \<Rightarrow> (string \<Rightarrow> unit result) \<Rightarrow> bench_outcome option" where
  "res_main F iter env now docker_ps post connect obs wr =
     (case rbind (res_load_settings env)
             (\<lambda>s. rbind (resolve_containers docker_ps (rs_services s)) (\<lambda>ids. Inr (s, ids))) of
        Inl e \<Rightarrow> Some (bench_failed [] e)
      | Inr (s, ids) \<Rightarrow>
          Option.bind (res_max_users s) (res_run F iter post connect obs wr s ids (run_id_of now)))"

section \<open>Rounds\<close>

lemma run_rounds_Inr:
  "run_rounds f xs = Some (Inr rs) \<Longrightarrow> list_all2 (\<lambda>x r. f x = Some (Inr r)) xs rs"
proof (induction xs arbitrary: rs)
  case (Cons x xs)
  then obtain r where r: "f x = Some (Inr r)"
    by (cases "f x") (auto split: sum.splits)
  with Cons.prems obtain rest where "run_rounds f xs = Some rest" "rbind rest (\<lambda>rs. Inr (r # rs)) = Inr rs"
    by auto
  with r Cons.IH show ?case by (cases rest) auto
qed simp

lemma run_rounds_total: "\<forall>x \<in> set xs. f x \<noteq> None \<Longrightarrow> run_rounds f xs \<noteq> None"
  by (induction xs) (auto split: sum.splits)

lemma run_round_measured:
  assumes "run_round F s run_id inp subs = Some (Inr r)"
  shows "\<exists>users delivered ls. finish_round F s subs users delivered (ri_duration inp) ls = Some r"
  using assms by (cases "perf_users (ps_devices_per_user s) subs") (auto simp: run_round_def split: sum.splits)

lemma finish_round_subs: "finish_round F s subs users delivered dur ls = Some r \<Longrightarrow> rr_subscribers r = subs"
  by (auto simp: finish_round_def Let_def bind_eq_Some_conv)

lemma run_round_total:
  assumes "0 < ps_devices_per_user s" and "0 < ri_duration inp"
  shows "run_round (real_f64 pa sh fi) s run_id inp subs \<noteq> None"
  using assms finish_round_real [OF assms(2)]
  by (auto simp: run_round_def perf_users_def split: sum.splits) (metis option.distinct(1))

text \<open>A subscriber of a round logs in as a user that was provisioned.\<close>

lemma perf_subscriber_provisioned:
  assumes "perf_max_users s = Some n" and "subs \<in> set (ps_sub_counts s)" and "i < subs"
  shows "sp_username (subscriber_at s run_id i) \<in> set (perf_user_names run_id n)"
proof -
  let ?d = "ps_devices_per_user s" and ?m = "foldl max 0 (ps_sub_counts s)"
  have d: "0 < ?d" and n: "n = (?m + ?d - 1) div ?d"
    using assms(1) by (auto simp: perf_max_users_def perf_users_def split: if_splits)
  have "i < ?m" using assms(2,3) foldl_max_ge [of 0 "ps_sub_counts s"] by (metis order_less_le_trans)
  then have "i div ?d \<le> (?m - 1) div ?d" by (intro div_le_mono) simp
  also have "\<dots> < n" using \<open>i < ?m\<close> d n div_add_self2 [of ?d "?m - 1"] by simp
  finally have "i div ?d < n" .
  then show ?thesis by (simp add: subscriber_at_def Let_def perf_user_names_def)
qed

section \<open>Files\<close>

lemma write_files_all: "write_files wr fs = (ws, Inr ()) \<Longrightarrow> ws = fs"
  by (induction fs arbitrary: ws) (auto split: sum.splits prod.splits)

lemma bench_done_ok:
  "bo_result (bench_done wr names fs) = Inr () \<Longrightarrow> bo_files (bench_done wr names fs) = fs"
  "bo_created (bench_done wr names fs) = names" "bo_deleted (bench_done wr names fs) = names"
  by (auto simp: bench_done_def write_files_all split: prod.splits)

lemma perf_run_ok:
  assumes "perf_run F post inp wr s run_id n = Some out" and "bo_result out = Inr ()"
  shows "\<exists>rs. run_rounds (\<lambda>k. run_round F s run_id (inp k) k) (ps_sub_counts s) = Some (Inr rs)
    \<and> out = bench_done wr (publisher_name run_id # perf_user_names run_id n)
        [(csv_path (ps_out s), perf_csv F rs), (ps_out s, render_svg F rs)]"
  using assms
  by (cases "run_rounds (\<lambda>k. run_round F s run_id (inp k) k) (ps_sub_counts s)")
     (auto simp: perf_run_def Let_def bench_failed_def split: sum.splits)

lemma perf_run_total:
  assumes "0 < ps_devices_per_user s" and "\<And>k. 0 < ri_duration (inp k)"
  shows "\<exists>out. perf_run (real_f64 pa sh fi) post inp wr s run_id n = Some out"
proof -
  have "run_rounds (\<lambda>k. run_round (real_f64 pa sh fi) s run_id (inp k) k) (ps_sub_counts s) \<noteq> None"
    by (rule run_rounds_total) (use run_round_total assms in blast)
  then show ?thesis by (auto simp: perf_run_def Let_def split: sum.splits)
qed

section \<open>The files of the resource benchmark\<close>

lemma all_files_some:
  "\<forall>x \<in> set xs. \<exists>fs. f x = Some fs \<Longrightarrow> all_files f xs = Some (concat (map (the \<circ> f) xs))"
  by (induction xs) auto

text \<open>The results of one scenario: one column per service.\<close>

definition columns_ok :: "string list \<Rightarrow> 'f level_result list \<Rightarrow> bool" where
  "columns_ok services rs \<longleftrightarrow>
     (\<forall>r \<in> set rs. length (lr_cpu_pct r) = length services \<and> length (lr_mem_mb r) = length services)"

lemma table_rows:
  assumes "columns_ok services rs" and "\<forall>svc \<in> set services. CHR '','' \<notin> set svc"
    and "\<And>d x. CHR '','' \<notin> set (f_fixed F d x)"
  shows "\<exists>rows. csv_text F services rs
       = Some (csv_header services @ [CHR 0x0A] @ concat (map (\<lambda>row. row @ [CHR 0x0A]) rows))
    \<and> map (csv_row F services) rs = map Some rows
    \<and> (\<forall>row \<in> set (csv_header services # rows). commas row + 1 = 2 * length services + 7)"
proof -
  obtain rows where rows: "map (csv_row F services) rs = map Some rows"
    and body: "csv_rows F services rs = Some (concat (map (\<lambda>row. row @ [CHR 0x0A]) rows))"
    using csv_rows_some [of rs services F] assms(1) by (auto simp: columns_ok_def)
  have "commas row = 2 * length services + 6" if row: "row \<in> set rows" for row
  proof -
    have "Some row \<in> set (map (csv_row F services) rs)" using row unfolding rows by simp
    then show ?thesis using csv_row_commas [OF _ assms(3)] by auto
  qed
  with csv_header_commas [OF assms(2)] rows body show ?thesis
    by (intro exI [of _ rows]) (auto simp: csv_text_def)
qed

lemma scenario_files_some:
  assumes "columns_ok (rs_services s) rs"
  shows "\<exists>csv chart. csv_text F (rs_services s) rs = Some csv
    \<and> scenario_files F s (sc, rs) = Some
        [(csv_path (res_svg_path (rs_out s) (sc_tag sc)), csv),
         (res_svg_path (rs_out s) (sc_tag sc), chart),
         (peruser_path (res_svg_path (rs_out s) (sc_tag sc)), render_peruser_svg F rs (sc_label sc))]"
proof -
  have cols: "list_all (\<lambda>r. length (rs_services s) \<le> length (lr_cpu_pct r)) rs"
    "list_all (\<lambda>r. length (rs_services s) \<le> length (lr_mem_mb r)) rs"
    using assms by (auto simp: columns_ok_def list_all_iff)
  obtain rows where "csv_rows F (rs_services s) rs = Some (concat (map (\<lambda>row. row @ [CHR 0x0A]) rows))"
    using csv_rows_some [of rs "rs_services s" F] assms by (auto simp: columns_ok_def)
  then show ?thesis using cols by (auto simp: scenario_files_def csv_text_def res_render_svg_def node_series_def Let_def)
qed

text \<open>
  What it means that a scenario was written: a table with one row per result, whose header and rows
  have two fields per service and seven more, and the two charts.
\<close>

definition scenario_written ::
    "'f f64_ops \<Rightarrow> res_settings \<Rightarrow> (string \<times> string) set \<Rightarrow> res_scenario \<Rightarrow> 'f level_result list \<Rightarrow> bool" where
  "scenario_written F s files sc rs \<longleftrightarrow>
     (\<exists>rows chart. length rows = length rs
        \<and> (\<forall>row \<in> set (csv_header (rs_services s) # rows). commas row + 1 = 2 * length (rs_services s) + 7)
        \<and> {(csv_path (res_svg_path (rs_out s) (sc_tag sc)),
             csv_header (rs_services s) @ [CHR 0x0A] @ concat (map (\<lambda>row. row @ [CHR 0x0A]) rows)),
           (res_svg_path (rs_out s) (sc_tag sc), chart),
           (peruser_path (res_svg_path (rs_out s) (sc_tag sc)), render_peruser_svg F rs (sc_label sc))}
          \<subseteq> files)"

lemma scenario_files_written:
  assumes "columns_ok (rs_services s) rs" and "\<forall>svc \<in> set (rs_services s). CHR '','' \<notin> set svc"
    and "\<And>d x. CHR '','' \<notin> set (f_fixed F d x)" and "set (the (scenario_files F s (sc, rs))) \<subseteq> files"
  shows "scenario_written F s files sc rs"
proof -
  let ?svcs = "rs_services s"
  obtain rows where rows: "csv_text F ?svcs rs
       = Some (csv_header ?svcs @ [CHR 0x0A] @ concat (map (\<lambda>row. row @ [CHR 0x0A]) rows))"
    and len: "map (csv_row F ?svcs) rs = map Some rows"
    and fields: "\<forall>row \<in> set (csv_header ?svcs # rows). commas row + 1 = 2 * length ?svcs + 7"
    using table_rows [where F = F, OF assms(1-3)] by blast
  have "length rows = length rs" using arg_cong [OF len, of length] by simp
  moreover obtain csv chart where "csv_text F ?svcs rs = Some csv" "scenario_files F s (sc, rs) = Some
        [(csv_path (res_svg_path (rs_out s) (sc_tag sc)), csv),
         (res_svg_path (rs_out s) (sc_tag sc), chart),
         (peruser_path (res_svg_path (rs_out s) (sc_tag sc)), render_peruser_svg F rs (sc_label sc))]"
    using scenario_files_some [OF assms(1), of F sc] by blast
  ultimately show ?thesis
    unfolding scenario_written_def using rows fields assms(4)
    by (intro exI [of _ rows] exI [of _ chart]) simp
qed

lemma length_scenarios: "length (scenarios s) = 3"
  by (simp add: scenarios_def)

text \<open>What the ramp collects.\<close>

lemma ramp_columns:
  assumes "ramp s run_id connect
      (\<lambda>subs level si. measure_scenario F iter s ids (obs level si) subs level (sc_qos (scenarios s ! si)))
      (rs_sub_levels s) [] (map (\<lambda>_. []) (scenarios s)) = Inr (subs, results)"
    and "sorted (rs_sub_levels s)" and "length ids = length (rs_services s)"
  shows "length results = 3"
    and "rs \<in> set results \<Longrightarrow> columns_ok (rs_services s) rs \<and> map lr_subscribers rs = rs_sub_levels s"
proof -
  let ?sc = "\<lambda>subs level si. measure_scenario F iter s ids (obs level si) subs level (sc_qos (scenarios s ! si))"
  let ?plans = "\<lambda>l. map (res_subscriber_at s run_id) [0..<l]"
  have r: "length results = 3 \<and> (\<forall>si < 3. length (results ! si) = length (rs_sub_levels s)
      \<and> (\<forall>k < length (rs_sub_levels s). ?sc (?plans (rs_sub_levels s ! k)) (rs_sub_levels s ! k) si
           = Inr (results ! si ! k)))"
    using ramp_result [OF assms(1), of 0] assms(2) length_scenarios [of s] by simp
  then show "length results = 3" by simp
  assume "rs \<in> set results"
  then obtain si where si: "si < 3" "rs = results ! si" using r by (metis in_set_conv_nth)
  have len: "length rs = length (rs_sub_levels s)" using r si by simp
  have el: "length (lr_cpu_pct (rs ! k)) = length ids \<and> length (lr_mem_mb (rs ! k)) = length ids
      \<and> lr_subscribers (rs ! k) = rs_sub_levels s ! k" if "k < length rs" for k
  proof -
    have "?sc (?plans (rs_sub_levels s ! k)) (rs_sub_levels s ! k) si = Inr (rs ! k)"
      using r si that len by simp
    then show ?thesis
      using measure_level_columns [OF _ sample_stats_length]
      by (fastforce simp: measure_scenario_def split: prod.splits)
  qed
  have "columns_ok (rs_services s) rs"
    using el assms(3) unfolding columns_ok_def by (metis in_set_conv_nth)
  moreover have "map lr_subscribers rs = rs_sub_levels s"
    using el len by (intro nth_equalityI) simp_all
  ultimately show "columns_ok (rs_services s) rs \<and> map lr_subscribers rs = rs_sub_levels s" by simp
qed

lemma res_run_outcome:
  assumes "sorted (rs_sub_levels s)" and "length ids = length (rs_services s)"
  shows "\<exists>out. res_run F iter post connect obs wr s ids run_id n = Some out
    \<and> (bo_result out = Inr () \<longrightarrow> bo_created out = perf_user_names run_id n \<and> bo_deleted out = bo_created out
       \<and> (\<exists>results. length results = 3
            \<and> (\<forall>rs \<in> set results. columns_ok (rs_services s) rs \<and> map lr_subscribers rs = rs_sub_levels s)
            \<and> bo_files out = concat (map (the \<circ> scenario_files F s) (zip (scenarios s) results))))"
proof (cases "collect_results (\<lambda>i. res_create_user post s (user_name_at run_id i) (user_id_at run_id i)) [0..<n]")
  case (Inl e)
  then show ?thesis by (simp add: res_run_def bench_failed_def)
next
  case created: (Inr us)
  let ?sc = "\<lambda>subs level si. measure_scenario F iter s ids (obs level si) subs level (sc_qos (scenarios s ! si))"
  show ?thesis
  proof (cases "ramp s run_id connect ?sc (rs_sub_levels s) [] (map (\<lambda>_. []) (scenarios s))")
    case (Inl e)
    with created show ?thesis by (simp add: res_run_def bench_failed_def)
  next
    case (Inr p)
    then obtain subs results where
      ramped: "ramp s run_id connect ?sc (rs_sub_levels s) [] (map (\<lambda>_. []) (scenarios s)) = Inr (subs, results)"
      by (cases p) auto
    note cols = ramp_columns [OF ramped assms]
    have "\<forall>x \<in> set (zip (scenarios s) results). \<exists>fs. scenario_files F s x = Some fs"
    proof
      fix x assume "x \<in> set (zip (scenarios s) results)"
      then obtain sc rs where x: "x = (sc, rs)" "rs \<in> set results" by (metis prod.collapse set_zip_rightD)
      then show "\<exists>fs. scenario_files F s x = Some fs" using scenario_files_some cols(2) by blast
    qed
    from all_files_some [OF this] created ramped have
      "res_run F iter post connect obs wr s ids run_id n = Some (bench_done wr (perf_user_names run_id n)
         (concat (map (the \<circ> scenario_files F s) (zip (scenarios s) results))))"
      by (simp add: res_run_def)
    then show ?thesis using bench_done_ok cols by metis
  qed
qed

end
