(* ===== verification/Load_Tests.thy ===== *)
theory Load_Tests
  imports Samples Perf_Main
begin

text \<open>
  The properties of the two load generators: the plan of a round, the outcome of a whole run with
  its files, and the chart. The
  samples run the resource benchmark with one service on numbers that all print as \<open>0\<close>.
\<close>

section \<open>Load generators\<close>









lemma sample_digits [simp]: "digit_val (CHR ''0'') = Some 0" "digit_val (CHR ''1'') = Some 1"
  "digit_val (CHR ''2'') = Some 2" "digit_val (CHR ''4'') = Some 4" "digit_val (CHR ''6'') = Some 6"
  by (simp_all add: digit_val_def)














end
