(* ===== verification/Interleaving.thy ===== *)
theory Interleaving
  imports Prelude
begin

text \<open>
  Concurrent requests. A request is a program of atomic actions on a shared state: each action
  reads the state, may change it, and decides how the program goes on; between two actions other
  requests may act. A server starts with no request; requests arrive at any time, and any request
  that is not finished may do its next action. The run carries the set of all states visited so
  far, so that a property can say that something was true at some time.

  The main lemma is the usual rule for interference: an invariant of the shared state that every
  action of every request keeps, whatever the others did in between, holds throughout, and every
  result satisfies what its program promises about the states visited.
\<close>

section \<open>Programs\<close>

datatype ('s, 'r) prog =
    Return 'r
  | Atomic "'s \<Rightarrow> 's" "'s \<Rightarrow> ('s, 'r) prog"

definition atomic :: "('s \<Rightarrow> 's \<times> 'a) \<Rightarrow> ('a \<Rightarrow> ('s, 'r) prog) \<Rightarrow> ('s, 'r) prog" where
  "atomic f k = Atomic (\<lambda>s. fst (f s)) (\<lambda>s. k (snd (f s)))"

definition inspect :: "('s \<Rightarrow> 'a) \<Rightarrow> ('a \<Rightarrow> ('s, 'r) prog) \<Rightarrow> ('s, 'r) prog" where
  "inspect g k = Atomic (\<lambda>s. s) (\<lambda>s. k (g s))"

definition update :: "('s \<Rightarrow> 's) \<Rightarrow> ('s, 'r) prog \<Rightarrow> ('s, 'r) prog" where
  "update f p = Atomic f (\<lambda>_. p)"

lemmas action_defs = atomic_def inspect_def update_def

text \<open>A program that runs alone.\<close>

primrec run :: "('s, 'r) prog \<Rightarrow> 's \<Rightarrow> 's \<times> 'r" where
  "run (Return r) s = (s, r)"
| "run (Atomic f k) s = run (k s) (f s)"

lemma run_actions [simp]:
  "run (atomic f k) s = run (k (snd (f s))) (fst (f s))"
  "run (inspect g k) s = run (k (g s)) s"
  "run (update u p) s = run p (u s)"
  by (simp_all add: action_defs)

text \<open>A bound on the number of actions.\<close>

fun at_most :: "nat \<Rightarrow> ('s, 'r) prog \<Rightarrow> bool" where
  "at_most n (Return r) \<longleftrightarrow> True"
| "at_most 0 (Atomic f k) \<longleftrightarrow> False"
| "at_most (Suc n) (Atomic f k) \<longleftrightarrow> (\<forall>s. at_most n (k s))"

lemma at_most_actions [simp]:
  "at_most (Suc n) (atomic f k) \<longleftrightarrow> (\<forall>s. at_most n (k (snd (f s))))"
  "at_most (Suc n) (inspect g k) \<longleftrightarrow> (\<forall>s. at_most n (k (g s)))"
  "at_most (Suc n) (update u p) \<longleftrightarrow> at_most n p"
  by (simp_all add: action_defs)

lemma at_most_mono: "at_most m p \<Longrightarrow> m \<le> n \<Longrightarrow> at_most n p"
proof (induction m p arbitrary: n rule: at_most.induct)
  case (3 m f k)
  then show ?case by (cases n) auto
qed simp_all

section \<open>Pools\<close>

definition pool_act :: "nat \<Rightarrow> 's \<times> ('s, 'r) prog list \<Rightarrow> 's \<times> ('s, 'r) prog list" where
  "pool_act i c =
     (case c of (s, ps) \<Rightarrow>
        if i < length ps
        then (case ps ! i of Return r \<Rightarrow> (s, ps) | Atomic f k \<Rightarrow> (f s, ps[i := k s]))
        else (s, ps))"

text \<open>The requests named by a schedule act one after the other.\<close>

definition exec :: "nat list \<Rightarrow> 's \<times> ('s, 'r) prog list \<Rightarrow> 's \<times> ('s, 'r) prog list" where
  "exec sched c = fold pool_act sched c"

lemma exec_simps [simp]:
  "exec [] c = c" "exec (i # is) c = exec is (pool_act i c)" "exec (is @ js) c = exec js (exec is c)"
  by (simp_all add: exec_def)

inductive serve ::
    "('s, 'r) prog set \<Rightarrow> 's \<Rightarrow> 's set \<Rightarrow> 's \<Rightarrow> ('s, 'r) prog list \<Rightarrow> bool"
  for R :: "('s, 'r) prog set" and s0 :: 's where
  idle: "serve R s0 {s0} s0 []"
| arrive: "serve R s0 h s ps \<Longrightarrow> p \<in> R \<Longrightarrow> serve R s0 h s (ps @ [p])"
| work: "serve R s0 h s ps \<Longrightarrow> i < length ps \<Longrightarrow> ps ! i = Atomic f k \<Longrightarrow>
    serve R s0 (insert (f s) h) (f s) (ps[i := k s])"

lemma serve_visited: "serve R s0 h s ps \<Longrightarrow> s \<in> h \<and> s0 \<in> h"
  by (induction rule: serve.induct) auto

lemma serve_arrive_all: "serve R s0 h s ps \<Longrightarrow> set qs \<subseteq> R \<Longrightarrow> serve R s0 h s (ps @ qs)"
proof (induction qs rule: rev_induct)
  case (snoc q qs)
  then show ?case using serve.arrive [of R s0 h s "ps @ qs" q] by simp
qed simp

lemma serve_pool_act:
  assumes "serve R s0 h s ps" and "pool_act i (s, ps) = (s', ps')"
  shows "\<exists>h'. serve R s0 h' s' ps'"
  using assms serve.work [OF assms(1)]
  by (auto simp: pool_act_def split: if_splits prog.splits)

lemma serve_exec:
  assumes "serve R s0 h s ps" and "exec sched (s, ps) = (s', ps')"
  shows "\<exists>h'. serve R s0 h' s' ps'"
  using assms
proof (induction sched arbitrary: h s ps)
  case (Cons i sched)
  obtain s1 ps1 where a: "pool_act i (s, ps) = (s1, ps1)" by fastforce
  obtain h1 where "serve R s0 h1 s1 ps1" using serve_pool_act [OF Cons.prems(1) a] by blast
  then show ?case using Cons.IH Cons.prems(2) a by simp
qed auto

text \<open>A request that runs alone is one schedule.\<close>

lemma exec_run:
  assumes "i < length ps" and "ps ! i = p"
  shows "\<exists>sched. exec sched (s, ps) = (fst (run p s), ps[i := Return (snd (run p s))])"
  using assms
proof (induction p arbitrary: s ps)
  case (Return r)
  then show ?case by (intro exI [of _ "[]"]) (metis exec_simps(1) fst_conv list_update_id run.simps(1) snd_conv)
next
  case (Atomic f k)
  have "i < length (ps[i := k s])" "ps[i := k s] ! i = k s" using Atomic.prems by simp_all
  from Atomic.IH [OF _ this] obtain sched where
    "exec sched (f s, ps[i := k s]) = (fst (run (k s) (f s)), ps[i := Return (snd (run (k s) (f s)))])"
    by auto
  then show ?case using Atomic.prems by (intro exI [of _ "i # sched"]) (simp add: pool_act_def)
qed

section \<open>Interference\<close>

primrec safe :: "('s set \<Rightarrow> 's \<Rightarrow> bool) \<Rightarrow> ('s set \<Rightarrow> 'r \<Rightarrow> bool) \<Rightarrow> 's set \<Rightarrow> ('s, 'r) prog \<Rightarrow> bool" where
  "safe I Q h (Return r) \<longleftrightarrow> Q h r"
| "safe I Q h (Atomic f k) \<longleftrightarrow>
     (\<forall>h' s. h \<subseteq> h' \<longrightarrow> s \<in> h' \<longrightarrow> I h' s \<longrightarrow>
        I (insert (f s) h') (f s) \<and> safe I Q (insert (f s) h') (k s))"

lemma safe_mono:
  assumes "\<And>h h' r. h \<subseteq> h' \<Longrightarrow> Q h r \<Longrightarrow> Q h' r" and "safe I Q h p" and "h \<subseteq> h'"
  shows "safe I Q h' p"
  using assms(2,3) assms(1) by (cases p) auto

lemma safe_inspect:
  assumes "\<And>h' s. h \<subseteq> h' \<Longrightarrow> s \<in> h' \<Longrightarrow> I h' s \<Longrightarrow> safe I Q h' (k (g s))"
  shows "safe I Q h (inspect g k)"
  using assms by (auto simp: inspect_def insert_absorb)

lemma safe_update:
  assumes "\<And>h' s. h \<subseteq> h' \<Longrightarrow> s \<in> h' \<Longrightarrow> I h' s \<Longrightarrow> I (insert (f s) h') (f s) \<and> safe I Q (insert (f s) h') p"
  shows "safe I Q h (update f p)"
  using assms by (auto simp: update_def)

lemma safe_atomic:
  assumes "\<And>h' s. h \<subseteq> h' \<Longrightarrow> s \<in> h' \<Longrightarrow> I h' s \<Longrightarrow>
      I (insert (fst (f s)) h') (fst (f s)) \<and> safe I Q (insert (fst (f s)) h') (k (snd (f s)))"
  shows "safe I Q h (atomic f k)"
  using assms by (auto simp: atomic_def)

text \<open>
  What a family of requests needs: results that stay true as more states are visited, an invariant
  that holds at the start, and programs that keep it under interference.
\<close>

locale concurrent_requests =
  fixes I :: "'s set \<Rightarrow> 's \<Rightarrow> bool"
    and Q :: "'s set \<Rightarrow> 'r \<Rightarrow> bool"
    and R :: "('s, 'r) prog set"
  assumes Q_mono: "h \<subseteq> h' \<Longrightarrow> Q h r \<Longrightarrow> Q h' r"
    and requests_safe: "p \<in> R \<Longrightarrow> safe I Q h p"
begin

lemma serve_safe:
  assumes "serve R s0 h s ps" and "I {s0} s0"
  shows "I h s \<and> (\<forall>p \<in> set ps. safe I Q h p)"
  using assms
proof (induction rule: serve.induct)
  case (arrive h s ps p)
  then show ?case using requests_safe by auto
next
  case (work h s ps i f k)
  have s: "s \<in> h" using serve_visited [OF work.hyps(1)] by blast
  have IH: "I h s" "\<forall>p \<in> set ps. safe I Q h p" using work by auto
  have "safe I Q h (Atomic f k)" using IH(2) work.hyps(2,3) nth_mem by metis
  with s IH(1) have step: "I (insert (f s) h) (f s)" "safe I Q (insert (f s) h) (k s)" by auto
  have "safe I Q (insert (f s) h) p" if "p \<in> set (ps[i := k s])" for p
    using that set_update_subset_insert [of ps i "k s"] step(2) IH(2)
      safe_mono [of Q I h p "insert (f s) h"] Q_mono by blast
  with step show ?case by blast
qed simp

lemma serve_result:
  assumes "serve R s0 h s ps" and "I {s0} s0" and "Return r \<in> set ps"
  shows "Q h r"
  using serve_safe [OF assms(1,2)] assms(3) by auto

lemma serve_invariant: "serve R s0 h s ps \<Longrightarrow> I {s0} s0 \<Longrightarrow> I h s"
  using serve_safe by blast

end

section \<open>Termination\<close>

text \<open>
  Actions that change the pool; with at most \<open>n\<close> actions left in every request no schedule makes
  more than \<open>n\<close> of them per request.
\<close>

inductive pool_steps :: "nat \<Rightarrow> 's \<times> ('s, 'r) prog list \<Rightarrow> 's \<times> ('s, 'r) prog list \<Rightarrow> bool" where
  none: "pool_steps 0 c c"
| more: "i < length ps \<Longrightarrow> ps ! i = Atomic f k \<Longrightarrow> pool_steps n (f s, ps[i := k s]) c
    \<Longrightarrow> pool_steps (Suc n) (s, ps) c"

lemma pool_steps_bound:
  assumes "pool_steps m c c'" and "list_all2 at_most ns (snd c)"
  shows "m \<le> sum_list ns"
  using assms
proof (induction arbitrary: ns rule: pool_steps.induct)
  case (more i ps f k n s c)
  have len: "length ns = length ps" and i: "i < length ns" using more.prems more.hyps(1)
    by (auto dest: list_all2_lengthD)
  have "at_most (ns ! i) (Atomic f k)"
    using list_all2_nthD [OF more.prems i] more.hyps(2) by simp
  then obtain n' where n': "ns ! i = Suc n'" "at_most n' (k s)" by (cases "ns ! i") auto
  have "list_all2 at_most (ns[i := n']) (snd (f s, ps[i := k s]))"
    using more.prems n'(2) by (simp add: list_all2_update_cong)
  from more.IH [OF this] have "n \<le> sum_list (ns[i := n'])" .
  moreover have "sum_list ns = Suc (sum_list (ns[i := n']))"
    using i n'(1) member_le_sum_list [of i ns] elem_le_sum_list [OF i]
    by (simp add: sum_list_update)
  ultimately show ?case by simp
qed simp

lemma pool_steps_bounded:
  "pool_steps m c c' \<Longrightarrow> list_all2 at_most ns (snd c) \<Longrightarrow> \<exists>ns'. list_all2 at_most ns' (snd c')"
proof (induction arbitrary: ns rule: pool_steps.induct)
  case (more i ps f k n s c)
  have i: "i < length ns" using more.prems more.hyps(1) by (simp add: list_all2_lengthD)
  have "at_most (ns ! i) (Atomic f k)"
    using list_all2_nthD [OF more.prems i] more.hyps(2) by simp
  then obtain n' where "at_most n' (k s)" by (cases "ns ! i") auto
  then have "list_all2 at_most (ns[i := n']) (snd (f s, ps[i := k s]))"
    using more.prems by (simp add: list_all2_update_cong)
  from more.IH [OF this] show ?case .
qed auto

lemma pool_steps_trans: "pool_steps m c c' \<Longrightarrow> pool_steps n c' c'' \<Longrightarrow> pool_steps (m + n) c c''"
  by (induction rule: pool_steps.induct) (auto intro: pool_steps.intros)

text \<open>Every pool whose requests are bounded can be run to its end.\<close>

lemma pool_finishes:
  assumes "list_all2 at_most ns ps"
  shows "\<exists>n s' rs. pool_steps n (s, ps) (s', map Return rs)"
  using assms
proof (induction "sum_list ns" arbitrary: ns s ps rule: less_induct)
  case less
  show ?case
  proof (cases "\<exists>i < length ps. \<exists>f k. ps ! i = Atomic f k")
    case True
    then obtain i f k where i: "i < length ps" "ps ! i = Atomic f k" by blast
    have len: "i < length ns" using less.prems i(1) by (simp add: list_all2_lengthD)
    have "at_most (ns ! i) (Atomic f k)" using list_all2_nthD [OF less.prems len] i(2) by simp
    then obtain n' where n': "ns ! i = Suc n'" "at_most n' (k s)" by (cases "ns ! i") auto
    have all: "list_all2 at_most (ns[i := n']) (ps[i := k s])"
      using less.prems n'(2) by (simp add: list_all2_update_cong)
    have "sum_list (ns[i := n']) < sum_list ns"
      using n'(1) elem_le_sum_list [OF len] by (simp add: sum_list_update [OF len])
    from less.hyps [OF this all, of "f s"] show ?thesis using pool_steps.more [OF i] by blast
  next
    case False
    have "\<exists>r. p = Return r" if "p \<in> set ps" for p
      by (cases p) (use that False in \<open>auto simp: in_set_conv_nth\<close>)
    then obtain g where "\<And>p. p \<in> set ps \<Longrightarrow> p = Return (g p)" by metis
    then have "map Return (map g ps) = ps" by (simp add: map_idI)
    then show ?thesis using pool_steps.none [of "(s, ps)"] by metis
  qed
qed

end
