(* ===== verification/Api_Tasks.thy ===== *)
theory Api_Tasks
  imports Api_Login Interleaving
begin

text \<open>
  The handlers of \<open>src/api.rs\<close> as concurrent requests. Every access to a cache, which takes its
  lock, and every call of the user store, which is one transaction, is an atomic action; the
  handler may be suspended before each of them. Run alone, each program is the handler of
  \<open>Api_Users\<close> and \<open>Api_Auth\<close>. The token gate is left out: these are requests that passed it.
\<close>

section \<open>Model\<close>

datatype 'j outcome =
    LoggedIn connect_info return_type
  | Answered response "'j http_post list"
  | Finished

type_synonym ('s, 'j) task = "('s app_state, 'j outcome) prog"

subsection \<open>Logging in\<close>

definition allow_task :: "connect_info \<Rightarrow> user_record \<Rightarrow> ('s, 'j) task" where
  "allow_task ci r =
     inspect st_acl (\<lambda>acl. Return (LoggedIn ci (False, Some (AuthResult
       (AuthAllow (ur_superuser r) (Some (build_auth_info r acl ci)))))))"

definition cache_task ::
    "('p, 'h, 'j) externals \<Rightarrow> instant \<Rightarrow> user_record \<Rightarrow> string \<Rightarrow> string \<Rightarrow> ('s, 'j) task \<Rightarrow> ('s, 'j) task" where
  "cache_task E t r u p rest =
     update (\<lambda>st. st\<lparr>st_auth_cache := auth_cache_insert (auth_key (ext_sha256 E) u p)
                       (ur_superuser r) t (st_auth_cache st)\<rparr>) rest"

definition hash_task ::
    "'s user_store \<Rightarrow> ('p, 'h, 'j) externals \<Rightarrow> instant \<Rightarrow> bool \<Rightarrow> connect_info \<Rightarrow> user_record
     \<Rightarrow> string \<Rightarrow> string \<Rightarrow> bytes option \<Rightarrow> ('s, 'j) task" where
  "hash_task U E t joined ci r u p pepper =
     (if joined \<and> verify_password (ext_argon2 E) (ur_password_hash r) p then
        cache_task E t r u p
          (case pepper of
             Some pep \<Rightarrow>
               update (\<lambda>st. st\<lparr>st_db := fst (us_set_verifier U u
                               (compute_verifier (ext_hmac E) pep u p) (st_db st))\<rparr>)
                 (allow_task ci r)
           | None \<Rightarrow> allow_task ci r)
      else Return (LoggedIn ci deny_auth))"

definition verifier_task ::
    "'s user_store \<Rightarrow> ('p, 'h, 'j) externals \<Rightarrow> (nat \<Rightarrow> instant) \<Rightarrow> bool \<Rightarrow> connect_info \<Rightarrow> user_record
     \<Rightarrow> string \<Rightarrow> string \<Rightarrow> bytes option \<Rightarrow> ('s, 'j) task" where
  "verifier_task U E clk joined ci r u p pepper =
     (case pepper of
        None \<Rightarrow> hash_task U E (clk 4) joined ci r u p None
      | Some pep \<Rightarrow>
          inspect (\<lambda>st. us_get_verifier U u (st_db st)) (\<lambda>res.
            case res of
              Inr (Some v) \<Rightarrow>
                if verify_fast (ext_hmac E) pep u p v
                then cache_task E (clk 3) r u p (allow_task ci r)
                else hash_task U E (clk 4) joined ci r u p (Some pep)
            | _ \<Rightarrow> hash_task U E (clk 4) joined ci r u p (Some pep)))"

definition check_task ::
    "'s user_store \<Rightarrow> ('p, 'h, 'j) externals \<Rightarrow> (nat \<Rightarrow> instant) \<Rightarrow> bool \<Rightarrow> connect_info \<Rightarrow> string \<Rightarrow> string
     \<Rightarrow> user_record \<Rightarrow> ('s, 'j) task" where
  "check_task U E clk joined ci u p r =
     inspect (\<lambda>st. (auth_cache_get (auth_key (ext_sha256 E) u p) (clk 2) (st_auth_cache st) \<noteq> None,
                    st_pepper st))
       (\<lambda>(hit, pepper).
          if hit then allow_task ci r else verifier_task U E clk joined ci r u p pepper)"

definition login_task ::
    "'s user_store \<Rightarrow> ('p, 'h, 'j) externals \<Rightarrow> (nat \<Rightarrow> instant) \<Rightarrow> bool \<Rightarrow> connect_info \<Rightarrow> ('s, 'j) task" where
  "login_task U E clk joined ci =
     inspect st_auth_disabled (\<lambda>disabled.
       if disabled then Return (LoggedIn ci (False, Some (AuthResult (AuthAllow True None))))
       else case credentials_of ci of
         None \<Rightarrow> Return (LoggedIn ci deny_auth)
       | Some (u, p) \<Rightarrow>
           inspect (\<lambda>st. user_cache_get u (clk 0) (st_users st)) (\<lambda>hit.
             case hit of
               Some r \<Rightarrow> check_task U E clk joined ci u p r
             | None \<Rightarrow>
                 inspect (\<lambda>st. us_get_user U u (st_db st)) (\<lambda>res.
                   case res of
                     Inr (Some r) \<Rightarrow>
                       update (\<lambda>st. st\<lparr>st_users := user_cache_insert u r (clk 1) (st_users st)\<rparr>)
                         (check_task U E clk joined ci u p r)
                   | Inr None \<Rightarrow> Return (LoggedIn ci deny_auth)
                   | Inl _ \<Rightarrow> Return (LoggedIn ci (False, Some (AuthResult AuthNotAuthorized))))))"

subsection \<open>Managing users\<close>

definition purge_task :: "string \<Rightarrow> ('s, 'j) task \<Rightarrow> ('s, 'j) task" where
  "purge_task n rest =
     update (\<lambda>st. st\<lparr>st_auth_cache := auth_cache_purge_user n (st_auth_cache st)\<rparr>)
       (update (\<lambda>st. st\<lparr>st_users := user_cache_purge n (st_users st)\<rparr>) rest)"

definition db_call :: "('s \<Rightarrow> 's \<times> 'a) \<Rightarrow> ('a \<Rightarrow> ('s, 'j) task) \<Rightarrow> ('s, 'j) task" where
  "db_call f k = atomic (\<lambda>st. (st\<lparr>st_db := fst (f (st_db st))\<rparr>, snd (f (st_db st)))) k"

definition delete_task :: "'s user_store \<Rightarrow> ('p, 'h, 'j) externals \<Rightarrow> string \<Rightarrow> ('s, 'j) task" where
  "delete_task U E n =
     db_call (us_delete_user U n) (\<lambda>res.
       case res of
         Inr True \<Rightarrow>
           purge_task n (inspect (\<lambda>st. fanout E st (Delete n)) (\<lambda>posts. Return (Answered no_content posts)))
       | Inr False \<Rightarrow>
           Return (Answered
             \<lparr>rsp_status = 404, rsp_body = Some (JObj [(''error'', JStr ''user not found'')])\<rparr> [])
       | Inl e \<Rightarrow> Return (Answered (internal_error e) []))"

definition created_task ::
    "('p, 'h, 'j) externals \<Rightarrow> create_user_req \<Rightarrow> string \<Rightarrow> ('s, 'j) task" where
  "created_task E req hash =
     inspect (\<lambda>st. fanout E st (Upsert (created_record req hash))) (\<lambda>posts.
       Return (Answered
         \<lparr>rsp_status = 201,
          rsp_body = Some (JObj [(''username'', JStr (cu_username req)), (''userid'', JStr (cu_userid req))])\<rparr>
         posts))"

definition create_task ::
    "'s user_store \<Rightarrow> ('p, 'h, 'j) externals \<Rightarrow> bytes \<Rightarrow> bool \<Rightarrow> create_user_req \<Rightarrow> ('s, 'j) task" where
  "create_task U E salt joined req =
     (if \<not> valid_username (cu_username req) then
        Return (Answered (bad_request ''username must be 1-128 printable ascii chars without spaces'') [])
      else if \<not> valid_segment (cu_userid req) then
        Return (Answered (bad_request ''userid must be 1-64 chars of [A-Za-z0-9_-]'') [])
      else if cu_password req = [] \<or> length (cu_password req) > 512 then
        Return (Answered (bad_request ''password must be 1-512 bytes'') [])
      else inspect st_pepper (\<lambda>pepper.
        if \<not> joined then Return (Answered (internal_error JoinError) [])
        else case hash_password (ext_argon2 E) (ext_env E) salt (cu_password req) of
          Inl e \<Rightarrow> Return (Answered (internal_error e) [])
        | Inr hash \<Rightarrow>
            db_call (us_insert_user U
                \<lparr>nu_username = cu_username req, nu_userid = cu_userid req, nu_password_hash = hash,
                 nu_superuser = cu_superuser req, nu_admin = cu_admin req\<rparr>) (\<lambda>res.
              case res of
                Inr True \<Rightarrow>
                  (case pepper of
                     Some pep \<Rightarrow>
                       db_call (us_set_verifier U (cu_username req)
                           (compute_verifier (ext_hmac E) pep (cu_username req) (cu_password req)))
                         (\<lambda>_. created_task E req hash)
                   | None \<Rightarrow> created_task E req hash)
              | Inr False \<Rightarrow>
                  Return (Answered
                    \<lparr>rsp_status = 409, rsp_body = Some (JObj [(''error'', JStr ''user already exists'')])\<rparr> [])
              | Inl e \<Rightarrow> Return (Answered (internal_error e) []))))"

definition replicate_task :: "'s user_store \<Rightarrow> repl_op \<Rightarrow> ('s, 'j) task" where
  "replicate_task U op =
     (case op of
        Upsert u \<Rightarrow>
          db_call (us_upsert_user U (new_user_of u)) (\<lambda>res.
            case res of
              Inl e \<Rightarrow> Return (Answered (internal_error e) [])
            | Inr _ \<Rightarrow> purge_task (ur_username u) (Return (Answered no_content [])))
      | Delete n \<Rightarrow>
          db_call (us_delete_user U n) (\<lambda>res.
            case res of
              Inl e \<Rightarrow> Return (Answered (internal_error e) [])
            | Inr _ \<Rightarrow> purge_task n (Return (Answered no_content []))))"

subsection \<open>In the background\<close>

definition sweep_task :: "instant \<Rightarrow> instant \<Rightarrow> ('s, 'j) task" where
  "sweep_task t0 t1 =
     update (\<lambda>st. st\<lparr>st_auth_cache := auth_cache_sweep t0 (st_auth_cache st)\<rparr>)
       (update (\<lambda>st. st\<lparr>st_users := user_cache_sweep t1 (st_users st)\<rparr>) (Return Finished))"

text \<open>The snapshot of a peer, once its answer has been decoded.\<close>

definition snapshot_task :: "'s user_store \<Rightarrow> user_record list \<Rightarrow> ('s, 'j) task" where
  "snapshot_task U rs = db_call (us_upsert_many U (map new_user_of rs)) (\<lambda>_. Return Finished)"

section \<open>One request at a time\<close>

lemma run_login:
  "run (login_task U E clk joined ci) st =
     (fst (authenticate U E clk joined ci st), LoggedIn ci (snd (authenticate U E clk joined ci st)))"
  by (auto simp: login_task_def authenticate_def lookup_user_def check_task_def check_verifier_def
      verifier_task_def check_hash_def hash_task_def cache_task_def allow_task_def Let_def
      split: option.splits sum.splits prod.splits)

lemma run_delete:
  "run (delete_task U E n) st =
     (case delete_user U E n st of (st', rsp, posts) \<Rightarrow> (st', Answered rsp posts))"
  by (cases "us_delete_user U n (st_db st)"; cases "snd (us_delete_user U n (st_db st))")
     (auto simp: delete_task_def db_call_def purge_task_def delete_user_def Let_def split: bool.splits)

lemma run_create:
  "run (create_task U E salt joined req) st =
     (case create_user U E salt joined req st of (st', rsp, posts) \<Rightarrow> (st', Answered rsp posts))"
  by (auto simp: create_task_def create_user_def created_task_def created_record_def db_call_def Let_def
      split: sum.splits option.splits bool.splits prod.splits)

lemma run_replicate:
  "run (replicate_task U op) st = (case replicate_op U op st of (st', rsp) \<Rightarrow> (st', Answered rsp []))"
  by (cases op)
     (auto simp: replicate_task_def replicate_op_def db_call_def purge_task_def Let_def
       split: sum.splits prod.splits)

section \<open>Length\<close>

lemma task_bounds:
  "at_most 9 (login_task U E clk joined ci)" "at_most 9 (delete_task U E n)"
  "at_most 9 (create_task U E salt joined req)" "at_most 9 (replicate_task U op)"
  "at_most 9 (sweep_task t0 t1)" "at_most 9 (snapshot_task U rs)"
  by (auto simp: eval_nat_numeral login_task_def check_task_def verifier_task_def hash_task_def cache_task_def
      allow_task_def delete_task_def purge_task_def db_call_def create_task_def created_task_def
      replicate_task_def sweep_task_def snapshot_task_def
      split: option.splits sum.splits bool.splits repl_op.splits)

end
