(* ===== verification/Api_Interference.thy ===== *)
theory Api_Interference
  imports Api_Tasks
begin

text \<open>
  Requests of \<open>src/api.rs\<close> that interleave. The locale \<open>api_guard\<close> lists what an invariant of the shared
  state has to guarantee for each atomic action, in terms of two notions: a record may be used
  for a user name, and a pair of name and password counts as checked. From these laws every
  request is safe under interference, and a login that is let in used such a record and such a
  pair. Two interpretations give the two notions a meaning: a record that was stored at some time
  and a password that was checked against a stored hash; and, after a user is gone, any record
  and any password of another user.
\<close>

section \<open>Requests\<close>

text \<open>The requests that store users with names in \<open>A\<close> only.\<close>

inductive_set api_requests ::
    "'s user_store \<Rightarrow> ('p, 'h, 'j) externals \<Rightarrow> string set \<Rightarrow> ('s, 'j) task set"
  for U :: "'s user_store" and E :: "('p, 'h, 'j) externals" and A :: "string set" where
  req_login: "login_task U E clk joined ci \<in> api_requests U E A"
| req_delete: "delete_task U E n \<in> api_requests U E A"
| req_create: "cu_username req \<in> A \<Longrightarrow> create_task U E salt joined req \<in> api_requests U E A"
| req_upsert: "ur_username r \<in> A \<Longrightarrow> replicate_task U (Upsert r) \<in> api_requests U E A"
| req_unstore: "replicate_task U (Delete n) \<in> api_requests U E A"
| req_sweep: "sweep_task t0 t1 \<in> api_requests U E A"
| req_snapshot: "ur_username ` set rs \<subseteq> A \<Longrightarrow> snapshot_task U rs \<in> api_requests U E A"

lemma requests_bound: "p \<in> api_requests U E A \<Longrightarrow> at_most 9 p"
  by (induction rule: api_requests.induct) (auto intro: task_bounds)

text \<open>What a login that is let in says about the states visited so far.\<close>

definition login_claim ::
    "('s app_state set \<Rightarrow> string \<Rightarrow> user_record \<Rightarrow> bool) \<Rightarrow> ('s app_state set \<Rightarrow> string \<Rightarrow> string \<Rightarrow> bool)
     \<Rightarrow> acl_config \<Rightarrow> 's app_state set \<Rightarrow> 'j outcome \<Rightarrow> bool" where
  "login_claim rec_ok cred_ok acl h res \<longleftrightarrow>
     (\<forall>ci b su info. res = LoggedIn ci (b, Some (AuthResult (AuthAllow su (Some info)))) \<longrightarrow>
        (\<exists>u p r. credentials_of ci = Some (u, p) \<and> rec_ok h u r \<and> cred_ok h u p
           \<and> su = ur_superuser r \<and> info = build_auth_info r acl ci))"

lemma login_claim_other [simp]:
  "login_claim rec_ok cred_ok acl h (Answered rsp posts)"
  "login_claim rec_ok cred_ok acl h Finished"
  "login_claim rec_ok cred_ok acl h (LoggedIn ci deny_auth)"
  "login_claim rec_ok cred_ok acl h (LoggedIn ci (b, Some (AuthResult AuthNotAuthorized)))"
  "login_claim rec_ok cred_ok acl h (LoggedIn ci (b, Some (AuthResult (AuthAllow su None))))"
  by (simp_all add: login_claim_def deny_auth_def)

section \<open>What an invariant has to guarantee\<close>

abbreviation keeps :: "('s app_state set \<Rightarrow> 's app_state \<Rightarrow> bool) \<Rightarrow> 's app_state set \<Rightarrow> 's app_state \<Rightarrow> bool" where
  "keeps I h s' \<equiv> I (insert s' h) s'"

locale api_guard =
  fixes U :: "'s user_store"
    and E :: "('p, 'h, 'j) externals"
    and A :: "string set"
    and I :: "'s app_state set \<Rightarrow> 's app_state \<Rightarrow> bool"
    and rec_ok :: "'s app_state set \<Rightarrow> string \<Rightarrow> user_record \<Rightarrow> bool"
    and cred_ok :: "'s app_state set \<Rightarrow> string \<Rightarrow> string \<Rightarrow> bool"
    and pep :: "bytes option"
    and acl :: acl_config
  assumes rec_mono: "h \<subseteq> h' \<Longrightarrow> rec_ok h u r \<Longrightarrow> rec_ok h' u r"
    and cred_mono: "h \<subseteq> h' \<Longrightarrow> cred_ok h u p \<Longrightarrow> cred_ok h' u p"
    and pepper: "I h s \<Longrightarrow> st_pepper s = pep"
    and acl_fixed: "I h s \<Longrightarrow> st_acl s = acl"
    and user_hit: "I h s \<Longrightarrow> s \<in> h \<Longrightarrow> user_cache_get u t (st_users s) = Some r \<Longrightarrow> rec_ok h u r"
    and user_read: "I h s \<Longrightarrow> s \<in> h \<Longrightarrow> us_get_user U u (st_db s) = Inr (Some r) \<Longrightarrow> rec_ok h u r"
    and key_hit: "I h s \<Longrightarrow> s \<in> h \<Longrightarrow>
      auth_cache_get (auth_key (ext_sha256 E) u p) t (st_auth_cache s) \<noteq> None \<Longrightarrow> cred_ok h u p"
    and verifier_hit: "I h s \<Longrightarrow> s \<in> h \<Longrightarrow> pep = Some pp \<Longrightarrow>
      us_get_verifier U u (st_db s) = Inr (Some v) \<Longrightarrow> verify_fast (ext_hmac E) pp u p v \<Longrightarrow> cred_ok h u p"
    and hash_hit: "rec_ok h u r \<Longrightarrow> verify_password (ext_argon2 E) (ur_password_hash r) p \<Longrightarrow> cred_ok h u p"
    and keep_user: "I h s \<Longrightarrow> s \<in> h \<Longrightarrow> rec_ok h u r \<Longrightarrow>
      keeps I h (s\<lparr>st_users := user_cache_insert u r t (st_users s)\<rparr>)"
    and keep_key: "I h s \<Longrightarrow> s \<in> h \<Longrightarrow> cred_ok h u p \<Longrightarrow>
      keeps I h (s\<lparr>st_auth_cache := auth_cache_insert (auth_key (ext_sha256 E) u p) su t (st_auth_cache s)\<rparr>)"
    and keep_verifier: "I h s \<Longrightarrow> s \<in> h \<Longrightarrow> cred_ok h u p \<Longrightarrow> pep = Some pp \<Longrightarrow>
      keeps I h (s\<lparr>st_db := fst (us_set_verifier U u (compute_verifier (ext_hmac E) pp u p) (st_db s))\<rparr>)"
    and keep_purge_auth: "I h s \<Longrightarrow> s \<in> h \<Longrightarrow>
      keeps I h (s\<lparr>st_auth_cache := auth_cache_purge_user n (st_auth_cache s)\<rparr>)"
    and keep_purge_user: "I h s \<Longrightarrow> s \<in> h \<Longrightarrow>
      keeps I h (s\<lparr>st_users := user_cache_purge n (st_users s)\<rparr>)"
    and keep_sweep_auth: "I h s \<Longrightarrow> s \<in> h \<Longrightarrow>
      keeps I h (s\<lparr>st_auth_cache := auth_cache_sweep t (st_auth_cache s)\<rparr>)"
    and keep_sweep_user: "I h s \<Longrightarrow> s \<in> h \<Longrightarrow>
      keeps I h (s\<lparr>st_users := user_cache_sweep t (st_users s)\<rparr>)"
    and keep_delete: "I h s \<Longrightarrow> s \<in> h \<Longrightarrow>
      keeps I h (s\<lparr>st_db := fst (us_delete_user U n (st_db s))\<rparr>)"
    and keep_insert: "I h s \<Longrightarrow> s \<in> h \<Longrightarrow> nu_username nu \<in> A \<Longrightarrow>
      keeps I h (s\<lparr>st_db := fst (us_insert_user U nu (st_db s))\<rparr>)"
    and insert_cred: "I h s \<Longrightarrow> s \<in> h \<Longrightarrow> nu_username nu \<in> A \<Longrightarrow>
      us_insert_user U nu (st_db s) = (db', Inr True) \<Longrightarrow>
      hash_password (ext_argon2 E) (ext_env E) salt p = Inr (nu_password_hash nu) \<Longrightarrow>
      cred_ok (insert (s\<lparr>st_db := db'\<rparr>) h) (nu_username nu) p"
    and keep_upsert: "I h s \<Longrightarrow> s \<in> h \<Longrightarrow> nu_username nu \<in> A \<Longrightarrow>
      keeps I h (s\<lparr>st_db := fst (us_upsert_user U nu (st_db s))\<rparr>)"
    and keep_upsert_many: "I h s \<Longrightarrow> s \<in> h \<Longrightarrow> nu_username ` set nus \<subseteq> A \<Longrightarrow>
      keeps I h (s\<lparr>st_db := fst (us_upsert_many U nus (st_db s))\<rparr>)"
begin

abbreviation sound :: "'s app_state set \<Rightarrow> ('s, 'j) task \<Rightarrow> bool" where
  "sound \<equiv> safe I (login_claim rec_ok cred_ok acl)"

lemma claim_mono:
  assumes "h \<subseteq> h'" and "login_claim rec_ok cred_ok acl h res"
  shows "login_claim rec_ok cred_ok acl h' res"
  unfolding login_claim_def
proof (intro allI impI)
  fix ci b su info
  assume "res = LoggedIn ci (b, Some (AuthResult (AuthAllow su (Some info))))"
  then obtain u p r where *: "credentials_of ci = Some (u, p)" "rec_ok h u r" "cred_ok h u p"
    "su = ur_superuser r" "info = build_auth_info r acl ci"
    using assms(2) unfolding login_claim_def by blast
  from * rec_mono [OF assms(1) *(2)] cred_mono [OF assms(1) *(3)]
  show "\<exists>u p r. credentials_of ci = Some (u, p) \<and> rec_ok h' u r \<and> cred_ok h' u p
      \<and> su = ur_superuser r \<and> info = build_auth_info r acl ci" by blast
qed

lemma sound_allow:
  assumes "credentials_of ci = Some (u, p)" and "rec_ok h u r" and "cred_ok h u p"
  shows "sound h (allow_task ci r)"
  unfolding allow_task_def
proof (rule safe_inspect)
  fix h' s
  assume h': "h \<subseteq> h'" "s \<in> h'" "I h' s"
  show "sound h' (Return (LoggedIn ci (False, Some (AuthResult
      (AuthAllow (ur_superuser r) (Some (build_auth_info r (st_acl s) ci)))))))"
    using assms(1) rec_mono [OF h'(1) assms(2)] cred_mono [OF h'(1) assms(3)] acl_fixed [OF h'(3)]
    by (auto simp: login_claim_def)
qed

lemma sound_cache:
  assumes "cred_ok h u p" and "\<And>h'. h \<subseteq> h' \<Longrightarrow> sound h' rest"
  shows "sound h (cache_task E t r u p rest)"
  unfolding cache_task_def
  by (rule safe_update) (use assms cred_mono keep_key in \<open>metis subset_insertI2\<close>)

lemma sound_hash:
  assumes "credentials_of ci = Some (u, p)" and "rec_ok h u r"
  shows "sound h (hash_task U E t joined ci r u p pep)"
proof (cases "joined \<and> verify_password (ext_argon2 E) (ur_password_hash r) p")
  case True
  then have c: "cred_ok h u p" using hash_hit assms(2) by blast
  have "sound h' (case pep of
      Some pp \<Rightarrow> update (\<lambda>st. st\<lparr>st_db := fst (us_set_verifier U u
                   (compute_verifier (ext_hmac E) pp u p) (st_db st))\<rparr>) (allow_task ci r)
    | None \<Rightarrow> allow_task ci r)" if "h \<subseteq> h'" for h'
  proof (cases pep)
    case None
    then show ?thesis using sound_allow assms rec_mono cred_mono c that by simp
  next
    case (Some pp)
    have "sound h' (update (\<lambda>st. st\<lparr>st_db := fst (us_set_verifier U u
                   (compute_verifier (ext_hmac E) pp u p) (st_db st))\<rparr>) (allow_task ci r))"
    proof (rule safe_update, rule conjI)
      fix h2 s
      assume h2: "h' \<subseteq> h2" "s \<in> h2" "I h2 s"
      let ?s = "s\<lparr>st_db := fst (us_set_verifier U u (compute_verifier (ext_hmac E) pp u p) (st_db s))\<rparr>"
      have sub: "h \<subseteq> insert ?s h2" "h \<subseteq> h2" using that h2(1) by auto
      show "keeps I h2 ?s" using keep_verifier [OF h2(3,2) cred_mono [OF sub(2) c] Some] .
      show "sound (insert ?s h2) (allow_task ci r)"
        using sound_allow [OF assms(1) rec_mono [OF sub(1) assms(2)] cred_mono [OF sub(1) c]] .
    qed
    then show ?thesis using Some by simp
  qed
  then show ?thesis using True c by (simp add: hash_task_def sound_cache)
qed (auto simp: hash_task_def)

lemma sound_verifier:
  assumes "credentials_of ci = Some (u, p)" and "rec_ok h u r"
  shows "sound h (verifier_task U E clk joined ci r u p pep)"
proof (cases pep)
  case None
  then show ?thesis using sound_hash [OF assms] by (simp add: verifier_task_def)
next
  case (Some pp)
  have "sound h' (case res of
      Inr (Some v) \<Rightarrow> if verify_fast (ext_hmac E) pp u p v
        then cache_task E (clk 3) r u p (allow_task ci r) else hash_task U E (clk 4) joined ci r u p (Some pp)
    | _ \<Rightarrow> hash_task U E (clk 4) joined ci r u p (Some pp))"
    if h': "h \<subseteq> h'" "s \<in> h'" "I h' s" and res: "res = us_get_verifier U u (st_db s)" for h' s res
  proof -
    have r: "rec_ok h' u r" using rec_mono [OF h'(1) assms(2)] .
    have hash: "sound h' (hash_task U E (clk 4) joined ci r u p (Some pp))"
      using sound_hash [OF assms(1) r] Some by simp
    show ?thesis
    proof (cases "\<exists>v. res = Inr (Some v) \<and> verify_fast (ext_hmac E) pp u p v")
      case True
      then have c: "cred_ok h' u p" using verifier_hit [OF h'(3,2) Some] res by auto
      have "sound h' (cache_task E (clk 3) r u p (allow_task ci r))"
        by (rule sound_cache [OF c], rule sound_allow [OF assms(1)])
           (erule rec_mono [OF _ r], erule cred_mono [OF _ c])
      with True show ?thesis by auto
    next
      case False
      with hash show ?thesis by (auto split: sum.splits option.splits)
    qed
  qed
  then show ?thesis using Some by (simp add: verifier_task_def safe_inspect)
qed

lemma sound_check:
  assumes "credentials_of ci = Some (u, p)" and "rec_ok h u r"
  shows "sound h (check_task U E clk joined ci u p r)"
  unfolding check_task_def
proof (rule safe_inspect)
  fix h' s
  assume h': "h \<subseteq> h'" "s \<in> h'" "I h' s"
  have r: "rec_ok h' u r" using rec_mono [OF h'(1) assms(2)] .
  have "sound h' (allow_task ci r)"
    if "auth_cache_get (auth_key (ext_sha256 E) u p) (clk 2) (st_auth_cache s) \<noteq> None"
    using sound_allow [OF assms(1) r key_hit [OF h'(3,2) that]] .
  then show "sound h' (case (auth_cache_get (auth_key (ext_sha256 E) u p) (clk 2) (st_auth_cache s) \<noteq> None,
      st_pepper s) of (hit, pepper) \<Rightarrow>
        if hit then allow_task ci r else verifier_task U E clk joined ci r u p pepper)"
    using sound_verifier [OF assms(1) r] pepper [OF h'(3)] by simp
qed

lemma sound_login: "sound h (login_task U E clk joined ci)"
proof -
  have lookup: "sound h0 (inspect (\<lambda>st. us_get_user U u (st_db st)) (\<lambda>res.
      case res of
        Inr (Some r) \<Rightarrow>
          update (\<lambda>st. st\<lparr>st_users := user_cache_insert u r (clk 1) (st_users st)\<rparr>)
            (check_task U E clk joined ci u p r)
      | Inr None \<Rightarrow> Return (LoggedIn ci deny_auth)
      | Inl _ \<Rightarrow> Return (LoggedIn ci (False, Some (AuthResult AuthNotAuthorized)))))"
    if c: "credentials_of ci = Some (u, p)" for h0 u p
  proof (rule safe_inspect)
    fix h1 s
    assume h1: "h0 \<subseteq> h1" "s \<in> h1" "I h1 s"
    have "sound h1 (update (\<lambda>st. st\<lparr>st_users := user_cache_insert u r (clk 1) (st_users st)\<rparr>)
        (check_task U E clk joined ci u p r))" if "us_get_user U u (st_db s) = Inr (Some r)" for r
    proof (rule safe_update, rule conjI)
      fix h2 s2
      assume h2: "h1 \<subseteq> h2" "s2 \<in> h2" "I h2 s2"
      let ?s = "s2\<lparr>st_users := user_cache_insert u r (clk 1) (st_users s2)\<rparr>"
      have r: "rec_ok h2 u r" using rec_mono [OF h2(1) user_read [OF h1(3,2) that]] .
      show "keeps I h2 ?s" using keep_user [OF h2(3,2) r] .
      show "sound (insert ?s h2) (check_task U E clk joined ci u p r)"
        using sound_check [OF c rec_mono [OF _ r]] by blast
    qed
    then show "sound h1 (case us_get_user U u (st_db s) of
        Inr (Some r) \<Rightarrow>
          update (\<lambda>st. st\<lparr>st_users := user_cache_insert u r (clk 1) (st_users st)\<rparr>)
            (check_task U E clk joined ci u p r)
      | Inr None \<Rightarrow> Return (LoggedIn ci deny_auth)
      | Inl _ \<Rightarrow> Return (LoggedIn ci (False, Some (AuthResult AuthNotAuthorized))))"
      by (auto split: sum.splits option.splits)
  qed
  have "sound h0 (inspect (\<lambda>st. user_cache_get u (clk 0) (st_users st)) (\<lambda>hit.
      case hit of
        Some r \<Rightarrow> check_task U E clk joined ci u p r
      | None \<Rightarrow> inspect (\<lambda>st. us_get_user U u (st_db st)) (\<lambda>res.
          case res of
            Inr (Some r) \<Rightarrow>
              update (\<lambda>st. st\<lparr>st_users := user_cache_insert u r (clk 1) (st_users st)\<rparr>)
                (check_task U E clk joined ci u p r)
          | Inr None \<Rightarrow> Return (LoggedIn ci deny_auth)
          | Inl _ \<Rightarrow> Return (LoggedIn ci (False, Some (AuthResult AuthNotAuthorized))))))"
    if c: "credentials_of ci = Some (u, p)" for h0 u p
    by (rule safe_inspect) (use lookup [OF c] sound_check [OF c] user_hit in \<open>auto split: option.splits\<close>)
  then show ?thesis unfolding login_task_def by (intro safe_inspect) (auto split: option.splits)
qed

lemma sound_purge:
  assumes "\<And>h'. h \<subseteq> h' \<Longrightarrow> sound h' rest"
  shows "sound h (purge_task n rest)"
  unfolding purge_task_def
proof (rule safe_update, rule conjI)
  fix h1 s
  assume h1: "h \<subseteq> h1" "s \<in> h1" "I h1 s"
  let ?s = "s\<lparr>st_auth_cache := auth_cache_purge_user n (st_auth_cache s)\<rparr>"
  show "keeps I h1 ?s" using keep_purge_auth [OF h1(3,2)] .
  show "sound (insert ?s h1) (update (\<lambda>st. st\<lparr>st_users := user_cache_purge n (st_users st)\<rparr>) rest)"
    by (rule safe_update) (use h1(1) keep_purge_user assms in \<open>meson dual_order.trans subset_insertI\<close>)
qed

lemma sound_db_call:
  assumes "\<And>h' s. h \<subseteq> h' \<Longrightarrow> s \<in> h' \<Longrightarrow> I h' s \<Longrightarrow> keeps I h' (s\<lparr>st_db := fst (f (st_db s))\<rparr>)
      \<and> sound (insert (s\<lparr>st_db := fst (f (st_db s))\<rparr>) h') (k (snd (f (st_db s))))"
  shows "sound h (db_call f k)"
  unfolding db_call_def by (rule safe_atomic) (use assms in simp)

lemma sound_answer [simp]: "sound h (Return (Answered rsp posts))" "sound h (Return Finished)"
  "sound h (inspect g (\<lambda>posts. Return (Answered rsp' (f posts))))"
  by (simp_all add: safe_inspect)

lemma sound_delete: "sound h (delete_task U E n)"
  unfolding delete_task_def
  by (rule sound_db_call)
     (auto simp: keep_delete sound_purge safe_inspect split: sum.splits bool.splits)

lemma sound_create:
  assumes "cu_username req \<in> A"
  shows "sound h (create_task U E salt joined req)"
proof -
  let ?nu = "\<lambda>hash. \<lparr>nu_username = cu_username req, nu_userid = cu_userid req, nu_password_hash = hash,
     nu_superuser = cu_superuser req, nu_admin = cu_admin req\<rparr>"
  have created: "sound h0 (created_task E req hash)" for h0 hash
    by (simp add: created_task_def safe_inspect)
  have store: "sound h0 (db_call (us_set_verifier U (cu_username req)
        (compute_verifier (ext_hmac E) pp (cu_username req) (cu_password req)))
      (\<lambda>_. created_task E req hash))"
    if "cred_ok h0 (cu_username req) (cu_password req)" "pep = Some pp" for h0 pp hash
    by (rule sound_db_call) (use that keep_verifier cred_mono created in blast)
  have insert: "sound h0 (db_call (us_insert_user U (?nu hash)) (\<lambda>res.
      case res of
        Inr True \<Rightarrow>
          (case pep of
             Some pp \<Rightarrow>
               db_call (us_set_verifier U (cu_username req)
                   (compute_verifier (ext_hmac E) pp (cu_username req) (cu_password req)))
                 (\<lambda>_. created_task E req hash)
           | None \<Rightarrow> created_task E req hash)
      | Inr False \<Rightarrow>
          Return (Answered
            \<lparr>rsp_status = 409, rsp_body = Some (JObj [(''error'', JStr ''user already exists'')])\<rparr> [])
      | Inl e \<Rightarrow> Return (Answered (internal_error e) [])))"
    if hash: "hash_password (ext_argon2 E) (ext_env E) salt (cu_password req) = Inr hash" for h0 hash
  proof (rule sound_db_call, rule conjI)
    fix h1 s
    assume h1: "h0 \<subseteq> h1" "s \<in> h1" "I h1 s"
    have A: "nu_username (?nu hash) \<in> A" using assms by simp
    let ?s = "s\<lparr>st_db := fst (us_insert_user U (?nu hash) (st_db s))\<rparr>"
    show "keeps I h1 ?s" using keep_insert [OF h1(3,2) A] .
    have "cred_ok (insert ?s h1) (cu_username req) (cu_password req)"
      if "snd (us_insert_user U (?nu hash) (st_db s)) = Inr True"
      using insert_cred [OF h1(3,2) A, of "fst (us_insert_user U (?nu hash) (st_db s))" salt] that hash
      by (metis new_user.select_convs(1,3) prod.collapse)
    then show "sound (insert ?s h1) (case snd (us_insert_user U (?nu hash) (st_db s)) of
        Inr True \<Rightarrow>
          (case pep of
             Some pp \<Rightarrow>
               db_call (us_set_verifier U (cu_username req)
                   (compute_verifier (ext_hmac E) pp (cu_username req) (cu_password req)))
                 (\<lambda>_. created_task E req hash)
           | None \<Rightarrow> created_task E req hash)
      | Inr False \<Rightarrow>
          Return (Answered
            \<lparr>rsp_status = 409, rsp_body = Some (JObj [(''error'', JStr ''user already exists'')])\<rparr> [])
      | Inl e \<Rightarrow> Return (Answered (internal_error e) []))"
      using store created by (auto split: sum.splits bool.splits option.splits)
  qed
  show ?thesis
    unfolding create_task_def using insert pepper
    by (auto intro!: safe_inspect split: sum.splits)
qed

lemma sound_replicate:
  "ur_username r \<in> A \<Longrightarrow> sound h (replicate_task U (Upsert r))"
  "sound h (replicate_task U (Delete n))"
  unfolding replicate_task_def repl_op.case
  by (rule sound_db_call; auto simp: keep_upsert keep_delete new_user_of_def sound_purge split: sum.splits)+

lemma sound_sweep: "sound h (sweep_task t0 t1)"
  unfolding sweep_task_def
  by (rule safe_update, rule conjI, simp add: keep_sweep_auth, rule safe_update)
     (simp add: keep_sweep_user)

lemma sound_snapshot: "ur_username ` set rs \<subseteq> A \<Longrightarrow> sound h (snapshot_task U rs)"
  unfolding snapshot_task_def
  by (rule sound_db_call, rule conjI, rule keep_upsert_many) (auto simp: new_user_of_def)

lemma requests_sound: "p \<in> api_requests U E A \<Longrightarrow> sound h p"
  by (induction rule: api_requests.induct)
     (auto intro: sound_login sound_delete sound_create sound_replicate sound_sweep sound_snapshot)

end

sublocale api_guard \<subseteq> concurrent_requests I "login_claim rec_ok cred_ok acl" "api_requests U E A"
  by unfold_locales (auto intro: claim_mono requests_sound)

end
