(* ===== verification/Api_Races.thy ===== *)
theory Api_Races
  imports Api_Interference
begin

text \<open>
  The two meanings of \<open>api_guard\<close>. In the first, the states visited since the start vouch for a
  login: the record was in the store at some time, and the password was checked against a hash that
  was in the store at some time, up to collisions of the two digests. In the second, a user is
  gone, its record neither in the store nor in the cache nor in the hands of a running request:
  no login of that user is let in, whatever other requests do, until the user is stored again.
\<close>

section \<open>History\<close>

definition stored_at ::
    "('s \<Rightarrow> string \<Rightarrow> user_record option) \<Rightarrow> 's app_state set \<Rightarrow> string \<Rightarrow> user_record \<Rightarrow> bool" where
  "stored_at users h u r \<longleftrightarrow> (\<exists>s \<in> h. users (st_db s) u = Some r)"

text \<open>
  The pairs whose password verifies against a record of \<open>G\<close>, closed under equal cache keys and equal
  verifiers.
\<close>

inductive vouched ::
    "('p, 'h, 'j) externals \<Rightarrow> bytes option \<Rightarrow> (string \<Rightarrow> user_record \<Rightarrow> bool) \<Rightarrow> string \<Rightarrow> string \<Rightarrow> bool"
  for E :: "('p, 'h, 'j) externals" and pep :: "bytes option" and G :: "string \<Rightarrow> user_record \<Rightarrow> bool" where
  checked: "G u r \<Longrightarrow> verify_password (ext_argon2 E) (ur_password_hash r) p \<Longrightarrow> vouched E pep G u p"
| same_key: "vouched E pep G v q \<Longrightarrow> auth_key (ext_sha256 E) v q = auth_key (ext_sha256 E) u p
    \<Longrightarrow> vouched E pep G u p"
| same_verifier: "vouched E pep G u q \<Longrightarrow> pep = Some pp \<Longrightarrow>
    compute_verifier (ext_hmac E) pp u q = compute_verifier (ext_hmac E) pp u p \<Longrightarrow> vouched E pep G u p"

lemma vouched_mono:
  assumes "vouched E pep G u p" and "\<And>u r. G u r \<Longrightarrow> G' u r"
  shows "vouched E pep G' u p"
  using assms by (induction rule: vouched.induct) (auto intro: vouched.intros)

text \<open>A hash that was just computed verifies.\<close>

definition argon2_laws :: "('p, 'h) argon2 \<Rightarrow> env \<Rightarrow> bool" where
  "argon2_laws A env \<longleftrightarrow>
     (\<forall>salt p hash. hash_password A env salt p = Inr hash \<longrightarrow> verify_password A hash p)"

definition vouched_in ::
    "('p, 'h, 'j) externals \<Rightarrow> bytes option \<Rightarrow> ('s \<Rightarrow> string \<Rightarrow> user_record option)
     \<Rightarrow> 's app_state set \<Rightarrow> string \<Rightarrow> string \<Rightarrow> bool" where
  "vouched_in E pep users h = vouched E pep (stored_at users h)"

text \<open>
  The invariant: what the caches hold comes from stored records and checked passwords, and so do
  the verifiers in the store.
\<close>

definition history_inv ::
    "('p, 'h, 'j) externals \<Rightarrow> ('s \<Rightarrow> bool) \<Rightarrow> ('s \<Rightarrow> string \<Rightarrow> user_record option)
     \<Rightarrow> ('s \<Rightarrow> string \<Rightarrow> bytes option) \<Rightarrow> bytes option \<Rightarrow> acl_config
     \<Rightarrow> 's app_state set \<Rightarrow> 's app_state \<Rightarrow> bool" where
  "history_inv E sinv users verifs pep acl h s \<longleftrightarrow>
     argon2_laws (ext_argon2 E) (ext_env E)
     \<and> sinv (st_db s) \<and> st_pepper s = pep \<and> st_acl s = acl
     \<and> (\<forall>u r e. uc_map (st_users s) u = Some (r, e) \<longrightarrow> stored_at users h u r)
     \<and> (\<forall>k \<in> dom (ac_map (st_auth_cache s)).
          \<exists>u p. k = auth_key (ext_sha256 E) u p \<and> vouched_in E pep users h u p)
     \<and> (\<forall>u v pp. verifs (st_db s) u = Some v \<longrightarrow> pep = Some pp \<longrightarrow>
          (\<exists>p. v = compute_verifier (ext_hmac E) pp u p \<and> vouched_in E pep users h u p))"

lemma stored_at_mono: "h \<subseteq> h' \<Longrightarrow> stored_at users h u r \<Longrightarrow> stored_at users h' u r"
  unfolding stored_at_def by blast

lemma vouched_in_mono: "h \<subseteq> h' \<Longrightarrow> vouched_in E pep users h u p \<Longrightarrow> vouched_in E pep users h' u p"
  unfolding vouched_in_def by (erule vouched_mono) (rule stored_at_mono)

lemma history_invD:
  assumes "history_inv E sinv users verifs pep acl h s"
  shows "argon2_laws (ext_argon2 E) (ext_env E)" "sinv (st_db s)" "st_pepper s = pep" "st_acl s = acl"
    "uc_map (st_users s) u = Some (r, e) \<Longrightarrow> stored_at users h u r"
    "k \<in> dom (ac_map (st_auth_cache s)) \<Longrightarrow>
       \<exists>u p. k = auth_key (ext_sha256 E) u p \<and> vouched_in E pep users h u p"
    "verifs (st_db s) u = Some v \<Longrightarrow> pep = Some pp \<Longrightarrow>
       \<exists>p. v = compute_verifier (ext_hmac E) pp u p \<and> vouched_in E pep users h u p"
  using assms unfolding history_inv_def by blast+

text \<open>
  How an action keeps the invariant: it may only forget cached entries and verifiers or add
  justified ones.
\<close>

lemma history_inv_step:
  assumes "history_inv E sinv users verifs pep acl h s"
    and "sinv (st_db s')" and "st_pepper s' = st_pepper s" and "st_acl s' = st_acl s"
    and "\<And>u r e. uc_map (st_users s') u = Some (r, e) \<Longrightarrow>
      (\<exists>e'. uc_map (st_users s) u = Some (r, e')) \<or> stored_at users h u r"
    and "\<And>k. k \<in> dom (ac_map (st_auth_cache s')) \<Longrightarrow> k \<in> dom (ac_map (st_auth_cache s))
      \<or> (\<exists>u p. k = auth_key (ext_sha256 E) u p \<and> vouched_in E pep users h u p)"
    and "\<And>u v pp. verifs (st_db s') u = Some v \<Longrightarrow> pep = Some pp \<Longrightarrow> verifs (st_db s) u = Some v
      \<or> (\<exists>p. v = compute_verifier (ext_hmac E) pp u p \<and> vouched_in E pep users h u p)"
  shows "history_inv E sinv users verifs pep acl (insert s' h) s'"
proof -
  have m: "h \<subseteq> insert s' h" by blast
  note d = history_invD [OF assms(1)] and sm = stored_at_mono [OF m, of users]
    and vm = vouched_in_mono [OF m, of E pep users]
  show ?thesis
    unfolding history_inv_def
  proof (intro conjI allI impI ballI)
    show "argon2_laws (ext_argon2 E) (ext_env E)" "sinv (st_db s')" "st_pepper s' = pep" "st_acl s' = acl"
      using d(1,3,4) assms(2-4) by simp_all
    show "stored_at users (insert s' h) u r" if "uc_map (st_users s') u = Some (r, e)" for u r e
      using assms(5) [OF that] d(5) sm by blast
    show "\<exists>u p. k = auth_key (ext_sha256 E) u p \<and> vouched_in E pep users (insert s' h) u p"
      if "k \<in> dom (ac_map (st_auth_cache s'))" for k
      using assms(6) [OF that] d(6) [of k] vm by blast
    show "\<exists>p. v = compute_verifier (ext_hmac E) pp u p \<and> vouched_in E pep users (insert s' h) u p"
      if "verifs (st_db s') u = Some v" "pep = Some pp" for u v pp
      using assms(7) [OF that] d(7) [OF _ that(2), of u v] vm by blast
  qed
qed

text \<open>A user that is neither in the store nor in the cache.\<close>

definition gone_inv ::
    "('s \<Rightarrow> bool) \<Rightarrow> ('s \<Rightarrow> string \<Rightarrow> user_record option) \<Rightarrow> string \<Rightarrow> bytes option \<Rightarrow> acl_config
     \<Rightarrow> 's app_state set \<Rightarrow> 's app_state \<Rightarrow> bool" where
  "gone_inv sinv users n pep acl h s \<longleftrightarrow>
     sinv (st_db s) \<and> users (st_db s) n = None \<and> uc_map (st_users s) n = None
     \<and> st_pepper s = pep \<and> st_acl s = acl"

text \<open>Calls of the store through its contract.\<close>

context user_store_contract
begin

lemma verifs_delete: "inv s \<Longrightarrow> verifs (fst (us_delete_user U n s)) u = Some v \<Longrightarrow> verifs s u = Some v"
  using delete_ok [of s n] delete_err [of s n]
  by (cases "us_delete_user U n s"; cases "snd (us_delete_user U n s)") (auto split: if_splits)

lemma verifs_insert: "inv s \<Longrightarrow> verifs (fst (us_insert_user U nu s)) = verifs s"
  using insert_ok [of s nu] insert_err [of s nu]
  by (cases "us_insert_user U nu s"; cases "snd (us_insert_user U nu s)") auto

lemma verifs_upsert: "inv s \<Longrightarrow> verifs (fst (us_upsert_user U nu s)) = verifs s"
  using upsert_ok [of s nu] upsert_err [of s nu]
  by (cases "us_upsert_user U nu s"; cases "snd (us_upsert_user U nu s)") auto

lemma verifs_upsert_many: "inv s \<Longrightarrow> verifs (fst (us_upsert_many U nus s)) = verifs s"
  using upsert_many_ok [of s nus] upsert_many_err [of s nus]
  by (cases "us_upsert_many U nus s"; cases "snd (us_upsert_many U nus s)") auto

lemma verifs_set:
  "inv s \<Longrightarrow> verifs (fst (us_set_verifier U n w s)) u = Some v \<Longrightarrow>
     verifs s u = Some v \<or> (u = n \<and> v = w)"
  using set_verifier_ok [of s n w] set_verifier_err [of s n w]
  by (cases "us_set_verifier U n w s"; cases "snd (us_set_verifier U n w s)") (auto split: if_splits)

lemma users_set_verifier: "inv s \<Longrightarrow> users (fst (us_set_verifier U n w s)) = users s"
  using set_verifier_ok [of s n w] set_verifier_err [of s n w]
  by (cases "us_set_verifier U n w s"; cases "snd (us_set_verifier U n w s)") auto

lemma users_missing_delete: "inv s \<Longrightarrow> users s n = None \<Longrightarrow> users (fst (us_delete_user U m s)) n = None"
  using delete_ok [of s m] delete_err [of s m]
  by (cases "us_delete_user U m s"; cases "snd (us_delete_user U m s)") auto

lemma users_missing_insert:
  "inv s \<Longrightarrow> users s n = None \<Longrightarrow> nu_username nu \<noteq> n \<Longrightarrow> users (fst (us_insert_user U nu s)) n = None"
  using insert_ok [of s nu] insert_err [of s nu]
  by (cases "us_insert_user U nu s"; cases "snd (us_insert_user U nu s)") auto

lemma users_missing_upsert:
  "inv s \<Longrightarrow> users s n = None \<Longrightarrow> nu_username nu \<noteq> n \<Longrightarrow> users (fst (us_upsert_user U nu s)) n = None"
  using upsert_ok [of s nu] upsert_err [of s nu]
  by (cases "us_upsert_user U nu s"; cases "snd (us_upsert_user U nu s)") auto

lemma apply_upserts_missing:
  "m n = None \<Longrightarrow> n \<notin> nu_username ` set nus \<Longrightarrow> apply_upserts nus m n = None"
  by (induction nus arbitrary: m) (auto simp: apply_upserts_def)

lemma users_missing_upsert_many:
  "inv s \<Longrightarrow> users s n = None \<Longrightarrow> n \<notin> nu_username ` set nus \<Longrightarrow>
     users (fst (us_upsert_many U nus s)) n = None"
  using upsert_many_ok [of s nus] upsert_many_err [of s nus] apply_upserts_missing [of "users s" n nus]
  by (cases "us_upsert_many U nus s"; cases "snd (us_upsert_many U nus s)") auto

lemmas verifs_kept = verifs_insert verifs_upsert verifs_upsert_many

text \<open>Calls of the store keep the invariant when they keep the store's and add no unchecked verifier.\<close>

lemma history_inv_db:
  assumes "history_inv E inv users verifs pep acl h s" and "inv db"
    and "\<And>u v pp. verifs db u = Some v \<Longrightarrow> pep = Some pp \<Longrightarrow> verifs (st_db s) u = Some v
      \<or> (\<exists>p. v = compute_verifier (ext_hmac E) pp u p \<and> vouched_in E pep users h u p)"
  shows "keeps (history_inv E inv users verifs pep acl) h (s\<lparr>st_db := db\<rparr>)"
proof (rule history_inv_step [OF assms(1)])
  show "verifs (st_db s) u = Some v
      \<or> (\<exists>p. v = compute_verifier (ext_hmac E) pp u p \<and> vouched_in E pep users h u p)"
    if "verifs (st_db (s\<lparr>st_db := db\<rparr>)) u = Some v" "pep = Some pp" for u v pp
    using assms(3) that by simp
qed (use assms(2) in auto)

lemma history_guard:
  "api_guard U E UNIV (history_inv E inv users verifs pep acl) (stored_at users)
     (vouched_in E pep users) pep acl"
proof
  let ?I = "history_inv E inv users verifs pep acl"
  fix h s
  assume I: "?I h s" and s: "s \<in> h"
  note d = history_invD [OF I]
  show "stored_at users h u r" if "user_cache_get u t (st_users s) = Some r" for u t r
    using that d(5) by (auto simp: user_cache_get_def split: option.splits if_splits)
  show "stored_at users h u r" if "us_get_user U u (st_db s) = Inr (Some r)" for u r
    using get_ok [OF d(2) that] s unfolding stored_at_def by force
  show "vouched_in E pep users h u p"
    if hit: "auth_cache_get (auth_key (ext_sha256 E) u p) t (st_auth_cache s) \<noteq> None" for u p t
  proof -
    have "auth_key (ext_sha256 E) u p \<in> dom (ac_map (st_auth_cache s))"
      using hit by (auto simp: auth_cache_get_def split: option.splits)
    from d(6) [OF this] show ?thesis unfolding vouched_in_def by (metis same_key)
  qed
  show "vouched_in E pep users h u p"
    if pep: "pep = Some pp" and v: "us_get_verifier U u (st_db s) = Inr (Some v)"
      and f: "verify_fast (ext_hmac E) pp u p v" for pp u v p
  proof -
    have "verifs (st_db s) u = Some v" using get_verifier_ok [OF d(2) v] by simp
    from d(7) [OF this pep] f pep show ?thesis
      unfolding vouched_in_def verify_fast_def ct_eq_iff by (metis same_verifier)
  qed
  show "keeps ?I h (s\<lparr>st_users := user_cache_insert u r t (st_users s)\<rparr>)" if "stored_at users h u r" for u r t
    by (rule history_inv_step [OF I])
       (use d(2) that in \<open>auto simp: user_cache_insert_def split: if_splits\<close>)
  show "keeps ?I h (s\<lparr>st_auth_cache := auth_cache_insert (auth_key (ext_sha256 E) u p) su t (st_auth_cache s)\<rparr>)"
    if "vouched_in E pep users h u p" for u p su t
    by (rule history_inv_step [OF I])
       (use d(2) that in \<open>auto simp: auth_cache_insert_def split: if_splits\<close>)
  show "keeps ?I h (s\<lparr>st_db := fst (us_set_verifier U u (compute_verifier (ext_hmac E) pp u p) (st_db s))\<rparr>)"
    if "vouched_in E pep users h u p" "pep = Some pp" for u p pp
    using history_inv_db [OF I inv_set_verifier [OF d(2)]] verifs_set [OF d(2)] that by blast
  show "keeps ?I h (s\<lparr>st_auth_cache := auth_cache_purge_user n (st_auth_cache s)\<rparr>)" for n
    by (rule history_inv_step [OF I])
       (use d(2) in \<open>auto simp: auth_cache_purge_user_def split: if_splits option.splits\<close>)
  show "keeps ?I h (s\<lparr>st_users := user_cache_purge n (st_users s)\<rparr>)" for n
    by (rule history_inv_step [OF I])
       (use d(2) in \<open>auto simp: user_cache_purge_def split: if_splits\<close>)
  show "keeps ?I h (s\<lparr>st_auth_cache := auth_cache_sweep t (st_auth_cache s)\<rparr>)" for t
    by (rule history_inv_step [OF I])
       (use d(2) in \<open>auto simp: auth_cache_sweep_def split: if_splits option.splits\<close>)
  show "keeps ?I h (s\<lparr>st_users := user_cache_sweep t (st_users s)\<rparr>)" for t
    by (rule history_inv_step [OF I])
       (use d(2) in \<open>auto simp: user_cache_sweep_def split: if_splits option.splits\<close>)
  show "keeps ?I h (s\<lparr>st_db := fst (us_delete_user U n (st_db s))\<rparr>)" for n
    by (rule history_inv_db [OF I inv_delete [OF d(2)]]) (use verifs_delete [OF d(2)] in blast)
  show "keeps ?I h (s\<lparr>st_db := fst (us_insert_user U nu (st_db s))\<rparr>)" for nu
    using history_inv_db [OF I inv_insert [OF d(2)]] verifs_insert [OF d(2)] by simp
  show "keeps ?I h (s\<lparr>st_db := fst (us_upsert_user U nu (st_db s))\<rparr>)" for nu
    using history_inv_db [OF I inv_upsert [OF d(2)]] verifs_upsert [OF d(2)] by simp
  show "keeps ?I h (s\<lparr>st_db := fst (us_upsert_many U nus (st_db s))\<rparr>)" for nus
    using history_inv_db [OF I inv_upsert_many [OF d(2)]] verifs_upsert_many [OF d(2)] by simp
  show "vouched_in E pep users (insert (s\<lparr>st_db := db'\<rparr>) h) (nu_username nu) p"
    if "us_insert_user U nu (st_db s) = (db', Inr True)"
      "hash_password (ext_argon2 E) (ext_env E) salt p = Inr (nu_password_hash nu)" for nu db' salt p
  proof -
    have "users db' (nu_username nu) = Some (record_of nu)" using insert_ok [OF d(2) that(1)] by simp
    then have "stored_at users (insert (s\<lparr>st_db := db'\<rparr>) h) (nu_username nu) (record_of nu)"
      by (simp add: stored_at_def)
    moreover have "verify_password (ext_argon2 E) (ur_password_hash (record_of nu)) p"
      using d(1) that(2) unfolding argon2_laws_def record_of_def by auto
    ultimately show ?thesis unfolding vouched_in_def by (rule checked)
  qed
qed (auto simp: history_invD(3,4) vouched_in_def intro: stored_at_mono checked vouched_mono)

section \<open>A user that is gone\<close>

lemma gone_guard:
  "api_guard U E (- {n}) (gone_inv inv users n pep acl) (\<lambda>h u r. u \<noteq> n) (\<lambda>h u p. True) pep acl"
proof
  let ?I = "gone_inv inv users n pep acl"
  fix h s
  assume I: "?I h s"
  note d = I [unfolded gone_inv_def]
  note i = d [THEN conjunct1] and m = d [THEN conjunct2, THEN conjunct1]
  show "u \<noteq> n" if "user_cache_get u t (st_users s) = Some r" for u t r
    using that d by (auto simp: user_cache_get_def)
  show "u \<noteq> n" if "us_get_user U u (st_db s) = Inr (Some r)" for u r
    using get_ok [OF i that] m by auto
  show "keeps ?I h (s\<lparr>st_users := user_cache_insert u r t (st_users s)\<rparr>)" if "u \<noteq> n" for u r t
    using d that by (simp add: gone_inv_def user_cache_insert_def)
  show "keeps ?I h (s\<lparr>st_db := fst (us_set_verifier U u v (st_db s))\<rparr>)" for u v
    using d inv_set_verifier [OF i] users_set_verifier [OF i] by (simp add: gone_inv_def)
  show "keeps ?I h (s\<lparr>st_users := user_cache_purge k (st_users s)\<rparr>)" for k
    using d by (simp add: gone_inv_def user_cache_purge_def)
  show "keeps ?I h (s\<lparr>st_users := user_cache_sweep t (st_users s)\<rparr>)" for t
    using d by (simp add: gone_inv_def user_cache_sweep_def)
  show "keeps ?I h (s\<lparr>st_db := fst (us_delete_user U k (st_db s))\<rparr>)" for k
    using d inv_delete [OF i] users_missing_delete [OF i m] by (simp add: gone_inv_def)
  show "keeps ?I h (s\<lparr>st_db := fst (us_insert_user U nu (st_db s))\<rparr>)" if "nu_username nu \<in> - {n}" for nu
    using d inv_insert [OF i] users_missing_insert [OF i m, of nu] that by (simp add: gone_inv_def)
  show "keeps ?I h (s\<lparr>st_db := fst (us_upsert_user U nu (st_db s))\<rparr>)" if "nu_username nu \<in> - {n}" for nu
    using d inv_upsert [OF i] users_missing_upsert [OF i m, of nu] that by (simp add: gone_inv_def)
  show "keeps ?I h (s\<lparr>st_db := fst (us_upsert_many U nus (st_db s))\<rparr>)"
    if "nu_username ` set nus \<subseteq> - {n}" for nus
  proof -
    have "n \<notin> nu_username ` set nus" using that by blast
    from users_missing_upsert_many [OF i m this] show ?thesis
      using d inv_upsert_many [OF i] by (simp add: gone_inv_def)
  qed
qed (auto simp: gone_inv_def)

end

section \<open>The embedded database\<close>

interpretation history: api_guard "redb_store R enc dec" E UNIV
    "history_inv E (redb_inv R enc dec view) (users_of dec view) (verifs_of view) pep acl"
    "stored_at (users_of dec view)" "vouched_in E pep (users_of dec view)" pep acl
  for R enc dec view E pep acl
  by (rule redbs.history_guard)

interpretation gone: api_guard "redb_store R enc dec" E "- {n}"
    "gone_inv (redb_inv R enc dec view) (users_of dec view) n pep acl"
    "\<lambda>h u r. u \<noteq> n" "\<lambda>h u p. True" pep acl
  for R enc dec view E n pep acl
  by (rule redbs.gone_guard)

end
