(* ===== verification/Api_Concurrency.thy ===== *)
theory Api_Concurrency
  imports Api_Races Samples
begin

text \<open>
  Properties of interleaved requests, and two concrete schedules that show what the handlers do not
  exclude: a login that was under way while its user was deleted.
\<close>

section \<open>Sample data\<close>




















section \<open>A login under way while its user is deleted\<close>








lemma sample_ttl [simp]:
  "uc_ttl (st_users (sample_state db)) = secs 300" "ac_ttl (st_auth_cache (sample_state db)) = secs 300"
  by (simp_all add: sample_state_def startup_state_def Let_def user_cache_new_def auth_cache_new_def
      auth_cache_ttl_def env_u64_def)




section \<open>Properties\<close>











end
