(* ===== verification/Api_Gate.thy ===== *)
theory Api_Gate
  imports Api_Interference Samples
begin

text \<open>
  The token gate of \<open>src/api.rs\<close> under interleaving. A refresh of the token takes its lock twice, once to
  note the time and once to install the answer of the vault; the request to the vault runs in
  between, without the lock, so that other requests and other refreshes may act. The answer of
  the vault is an argument. A request that passes the gate goes on as one of the handlers.
\<close>

section \<open>Model\<close>

datatype 'r gated = Refused | Passed string 'r

definition refresh_due :: "instant \<Rightarrow> 's app_state \<Rightarrow> bool" where
  "refresh_due now st \<longleftrightarrow>
     \<not> (case tp_refreshed_at (st_token st) of Some t \<Rightarrow> now - t < secs 5 | None \<Rightarrow> False)"

definition refresh_begin :: "instant \<Rightarrow> 's app_state \<Rightarrow> 's app_state \<times> bool" where
  "refresh_begin now st =
     (if st_vault st \<noteq> None \<and> refresh_due now st
      then (st\<lparr>st_token := (st_token st)\<lparr>tp_refreshed_at := Some now\<rparr>\<rparr>, True) else (st, False))"

definition token_install :: "string \<Rightarrow> 's app_state \<Rightarrow> 's app_state" where
  "token_install new st =
     (if tp_current (st_token st) \<noteq> new
      then st\<lparr>st_token := (st_token st)
             \<lparr>tp_previous := Some (tp_current (st_token st)), tp_current := new\<rparr>\<rparr>
      else st)"

definition refresh_task ::
    "instant \<Rightarrow> string option result \<Rightarrow> ('s app_state, 'r) prog \<Rightarrow> ('s app_state, 'r) prog" where
  "refresh_task now answer rest =
     atomic (refresh_begin now) (\<lambda>fetch.
       if fetch then (case answer of Inr (Some new) \<Rightarrow> update (token_install new) rest | _ \<Rightarrow> rest)
       else rest)"

definition gate_task ::
    "instant \<Rightarrow> string option result \<Rightarrow> string option \<Rightarrow> ('s app_state, 'r) prog
     \<Rightarrow> ('s app_state, 'r gated) prog" where
  "gate_task now answer header handler =
     (case bearer_of header of
        None \<Rightarrow> Return Refused
      | Some t \<Rightarrow>
          inspect (token_matches t) (\<lambda>ok.
            if ok then map_prog (Passed t) handler
            else refresh_task now answer (inspect (token_matches t) (\<lambda>ok.
              if ok then map_prog (Passed t) handler else Return Refused))))"

section \<open>Programs\<close>

text \<open>A relation between the states before and after every action of a program.\<close>

primrec all_actions :: "('s \<Rightarrow> 's \<Rightarrow> bool) \<Rightarrow> ('s, 'r) prog \<Rightarrow> bool" where
  "all_actions P (Return r) \<longleftrightarrow> True"
| "all_actions P (Atomic f k) \<longleftrightarrow> (\<forall>s. P s (f s) \<and> all_actions P (k s))"

lemma all_actions_simps [simp]:
  "all_actions P (atomic f k) \<longleftrightarrow> (\<forall>s. P s (fst (f s)) \<and> all_actions P (k (snd (f s))))"
  "all_actions P (inspect g k) \<longleftrightarrow> (\<forall>s. P s s \<and> all_actions P (k (g s)))"
  "all_actions P (update u p) \<longleftrightarrow> (\<forall>s. P s (u s)) \<and> all_actions P p"
  by (auto simp: action_defs)

lemma all_actions_map [simp]: "all_actions P (map_prog f p) \<longleftrightarrow> all_actions P p"
  by (induction p) auto

lemma all_actions_mono: "all_actions P p \<Longrightarrow> (\<And>s s'. P s s' \<Longrightarrow> Q s s') \<Longrightarrow> all_actions Q p"
  by (induction p) auto

lemma run_map: "run (map_prog f p) s = (fst (run p s), f (snd (run p s)))"
  by (induction p arbitrary: s) auto

lemma serve_actions:
  assumes "serve R s0 h s ps" and "\<forall>p \<in> R. all_actions P p"
  shows "\<forall>p \<in> set ps. all_actions P p"
  using assms
proof (induction rule: serve.induct)
  case (work h s ps i f k)
  then have "all_actions P (Atomic f k)" using nth_mem by metis
  then show ?case using work set_update_subset_insert [of ps i "k s"] by auto
qed auto

text \<open>A property of states that every action keeps holds in all states visited.\<close>

lemma serve_stable:
  assumes "serve R s0 h s ps" and "\<forall>p \<in> R. all_actions (\<lambda>s s'. J s \<longrightarrow> J s') p" and "J s0"
  shows "\<forall>s' \<in> h. J s'"
  using assms
proof (induction rule: serve.induct)
  case (work h s ps i f k)
  have "all_actions (\<lambda>s s'. J s \<longrightarrow> J s') (Atomic f k)"
    using serve_actions [OF work.hyps(1) work.prems(1)] work.hyps(2,3) nth_mem by metis
  moreover have "s \<in> h" using serve_visited [OF work.hyps(1)] by blast
  ultimately show ?case using work by auto
qed auto

section \<open>Tokens\<close>

abbreviation same_token :: "'s app_state \<Rightarrow> 's app_state \<Rightarrow> bool" where
  "same_token s s' \<equiv> st_token s' = st_token s"

lemma handlers_leave_token: "p \<in> api_requests U E A \<Longrightarrow> all_actions same_token p"
  by (induction rule: api_requests.induct)
     (auto simp: login_task_def check_task_def verifier_task_def hash_task_def cache_task_def allow_task_def
       delete_task_def purge_task_def db_call_def create_task_def created_task_def replicate_task_def
       sweep_task_def snapshot_task_def split: option.splits sum.splits bool.splits)

definition tokens :: "'s app_state \<Rightarrow> string set" where
  "tokens st = insert (tp_current (st_token st)) (set_option (tp_previous (st_token st)))"

lemma token_matches_iff: "token_matches t st \<longleftrightarrow> t \<in> tokens st"
  by (cases "tp_previous (st_token st)") (auto simp: token_matches_def tokens_def)

text \<open>
  What one action may do to the tokens: those it leaves were accepted before or come from the vault,
  and the current one stays accepted.
\<close>

definition rotates :: "string set \<Rightarrow> 's app_state \<Rightarrow> 's app_state \<Rightarrow> bool" where
  "rotates V s s' \<longleftrightarrow> tokens s' \<subseteq> tokens s \<union> V \<and> token_matches (current_token s) s'"

lemma rotates_same: "same_token s s' \<Longrightarrow> rotates V s s'"
  by (auto simp: rotates_def tokens_def token_matches_def current_token_def)

lemma rotates_begin: "rotates V s (fst (refresh_begin now s))"
  by (auto simp: rotates_def refresh_begin_def tokens_def token_matches_def current_token_def)

lemma rotates_install: "new \<in> V \<Longrightarrow> rotates V s (token_install new s)"
  by (auto simp: rotates_def token_install_def tokens_def token_matches_def current_token_def)

text \<open>The requests: every answer of the vault is in \<open>V\<close>.\<close>

definition gated_requests ::
    "string set \<Rightarrow> ('s, 'j) task set \<Rightarrow> ('s app_state, 'j outcome gated) prog set" where
  "gated_requests V H =
     {gate_task now answer header p | now answer header p.
        p \<in> H \<and> (\<forall>new. answer = Inr (Some new) \<longrightarrow> new \<in> V)}"

lemma gate_rotates:
  assumes "all_actions same_token p" and "\<forall>new. answer = Inr (Some new) \<longrightarrow> new \<in> V"
  shows "all_actions (rotates V) (gate_task now answer header p)"
  using assms all_actions_mono [OF assms(1), of "rotates V"] rotates_same
  by (auto simp: gate_task_def refresh_task_def rotates_begin rotates_install
      split: option.splits sum.splits)

text \<open>A request that passes saw its token accepted in some state.\<close>

definition passed_claim :: "'s app_state set \<Rightarrow> 'r gated \<Rightarrow> bool" where
  "passed_claim h res \<longleftrightarrow> (\<forall>t r. res = Passed t r \<longrightarrow> (\<exists>s \<in> h. token_matches t s))"

lemma safe_passed:
  "s \<in> h \<Longrightarrow> token_matches t s \<Longrightarrow> safe (\<lambda>_ _. True) passed_claim h (map_prog (Passed t) p)"
  by (induction p arbitrary: h) (auto simp: passed_claim_def)

lemma passed_claim_refused [simp]: "passed_claim h Refused"
  by (simp add: passed_claim_def)

lemma safe_second:
  "safe (\<lambda>_ _. True) passed_claim h (inspect (token_matches t) (\<lambda>ok.
     if ok then map_prog (Passed t) p else Return Refused))"
  by (rule safe_inspect) (auto intro: safe_passed)

lemma gate_safe: "safe (\<lambda>_ _. True) passed_claim h (gate_task now answer header p)"
proof (cases "bearer_of header")
  case None
  then show ?thesis by (simp add: gate_task_def)
next
  case (Some t)
  show ?thesis unfolding gate_task_def refresh_task_def Some option.case
    by (intro safe_inspect)
       (auto intro!: safe_passed safe_atomic safe_update safe_second split: option.splits sum.splits)
qed

interpretation gates: concurrent_requests "\<lambda>_ _. True" passed_claim "gated_requests V H"
  by unfold_locales (auto simp: passed_claim_def gated_requests_def gate_safe, blast)

section \<open>One request at a time\<close>

lemma refresh_steps:
  "refresh_token vget now st =
     (case refresh_begin now st of (st1, fetch) \<Rightarrow>
        if fetch then (case vget (the (st_vault st)) ''ciqada/api-token'' of
           Inr (Some new) \<Rightarrow> token_install new st1 | _ \<Rightarrow> st1) else st1)"
  by (cases "st_vault st")
     (auto simp: refresh_token_def refresh_begin_def refresh_due_def token_install_def Let_def
       split: option.splits sum.splits)

lemma run_gate:
  assumes "\<forall>v. st_vault st = Some v \<longrightarrow> vget v ''ciqada/api-token'' = answer"
  shows "run (gate_task now answer header p) st =
     (case authorize vget now header st of (st1, pass) \<Rightarrow>
        if pass then (fst (run p st1), Passed (the (bearer_of header)) (snd (run p st1)))
        else (st1, Refused))"
  using assms
  by (cases "st_vault st")
     (auto simp: gate_task_def refresh_task_def authorize_def refresh_steps run_map refresh_begin_def
       split: option.splits sum.splits)

section \<open>Properties\<close>

text \<open>
  C17. The token gate and rotation under interleaving. Run alone, a request behind the gate is the
  sequential one. When requests interleave, with refreshes suspended while the vault is asked, a
  request passes only if its token was accepted in some state visited, and that token was accepted at
  the start or came from the vault; and no action of any request invalidates the token that is current
  when it happens.
\<close>

theorem token_gate_interleaved:
  assumes "serve (gated_requests V (api_requests U E A)) s0 h s ps"
  shows "(\<forall>t r. Return (Passed t r) \<in> set ps \<longrightarrow> (\<exists>s' \<in> h. token_matches t s') \<and> t \<in> tokens s0 \<union> V)
     \<and> (\<forall>i f k. i < length ps \<and> ps ! i = Atomic f k \<longrightarrow> token_matches (current_token s) (f s))
     \<and> (\<forall>vget answer now header p st. (\<forall>v. st_vault st = Some v \<longrightarrow> vget v ''ciqada/api-token'' = answer) \<longrightarrow>
          run (gate_task now answer header p) st =
            (case authorize vget now header st of (st1, pass) \<Rightarrow>
               if pass then (fst (run p st1), Passed (the (bearer_of header)) (snd (run p st1)))
               else (st1, Refused)))"
proof -
  have R: "\<forall>p \<in> gated_requests V (api_requests U E A). all_actions (rotates V) p"
    using gate_rotates handlers_leave_token by (fastforce simp: gated_requests_def)
  have "all_actions (\<lambda>s s'. tokens s \<subseteq> tokens s0 \<union> V \<longrightarrow> tokens s' \<subseteq> tokens s0 \<union> V) p"
    if "p \<in> gated_requests V (api_requests U E A)" for p
    by (rule all_actions_mono [of "rotates V"]) (use R that in \<open>auto simp: rotates_def\<close>)
  then have "\<forall>p \<in> gated_requests V (api_requests U E A).
      all_actions (\<lambda>s s'. tokens s \<subseteq> tokens s0 \<union> V \<longrightarrow> tokens s' \<subseteq> tokens s0 \<union> V) p" by blast
  from serve_stable [OF assms this] have toks: "\<forall>s' \<in> h. tokens s' \<subseteq> tokens s0 \<union> V" by simp
  have "(\<exists>s' \<in> h. token_matches t s') \<and> t \<in> tokens s0 \<union> V" if pr: "Return (Passed t r) \<in> set ps" for t r
  proof -
    obtain s' where "s' \<in> h" "token_matches t s'"
      using gates.serve_result [OF assms _ pr] by (auto simp: passed_claim_def)
    then show ?thesis using toks by (auto simp: token_matches_iff)
  qed
  moreover have "token_matches (current_token s) (f s)" if "i < length ps" "ps ! i = Atomic f k" for i f k
  proof -
    have "all_actions (rotates V) (Atomic f k)" using serve_actions [OF assms R] that nth_mem by metis
    then show ?thesis by (simp add: rotates_def)
  qed
  ultimately show ?thesis by (intro conjI allI impI run_gate) blast+
qed

definition token_state :: "string mem_db app_state" where
  "token_state = (sample_state alice_db)\<lparr>st_token := \<lparr>tp_current = ''t0'', tp_previous = None,
     tp_refreshed_at = None\<rparr>\<rparr>"

theorem token_gate_interleaved_witness:
  "\<exists>h s. serve (gated_requests {} (api_requests sample_store sample_ext {})) token_state h s
        [Return (Passed ''t0'' Finished)] \<and> (\<exists>s' \<in> h. token_matches ''t0'' s')"
proof -
  let ?R = "gated_requests {} (api_requests sample_store sample_ext {})"
  let ?p = "gate_task 0 (Inr None) (Some ''Bearer t0'') (sweep_task 0 0)
    :: (string mem_db app_state, repl_op outcome gated) prog"
  have "?p \<in> ?R" unfolding gated_requests_def using req_sweep by blast
  then have a: "serve ?R token_state {token_state} token_state [?p]"
    using serve.arrive [OF serve.idle] by fastforce
  have "bearer_of (Some ''Bearer t0'') = Some ''t0''" by code_simp
  then have r: "snd (run ?p token_state) = Passed ''t0'' Finished"
    by (simp add: gate_task_def token_state_def token_matches_def run_map sweep_task_def)
  obtain sched where e: "exec sched (token_state, [?p]) = (fst (run ?p token_state), [Return (snd (run ?p token_state))])"
    using exec_run [of 0 "[?p]" ?p token_state] by auto
  from serve_exec [OF a e] obtain h where
    "serve ?R token_state h (fst (run ?p token_state)) [Return (Passed ''t0'' Finished)]" unfolding r by blast
  moreover from this have "\<exists>s' \<in> h. token_matches ''t0'' s'"
    by (rule token_gate_interleaved [THEN conjunct1, rule_format, THEN conjunct1]) simp
  ultimately show ?thesis by blast
qed

text \<open>
  Two refreshes that overlap: the second is due because five seconds have passed since the first began,
  and its answer, which is newer, is installed first. The answer of the first then replaces it, so that
  this node presents the older token to its peers and rejects the one that was current before both.
\<close>

lemma stale_refresh:
  fixes v :: vault_client and h :: "(string mem_db, repl_op) task"
  assumes "\<And>t. t \<in> {''t0'', ''t1'', ''t2''} \<Longrightarrow> x \<noteq> t" and "bearer_of header = Some x"
  shows "\<exists>s. fst (exec [0, 0, 1, 1, 1, 0]
      (token_state\<lparr>st_vault := Some v\<rparr>,
       [gate_task 0 (Inr (Some ''t1'')) header h, gate_task (secs 5) (Inr (Some ''t2'')) header h])) = s
    \<and> current_token s = ''t1'' \<and> tp_previous (st_token s) = Some ''t2'' \<and> \<not> token_matches ''t0'' s"
proof -
  have "x \<noteq> ''t0''" using assms(1) by blast
  then show ?thesis
    using assms(2)
    by (simp add: pool_act_def gate_task_def refresh_task_def refresh_begin_def refresh_due_def
        token_install_def token_state_def token_matches_def current_token_def action_defs secs_def)
qed

end
