(* ===== verification/Fuzz_Targets.thy ===== *)
theory Fuzz_Targets
  imports User_Store Topic_Match
begin

text \<open>
  The two fuzz targets of \<open>src/fuzz/fuzz_targets\<close>: what they do with one input. A failed assertion is
  \<open>None\<close>; the calls whose result the code drops are kept for their inputs.
\<close>

record fuzz_input =
  fz_stored_hash :: string
  fz_pepper :: bytes
  fz_username :: string
  fz_password :: string
  fz_stored :: bytes

definition fuzz_auth_verify :: "('p, 'h) argon2 \<Rightarrow> (bytes \<Rightarrow> bytes \<Rightarrow> bytes) \<Rightarrow> fuzz_input \<Rightarrow> unit option" where
  "fuzz_auth_verify A hmac i =
     (let _ = verify_password A (fz_stored_hash i) (fz_password i);
          v = compute_verifier hmac (fz_pepper i) (fz_username i) (fz_password i)
      in if verify_fast hmac (fz_pepper i) (fz_username i) (fz_password i) v
         then let _ = verify_fast hmac (fz_pepper i) (fz_username i) (fz_password i) (fz_stored i) in Some ()
         else None)"

definition fuzz_topic_match :: "string \<times> string \<Rightarrow> bool \<times> bool" where
  "fuzz_topic_match = (\<lambda>(topic, filt). (topic_matches topic filt, has_wildcard filt))"

lemma fuzz_auth_verify_passes: "fuzz_auth_verify A hmac i = Some ()"
  by (simp add: fuzz_auth_verify_def verify_fast_def ct_eq_iff)

text \<open>A filter without wildcards matches exactly the topic that is equal to it.\<close>

lemma fuzz_topic_plain:
  assumes "fuzz_topic_match (topic, filt) = (m, False)"
  shows "m \<longleftrightarrow> topic = filt"
  using assms topic_matches_exact by (auto simp: fuzz_topic_match_def)

end
