(* ===== verification/Msg_Store_Race.thy ===== *)
theory Msg_Store_Race
  imports Samples
begin

text \<open>
  Two flushes of the message store whose transactions commit in the opposite order. Nothing in
  \<open>main.rs\<close> makes the flush at shutdown wait for a periodic flush that has taken its changes but has
  not started its transaction.
\<close>

text \<open>The message of the sample store with and without the delivery mark of one client.\<close>

definition marked_msg :: stored_msg where
  "marked_msg = hello_msg\<lparr>sm_delivered_to := [''c2'']\<rparr>"

definition mark_enc :: "stored_msg \<Rightarrow> bytes result" where
  "mark_enc m = (if m = hello_msg then Inr [1] else if m = marked_msg then Inr [2] else Inl (EncodeError []))"

definition mark_dec :: "bytes \<Rightarrow> stored_msg result" where
  "mark_dec b = (if b = [1] then Inr hello_msg else if b = [2] then Inr marked_msg else Inl (DecodeError []))"

lemma mark_codec: "codec_laws mark_enc mark_dec"
  by (auto simp: codec_laws_def mark_enc_def mark_dec_def split: if_splits)











section \<open>The race\<close>



lemma marked_sel [simp]:
  "sm_delivered_to marked_msg = [''c2'']" "sm_from marked_msg = sm_from hello_msg"
  "sm_publish marked_msg = hello" "sm_publish hello_msg = hello" "sm_expiry_at marked_msg = 1000"
  "sm_expiry_at hello_msg = 1000" "sm_delivered_to hello_msg = []" "pub_topic hello = ''a/u1''"
  by (simp_all add: marked_msg_def hello_msg_def hello_def)





end
