(* ===== verification/Spec2Isabelle.thy ===== *)
theory Spec2Isabelle
  imports Broker_Isolation Load_Tests Api_Concurrency Api_Gate Fuzz_Targets Msg_Store_Race
begin

text \<open>
  A verification development for the MQTT broker \<open>ciqadamq\<close>.

  \<^bold>\<open>The program.\<close> The server of \<open>src/src\<close> embeds the vendored broker \<open>rmqtt\<close>. \<open>main.rs\<close> reads the
  configuration (\<open>config.rs\<close>), secrets (\<open>vault.rs\<close>) and the user database (\<open>db.rs\<close>), starts the management
  API, registers hooks that authenticate clients and check their subscriptions and publications
  (\<open>api.rs\<close>), installs the automatic subscriptions of users (\<open>fanout.rs\<close>) and the persistent store of
  messages (\<open>msgstore.rs\<close>, \<open>topic.rs\<close>), and opens the listeners. The management API changes the user
  database and tells the other nodes of a cluster about it. Two load generators, \<open>bin/perf.rs\<close> and
  \<open>bin/perf_resources.rs\<close>, create users through the API and drive the broker.

  \<^bold>\<open>Theories and sources.\<close>
  \<^item> \<open>Prelude\<close>, \<open>Rust_Str\<close>: machine types, errors, results, saturating arithmetic; the string operations
    of the standard library on byte strings.
  \<^item> \<open>Ciqada_Config\<close> (\<open>config.rs\<close>), \<open>Vault\<close> (\<open>vault.rs\<close>), \<open>Topic_Match\<close> (\<open>topic.rs\<close>).
  \<^item> \<open>Redb\<close>: the database crate as a record of operations with laws; \<open>User_Store\<close> (\<open>db.rs\<close>): passwords,
    verifiers, \<open>RedbStore\<close>. The locale \<open>user_store_contract\<close> is the contract of the trait \<open>UserStore\<close>,
    interpreted by \<open>RedbStore\<close>; the handlers are proved against it.
  \<^item> \<open>Api_Cache\<close>, \<open>Api_State\<close>, \<open>Api_Users\<close>, \<open>Api_Auth\<close>, \<open>Api_Login\<close> (\<open>api.rs\<close>): the two caches (locale
    \<open>ttl_cache\<close>, interpreted by both), the state with its token, the routes and their handlers with
    replication and catch-up, the hooks, and the runs of all of them as a step relation.
  \<^item> \<open>Interleaving\<close>: programs of atomic actions on a shared state, their schedules, and the rule for
    interference (locale \<open>concurrent_requests\<close>). \<open>Api_Tasks\<close>: the handlers, the login, the sweep and the
    snapshot of \<open>api.rs\<close> and \<open>main.rs\<close> as such programs. \<open>Api_Interference\<close>: the locale \<open>api_guard\<close>, what an
    invariant has to guarantee for each action, a sublocale of \<open>concurrent_requests\<close>. \<open>Api_Races\<close>: its two
    interpretations on \<open>RedbStore\<close>, one that vouches for a login by the states visited since the start,
    one for a user that is gone. \<open>Api_Concurrency\<close> holds the properties and two concrete races. \<open>Api_Gate\<close>:
    the token gate and the refresh of the token as such programs, with their property.
  \<^item> \<open>Auto_Subscription\<close> (\<open>fanout.rs\<close>), \<open>Startup\<close> and \<open>Server_Main\<close> (\<open>main.rs\<close>): the parts that \<open>main\<close> sets up, and
    \<open>main\<close> itself as a function from the world to the list of its effects and its result, with the
    ways the process ends.
  \<^item> \<open>Msg_Store\<close>, \<open>Msg_Store_Inv\<close>, \<open>Msg_Store_Disk\<close>, \<open>Msg_Store_Flush\<close> (\<open>msgstore.rs\<close>): the operations, the
    invariant of the memory (over the locale \<open>topic_matcher\<close>), the relation of memory and disk, and
    its preservation when operations and flushes under way interleave. \<open>Msg_Store_Race\<close>: two flushes
    that are written in the opposite order.
  \<^item> \<open>Rmqtt_Topic\<close>, \<open>Rmqtt_Types\<close>, \<open>Rmqtt_Acl\<close>, \<open>Rmqtt_Trie\<close>, \<open>Rmqtt_Router\<close>, \<open>Rmqtt_Queue\<close>, \<open>Rmqtt_Inflight\<close>
    (\<open>src/vendor/rmqtt/src\<close>): topics, protocol data, access rules, the topic tree (locale \<open>topic_tree\<close>), the
    router, the queue of a session (locale \<open>bounded_fifo\<close>) and its in-flight windows. \<open>Broker_Delivery\<close>
    holds their properties.
  \<^item> \<open>Rmqtt_Session\<close> (\<open>session.rs\<close>, \<open>shared.rs\<close>, \<open>v3.rs\<close>, \<open>hook.rs\<close> of the vendored broker): the sessions of one node,
    with the hooks of \<open>api.rs\<close>, the router and the message store plugged in. \<open>Rmqtt_Isolation\<close>: the invariant that
    a session only holds what its user may receive, and its preservation by every operation.
    \<open>Rmqtt_Forwarding\<close>: what a publication and a take-over do. \<open>Broker_Isolation\<close>: the broker as a step
    relation, and its properties.
  \<^item> \<open>Perf\<close>, \<open>Perf_Resources\<close>, \<open>Chart\<close>, \<open>Perf_Main\<close> (\<open>bin\<close>): the load generators with their tables and charts,
    as whole programs; \<open>Load_Tests\<close> holds their properties.
  \<^item> \<open>Fuzz_Targets\<close> (\<open>src/fuzz/fuzz_targets\<close>): the two fuzz targets.
  \<^item> \<open>Samples\<close>: a user, a store and a state on which the properties of this theory are exercised.

  \<^bold>\<open>Correspondence.\<close> A struct is a record and an enum a datatype; names are those of the source with a
  prefix where records share field names. A method is a function from the state to the new state
  and its result. Errors are values of the sum type of \<open>Prelude\<close>. Hash maps are finite maps or
  association lists; where the order of iteration matters it is an argument or the theorem speaks
  about sets. Clocks, random bytes, the environment, answers of other servers and outcomes of
  commands are arguments. Third-party code (Argon2, HMAC, SHA-256, \<open>redb\<close>, the serializers, the
  counters, the ordered map of the in-flight window, floating-point numbers) is a parameter; what a
  theorem needs of it is a named hypothesis, and a sample instance shows that it can hold.

  \<^bold>\<open>What is shown.\<close> C1--C3: users are isolated: from the access checks of subscriptions and publications to
  what the broker delivers, in every state it reaches while a client identifier belongs to one user.
  C4--C10: who is let in, one request at a time and under any interleaving, that the caches never let in
  anybody else, and where a login under way during a deletion breaks this. C11, C12: the interleaved
  programs are the handlers when they run alone, and all of them end. C13--C15, C18, C19: the effect of
  creating, deleting and listing users, on this node and on the peers that process the request. C16, C17:
  the token gate, alone and interleaved with refreshes of the token. C20: automatic subscriptions are
  allowed ones. C21, C22: the topic matchers and the topic parser. C23: the fast password check and its
  fuzz target. C24--C29: the message store, its bounds, flushes, restarts and identifiers. C30, C31,
  C34, C35: routing, publishing and delivery in the broker. C32, C33: the two ways round the access rules,
  a last will and a session taken over by another user. C36: the start of the server. C37--C40: the load
  generators. Lemmas without a number state the rest: the statistics of the router (\<open>router_counters\<close>),
  stale answers of the vault (\<open>stale_refresh\<close>), repeated messages (\<open>exactly_once_twice\<close>), failed
  loads of stored messages (\<open>message_load_loses\<close>), and that the server accepts the users of the load
  generators (\<open>provisioning_accepted\<close>).

  \<^bold>\<open>Bounds and termination.\<close> All functions are total. The recursions that are not structural
  (\<open>register_loop\<close>, \<open>connect_attempts\<close>, \<open>choice_loop\<close>, the trimming of strings) have measures taken from the
  bound in the code; the packet identifier loop has the bound 65535 of the source and the catch-up
  its 30 rounds. The waits of the load generators consume the list of observed events, whose end is
  the timeout. An interleaved request makes at most nine actions, which is the longest path through a
  login; schedules are finite lists or rule inductions, without fuel. Message identifiers and
  packet identifiers are 64-bit and 16-bit words; byte counts saturate as in the source. The loads of the benchmarks are natural numbers, without wrap-around.

  \<^bold>\<open>Not modelled.\<close> Sockets, logging, and when timers and signals fire: what they start is an operation.
  Suspension inside a store transaction or a cache access, each of which holds its lock; a flush of the
  message store is two steps, its other operations are one each, and so are the operations of a session.
  The limit on concurrent hash computations, since it only removes schedules. The TOML and JSON decoders.
  Of the vendored broker: packets and their properties, topic aliases, retained and delayed messages,
  which the build leaves out, the network code and the cluster transport, so that forwarding and
  taking over are those of one node. Rounding of floating-point numbers: the arithmetic of the charts is
  a parameter, and C37 and C38 take it to be exact. The end-to-end tests.
\<close>

section \<open>Access control\<close>

text \<open>
  C2. Confinement of subscriptions. When the access check grants a subscription of a session that
  belongs to a user without the superuser flag, every topic that matches the granted filter has
  the user's id as its second level or lies under a fan-out prefix or, for an administrator, under
  an administration prefix. The configured prefixes have no wildcards, dollar signs or spaces, and
  the filter is one that the broker parses.
\<close>

theorem subscribe_confinement:
  assumes "acl_enabled acl" and "\<not> ur_superuser r" and "valid_segment (ur_userid r)"
    and "\<forall>p \<in> user_prefixes r acl. plain p"
    and "subscribe_check_acl acl (Some (build_auth_info r acl ci)) sub
        = (b, Some (SubscribeAclResult res))"
    and "sub_success res \<noteq> None"
    and "topic_from_str (sub_topic_filter sub) = Inr f" and "mqtt_match f t"
  shows "confined r acl t"
  using assms by (rule subscription_confined)

theorem subscribe_confinement_witness:
  "confined alice acl_config_default [Normal ''x'', Normal ''u1'', Normal ''y'']"
proof (rule subscribe_confinement)
  let ?sub = "\<lparr>sub_topic_filter = ''+/u1/#'',
     sub_opts = OptsV3 \<lparr>v3_qos = AtLeastOnce, v3_shared_group = None\<rparr>\<rparr>"
  show "subscribe_check_acl acl_config_default (Some (build_auth_info alice acl_config_default alice_connect)) ?sub
      = (False, Some (SubscribeAclResult (sub_new_success AtLeastOnce None)))" by code_simp
  show "topic_from_str (sub_topic_filter ?sub) = Inr [SingleWildcard, Normal ''u1'', MultiWildcard]"
    by code_simp
  show "mqtt_match [SingleWildcard, Normal ''u1'', MultiWildcard] [Normal ''x'', Normal ''u1'', Normal ''y'']"
    by code_simp
qed (simp_all add: acl_config_default_def alice_def user_prefixes_def plain_def alice_valid)

text \<open>
  C3. Confinement of publications. For a user without the superuser flag the access check lets a
  publication through exactly when its topic is one of the configured topics; otherwise it rejects
  the message and asks for the connection to be closed.
\<close>

theorem publish_allowlist:
  assumes "acl_enabled acl" and "\<not> ur_superuser r"
    and "\<forall>t \<in> set (publish_topics acl). CHR ''$'' \<notin> set t"
  shows "publish_check_acl acl (Some (build_auth_info r acl ci)) p =
     (False, Some (PublishAclResult
       (if pub_topic p \<in> set (publish_topics acl) then publish_acl_allow
        else publish_acl_rejected True None)))"
  using assms by (rule publish_check_build)

theorem publish_allowlist_witness:
  "publish_check_acl acl_config_default (Some (build_auth_info alice acl_config_default alice_connect)) hello
   = (False, Some (PublishAclResult (publish_acl_rejected True None)))"
  using publish_allowlist [of acl_config_default alice alice_connect hello]
  by (simp add: acl_config_default_def alice_def hello_def)

section \<open>Logins\<close>







text \<open>
  C10. Provenance of a cached credential. A hit in the authentication cache after any history of
  calls comes from an insertion of that entry less than the time to live ago, with no purge since.
\<close>

theorem auth_cache_provenance:
  assumes "auth_cache_get k now
      (fold (cache_step auth_cache_insert auth_cache_purge_user auth_cache_sweep) ops (auth_cache_new d))
      = Some v"
  shows "\<exists>before t after. ops = before @ CInsert k v t # after \<and> now < t + d
     \<and> (\<forall>p. CPurge p \<notin> set after)"
  using authc.hit_provenance [OF assms] by simp

theorem auth_cache_provenance_witness:
  "\<exists>before t after. [CInsert [1] True 5 :: (bytes, bool, string) cache_op, CSweep 6]
      = before @ CInsert [1] True t # after \<and> 7 < t + 10"
proof -
  have "auth_cache_get [1] 7 (fold (cache_step auth_cache_insert auth_cache_purge_user auth_cache_sweep)
      [CInsert [1] True 5, CSweep 6] (auth_cache_new 10)) = Some True"
    by (simp add: auth_cache_get_def auth_cache_insert_def auth_cache_sweep_def auth_cache_new_def)
  from auth_cache_provenance [OF this] show ?thesis by blast
qed

section \<open>User management\<close>





text \<open>
  C15. Replication. When a request that a node sent for a creation or a deletion is delivered to a
  peer and answered with 204, both nodes agree on that user: the same record after a creation, no
  record after a deletion.
\<close>

theorem replication_converges:
  assumes "redb_inv R enc dec view (st_db a)" and "redb_inv R enc dec view (st_db b)"
    and "create_user (redb_store R enc dec) E salt joined req a = (a', rsp, out) \<and> rsp_status rsp = 201
         \<and> n = cu_username req
       \<or> delete_user (redb_store R enc dec) E n a = (a', rsp, out) \<and> rsp_status rsp = 204"
    and "\<And>op. ext_to_value E op = Inr (to_json op)" and "\<And>op. of_json (to_json op) = op"
    and "post \<in> set out"
    and "replicate_op (redb_store R enc dec) (of_json (post_body post)) b = (b', rsp')"
    and "rsp_status rsp' = 204"
  shows "users_of dec view (st_db b') n = users_of dec view (st_db a') n"
  using assms(3)
proof
  assume "create_user (redb_store R enc dec) E salt joined req a = (a', rsp, out) \<and> rsp_status rsp = 201
    \<and> n = cu_username req"
  then show ?thesis using redbs.create_replicates [OF assms(1,2) _ _ assms(4-8)] by blast
next
  assume "delete_user (redb_store R enc dec) E n a = (a', rsp, out) \<and> rsp_status rsp = 204"
  then have "users_of dec view (st_db b') n = None \<and> users_of dec view (st_db a') n = None"
    using redbs.delete_replicates [OF assms(1,2) _ _ assms(4-8)] by blast
  then show ?thesis by simp
qed

theorem replication_converges_witness:
  "users_of user_dec mem_view
     (st_db (fst (replicate_op (redb_store mem_redb user_enc user_dec) (Upsert alice) (sample_state empty_db))))
     ''alice'' = users_of user_dec mem_view alice_db ''alice''"
proof -
  let ?U = "redb_store mem_redb user_enc user_dec"
  have "redb_upsert_user mem_redb user_enc (new_user_of alice) empty_db = (alice_db, Inr ())"
    by (auto simp: redb_upsert_user_def user_enc_def write_txn_def mem_redb_def empty_db_def
        alice_db_def users_table_def alice_def new_user_of_def record_of_def fun_eq_iff)
  then have r: "replicate_op ?U (Upsert alice) (sample_state empty_db)
      = (fst (replicate_op ?U (Upsert alice) (sample_state empty_db)), no_content)"
    by (simp add: replicate_op_def)
  from replication_converges [OF _ _ disjI1 [OF conjI [OF create_alice_peered [unfolded sample_store_def]]],
      where b = "sample_state empty_db" and to_json = "\<lambda>x. x" and of_json = "\<lambda>x. x" and n = "''alice''"]
    r redb_inv_empty
  show ?thesis by (fastforce simp: sample_ext_def alice_req_def)
qed

text \<open>
  C16. Every route but the health check is behind the token. Without a bearer token that is current,
  previous or just named by the vault, a request is answered with 401, changes neither the user
  store nor the caches and sends nothing to the peers.
\<close>

theorem token_gate:
  assumes "rq \<noteq> RqHealth"
    and "\<not> (\<exists>t. header = Some (''Bearer '' @ t) \<and> (token_matches t st
          \<or> (\<exists>v. st_vault st = Some v \<and> call_vault c v ''ciqada/api-token'' = Inr (Some t))))"
    and "management_router U E c header rq st = (st', rsp, out)"
  shows "rsp = unauthorized \<and> out = [] \<and> st_db st' = st_db st
     \<and> st_auth_cache st' = st_auth_cache st \<and> st_users st' = st_users st"
proof (rule require_token_rejects)
  show "require_token (call_vault c) (call_now c) header (route U E c rq) st = (st', rsp, out)"
    using assms(1,3) by (simp add: management_router_def)
  show "\<not> snd (authorize (call_vault c) (call_now c) header st)"
  proof
    assume "snd (authorize (call_vault c) (call_now c) header st)"
    then obtain s1 where "authorize (call_vault c) (call_now c) header st = (s1, True)"
      by (cases "authorize (call_vault c) (call_now c) header st") simp
    from authorize_sound [OF this] assms(2) show False by blast
  qed
qed

theorem token_gate_witness:
  "rsp_status (fst (snd (management_router sample_store sample_ext
     \<lparr>call_now = 0, call_salt = [], call_joined = True, call_vault = (\<lambda>_ _. Inr None),
      call_user_json = (\<lambda>_. JBool True), call_health = None\<rparr> None (RqDeleteUser ''alice'')
     (sample_state alice_db)))) = 401"
proof -
  let ?c = "\<lparr>call_now = 0, call_salt = [], call_joined = True, call_vault = (\<lambda>_ _. Inr None),
      call_user_json = (\<lambda>_. JBool True), call_health = None\<rparr>"
  obtain st' rsp out where m: "management_router sample_store sample_ext ?c None (RqDeleteUser ''alice'')
      (sample_state alice_db) = (st', rsp, out)" by (metis prod.exhaust)
  from token_gate [OF _ _ m] have "rsp = unauthorized" by simp
  with m show ?thesis by simp
qed

text \<open>
  C18. Listing. The answer of the list endpoint enumerates the stored users once each in ascending
  order of their names, with the public fields only.
\<close>

theorem list_users_complete:
  assumes "redb_inv R enc dec view (st_db st)"
    and "redb_list_users R dec (st_db st) = Inr rs"
  shows "list_users (redb_store R enc dec) st =
     \<lparr>rsp_status = 200, rsp_body = Some (JObj [(''users'', JArr (map public_user rs))])\<rparr>
     \<and> sorted (map ur_username rs) \<and> distinct (map ur_username rs)
     \<and> map_of (map (\<lambda>r. (ur_username r, r)) rs) = users_of dec view (st_db st)"
  using redbs.list_ok [OF assms(1), of rs] assms(2) by (simp add: list_users_def)

theorem list_users_complete_witness:
  "list_users (redb_store mem_redb user_enc user_dec) (sample_state alice_db)
   = \<lparr>rsp_status = 200, rsp_body = Some (JObj [(''users'', JArr [public_user alice])])\<rparr>"
proof -
  have "redb_list_users mem_redb user_dec alice_db = Inr [alice]"
    by (simp add: redb_list_users_def mem_redb_def mem_iter_def alice_db_def users_table_def user_dec_def)
  with list_users_complete [of mem_redb user_enc user_dec mem_view "sample_state alice_db" "[alice]"]
    redb_inv_alice show ?thesis by simp
qed

text \<open>
  C19. The user store as a map. On \<open>RedbStore\<close> an insertion reports whether the name was free, a
  successful one is what a later read returns, a second insertion under the name is refused, and
  a failed call leaves both tables as they were.
\<close>

theorem redb_insert_get:
  assumes "redb_inv R enc dec view d" and "redb_insert_user R enc u d = (d', res)"
  shows "redb_inv R enc dec view d'
     \<and> (case res of
          Inl e \<Rightarrow> users_of dec view d' = users_of dec view d \<and> verifs_of view d' = verifs_of view d
        | Inr b \<Rightarrow> b = (users_of dec view d (nu_username u) = None)
            \<and> (b \<longrightarrow> (\<forall>r. redb_get_user R dec (nu_username u) d' = Inr r \<longrightarrow> r = Some (record_of u)))
            \<and> (\<forall>v d'' c. redb_insert_user R enc v d' = (d'', Inr c) \<and> nu_username v = nu_username u \<longrightarrow> \<not> c))"
proof (cases res)
  case (Inl e)
  then show ?thesis
    using redbs.insert_err [OF assms(1), of u d' e] redbs.inv_insert [OF assms(1), of u] assms(2) by simp
next
  case (Inr b)
  then show ?thesis
    using redbs.insert_ok [OF assms(1), of u d' b] redbs.inv_insert [OF assms(1), of u] assms(2)
      redbs.get_after_insert [OF assms(1), of u d'] redbs.insert_twice [OF assms(1), of u d' b]
    by auto
qed

theorem redb_insert_get_witness:
  "redb_inv mem_redb user_enc user_dec mem_view alice_db"
  using redb_insert_get [OF redb_inv_empty insert_alice_empty] by simp

section \<open>Automatic subscriptions\<close>

text \<open>
  C20. The automatic subscriptions of a known user are built without error, are exactly the filters
  that the access rules are made from, and each passes the access check of the user's session.
\<close>

theorem auto_subscription_granted:
  assumes "us_get_user U n db = Inr (Some r)" and "id_username ident = Some n"
    and "valid_segment (ur_userid r)" and "\<forall>p \<in> user_prefixes r acl. plain p"
    and "acl_enabled acl" and "\<not> ur_superuser r"
  shows "\<exists>subs. auto_subscribes U db (auto_subscription_new fo acl) ident = Inr subs
     \<and> map sub_topic_filter subs = acl_filters r acl
     \<and> (\<forall>sub \<in> set subs. subscribe_check_acl acl (Some (build_auth_info r acl ci)) sub
          = (False, Some (SubscribeAclResult (sub_new_success (opts_qos (sub_opts sub)) None))))"
  using assms by (rule auto_subscribes_granted)

theorem auto_subscription_granted_witness:
  "\<exists>subs. auto_subscribes sample_store alice_db
       (auto_subscription_new fanout_config_default acl_config_default) alice_ident = Inr subs
     \<and> map sub_topic_filter subs = [''+/u1/#'', ''fanout/#'']"
proof -
  have "\<exists>subs. auto_subscribes sample_store alice_db
       (auto_subscription_new fanout_config_default acl_config_default) alice_ident = Inr subs
     \<and> map sub_topic_filter subs = acl_filters alice acl_config_default
     \<and> (\<forall>sub \<in> set subs. subscribe_check_acl acl_config_default
           (Some (build_auth_info alice acl_config_default alice_connect)) sub
          = (False, Some (SubscribeAclResult (sub_new_success (opts_qos (sub_opts sub)) None))))"
    by (rule auto_subscription_granted [OF get_alice])
       (simp_all add: alice_ident_def alice_def alice_valid acl_config_default_def user_prefixes_def plain_def)
  then show ?thesis by (auto simp: acl_filters_def alice_def acl_config_default_def)
qed

section \<open>Topics\<close>

text \<open>
  C21. The topic matchers. The matcher of the message store is the declarative match: the segments
  before the first multi-level wildcard match one to one, and without such a wildcard the numbers of
  segments agree. The matcher of the access rules agrees with it on topics none of whose segments
  starts with a dollar sign.
\<close>

theorem acl_matcher_agrees:
  assumes "topic_from_str f = Inr t" and "\<forall>r \<in> set (split_on (CHR ''/'') s). \<not> is_metadata r"
  shows "(matches_str t s \<longleftrightarrow> topic_matches s f)
     \<and> (topic_matches u f \<longleftrightarrow> match_spec (split_on (CHR ''/'') f) (split_on (CHR ''/'') u))"
  using matches_str_topic_matches [OF assms] by (simp add: topic_matches_def match_segments_spec)

theorem acl_matcher_agrees_witness:
  "matches_str [SingleWildcard, Normal ''b''] ''a/b'' \<longleftrightarrow> topic_matches ''a/b'' ''+/b''"
proof -
  have "topic_from_str ''+/b'' = Inr [SingleWildcard, Normal ''b'']"
    and "\<forall>r \<in> set (split_on (CHR ''/'') ''a/b''). \<not> is_metadata r" by code_simp+
  from acl_matcher_agrees [OF this] show ?thesis by blast
qed

text \<open>
  C22. Printing inverts parsing: a filter that parses is printed back unchanged, its levels satisfy
  the validity rules, and no two strings parse to the same levels.
\<close>

theorem topic_roundtrip:
  assumes "topic_from_str s = Inr t"
  shows "topic_to_string t = s \<and> topic_is_valid t \<and> (\<forall>u. topic_from_str u = Inr t \<longrightarrow> u = s)"
  using assms topic_to_string_from_str topic_from_str_inj by (auto simp: topic_from_str_Inr)

theorem topic_roundtrip_witness: "topic_to_string [Normal ''a'', SingleWildcard] = ''a/+''"
proof -
  have "topic_from_str ''a/+'' = Inr [Normal ''a'', SingleWildcard]" by code_simp
  from topic_roundtrip [OF this] show ?thesis by blast
qed

section \<open>Passwords\<close>

text \<open>
  C23. The fast password check. The comparison that does not stop at the first difference decides
  equality; the check accepts the password that the stored verifier was computed from, so that the
  assertion of the fuzz target holds on every input; and the framing of credentials is injective for
  the user names that can be created, so that the digest and the verifier never confuse two pairs
  of name and password before hashing.
\<close>

theorem credential_framing:
  assumes "valid_username u" and "valid_username u'"
  shows "(credential_bytes u p = credential_bytes u' p' \<longrightarrow> u = u' \<and> p = p')
     \<and> (verify_fast hmac pepper u p stored \<longleftrightarrow> stored = compute_verifier hmac pepper u p)
     \<and> fuzz_auth_verify A hmac i = Some ()"
proof -
  have "CHR 0x00 \<notin> set u" and "CHR 0x00 \<notin> set u'"
    using assms valid_username_chars by blast+
  from credential_bytes_inj [OF this] show ?thesis
    using fuzz_auth_verify_passes by (auto simp: verify_fast_def ct_eq_iff)
qed

theorem credential_framing_witness:
  "verify_fast (\<lambda>k m. m) [1] ''alice'' ''pw'' (compute_verifier (\<lambda>k m. m) [1] ''alice'' ''pw'')"
  using credential_framing [OF alice_valid(1) alice_valid(1)] by blast

section \<open>Message store\<close>

text \<open>
  C24. What a client gets. With the invariant, \<open>get\<close> returns exactly the messages that survive the
  eviction, whose topic matches the filter, that have not expired and that were not handed to this
  client before, and it leaves the invariant intact. No message is handed to a client twice,
  whatever filter the client asks with next and whenever.
\<close>

theorem get_exact:
  assumes "ms_inv (mst_state s)" and "get_msgs client filt now s = (s', out)"
    and "get_msgs client filt' now' s' = (s'', out')"
  shows "set out = {(i, sm_from m, sm_publish m) | i m.
        map_of (ms_msgs (evict now (mst_max_msgs s) (mst_max_bytes s) (mst_state s))) i = Some m
        \<and> topic_matches (sm_topic m) filt \<and> sm_expiry_at m > now \<and> client \<notin> set (sm_delivered_to m)}
     \<and> ms_inv (mst_state s') \<and> fst ` set out \<inter> fst ` set out' = {}"
  using get_msgs_result(1,2) [OF assms(1,2)] get_msgs_once [OF assms] by blast

theorem get_exact_witness:
  "(0x0001000000000000, sm_from hello_msg, hello) \<in> set (snd (get_msgs ''c2'' ''a/#'' 5 hello_store))"
proof -
  obtain s' out where g: "get_msgs ''c2'' ''a/#'' 5 hello_store = (s', out)" by fastforce
  obtain s'' out' where g': "get_msgs ''c2'' ''a/u1'' 6 s' = (s'', out')" by fastforce
  have "map_of (ms_msgs (evict 5 (mst_max_msgs hello_store) (mst_max_bytes hello_store)
      (mst_state hello_store))) 0x0001000000000000 = Some hello_msg"
    using evict_keeps_unexpired [of "mst_state hello_store" _ hello_msg 5]
    by (simp add: hello_msgs) (simp add: hello_store_def hello_msg_def)
  moreover have "topic_matches ''a/u1'' ''a/#''" by code_simp
  ultimately have "(0x0001000000000000, sm_from hello_msg, sm_publish hello_msg) \<in> set out"
    using get_exact [OF hello_store_inv g g'] by (force simp: hello_msg_def hello_def)
  then show ?thesis using g by (simp add: hello_msg_def)
qed

text \<open>
  C25. Bounds of the memory. After an eviction the number of messages and the byte count are within
  the configured caps, the messages that stay are a suffix of the arrival order, and without caps
  no message is dropped before it expires.
\<close>

theorem evict_bounds:
  assumes "ms_inv st"
  shows "(mm > 0 \<longrightarrow> length (ms_msgs (evict now mm mb st)) \<le> mm)
     \<and> (mb > 0 \<longrightarrow> ms_bytes (evict now mm mb st) \<le> mb)
     \<and> (\<exists>dropped. ms_order st = dropped @ ms_order (evict now mm mb st))
     \<and> (\<forall>k m. map_of (ms_msgs st) k = Some m \<and> sm_expiry_at m > now
          \<longrightarrow> map_of (ms_msgs (evict now 0 0 st)) k = Some m)"
  using evict_caps [OF assms, of mm now mb] evict_suffix [of st now mm mb]
    evict_keeps_unexpired [of st _ _ now] by simp

theorem evict_bounds_witness: "length (ms_msgs (evict 5 1 10 (mst_state hello_store))) \<le> 1"
  using evict_bounds [OF hello_store_inv, of 1] by simp





text \<open>
  C29. Identifiers. For node numbers below \<open>2\<^sup>1\<^sup>6\<close> an identifier carries the node in its upper bits,
  no two of \<open>2\<^sup>4\<^sup>8\<close> successive identifiers of a node are equal and no two nodes share one. The first
  identifier handed out by a store that was just opened is not in the table, as long as the
  \<open>2\<^sup>4\<^sup>8\<close> counter values are not exhausted.
\<close>

theorem message_ids_unique:
  assumes "mst_node_id s < 2 ^ 16" and "mst_node_id t < 2 ^ 16" and "i < 2 ^ 48" and "j < 2 ^ 48"
    and "mst_node_id s \<noteq> mst_node_id t \<or> (s = t \<and> i \<noteq> j)"
  shows "snd (next_msg_id (after_ids i s)) \<noteq> snd (next_msg_id (after_ids j t))
     \<and> drop_bit 48 (snd (next_msg_id (after_ids i s))) = mst_node_id s
     \<and> (\<forall>R view dec env now d d'. redb_laws R view \<and> mst_counter s \<le> counter_mask
          \<and> msg_store_open R dec env (mst_node_id s) now d = (d', Inr s)
          \<longrightarrow> view d messages_table (snd (next_msg_id s)) = None)"
proof -
  have "drop_bit 48 (snd (next_msg_id (after_ids i s))) = mst_node_id s"
    using msg_id_node [of "after_ids i s"] assms(1) by (simp add: after_ids_counter)
  moreover have "snd (next_msg_id (after_ids i s)) \<noteq> snd (next_msg_id (after_ids j t))"
  proof (cases "mst_node_id s = mst_node_id t")
    case True
    then show ?thesis using msg_ids_distinct assms(3-5) by blast
  next
    case False
    then show ?thesis
      using msg_ids_nodes_disjoint [of "after_ids i s" "after_ids j t"] assms(1,2)
      by (simp add: after_ids_counter)
  qed
  moreover have "\<forall>R view dec env now d d'. redb_laws R view \<and> mst_counter s \<le> counter_mask
      \<and> msg_store_open R dec env (mst_node_id s) now d = (d', Inr s)
      \<longrightarrow> view d messages_table (snd (next_msg_id s)) = None"
    by (intro allI impI, elim conjE) (rule msg_id_fresh_after_open [OF _ _ assms(1)])
  ultimately show ?thesis by simp
qed

theorem message_ids_unique_witness:
  "let s = store_of_items msg_dec (\<lambda>_. None) 1 0 one_msg_db [(0x0001000000000000, [1])]
   in snd (next_msg_id (after_ids 3 s)) \<noteq> snd (next_msg_id (after_ids 4 s))
     \<and> mem_view one_msg_db messages_table (snd (next_msg_id s)) = None"
proof -
  let ?s = "store_of_items msg_dec (\<lambda>_. None) 1 0 one_msg_db [(0x0001000000000000, [1])]"
  have n: "mst_node_id ?s = 1" by (simp add: store_of_items_def case_prod_beta)
  have o1: "msg_store_open mem_redb msg_dec (\<lambda>_. None) (mst_node_id ?s) 0 one_msg_db = (one_msg_db, Inr ?s)"
    unfolding n by (simp add: msg_store_open_def write_txn_def mem_redb_def mem_iter_def messages_table_def one_msg_db_def)
  have c: "mst_counter ?s \<le> counter_mask"
    by (simp add: store_of_items_def open_scan_Cons counter_mask_def)
  have "mst_node_id ?s < 2 ^ 16" "(3 :: nat) < 2 ^ 48" "(4 :: nat) < 2 ^ 48" unfolding n by simp_all
  note M = message_ids_unique [OF this(1,1,2,3)]
  show ?thesis unfolding Let_def
  proof (rule conjI)
    show "snd (next_msg_id (after_ids 3 ?s)) \<noteq> snd (next_msg_id (after_ids 4 ?s))"
      by (rule conjunct1 [OF M]) simp
    have "\<forall>R view dec env now d d'. redb_laws R view \<and> mst_counter ?s \<le> counter_mask
          \<and> msg_store_open R dec env (mst_node_id ?s) now d = (d', Inr ?s)
          \<longrightarrow> view d messages_table (snd (next_msg_id ?s)) = None"
      by (rule conjunct2 [OF conjunct2 [OF M]]) simp
    then show "mem_view one_msg_db messages_table (snd (next_msg_id ?s)) = None"
      using mem_redb_laws c o1 by blast
  qed
qed

section \<open>Start-up\<close>



end
